(* ===== verification/Prelude.thy ===== *)
theory Prelude imports Main "HOL-Library.Word" "HOL-Library.Char_ord" "HOL-Library.Sublist" "HOL-Library.AList" begin

text \<open>
  Shared vocabulary of the development: bytes, machine integers, Go's fallible results, the
  functions of Go's \<open>strings\<close> and \<open>strconv\<close> packages that the program calls, and the
  association lists that stand for Go maps. A Go string is a sequence of bytes, so it is a
  HOL \<open>string\<close> (a list of 8-bit characters); a Go \<open>[]byte\<close> is a list of 8-bit words. The
  facts are collected in \<open>go_str\<close> (strings), \<open>go_map\<close> (maps) and \<open>go_byte\<close> (byte lists).
\<close>

named_theorems go_str "facts about Go string functions"
named_theorems go_map "facts about Go maps"
named_theorems go_byte "facts about byte lists"

unbundle bit_operations_syntax

section \<open>Types\<close>

type_synonym byte = "8 word"
type_synonym bytes = "byte list"
type_synonym u16 = "16 word"
type_synonym u32 = "32 word"
type_synonym u64 = "64 word"
type_synonym port = u16

text \<open>A Go map, read as the list of its entries in the order a \<open>range\<close> loop meets them.\<close>

type_synonym ('k, 'v) gomap = "('k \<times> 'v) list"

abbreviation zero_bytes :: "nat \<Rightarrow> bytes" where
  "zero_bytes n \<equiv> replicate n 0"

section \<open>Go maps as association lists\<close>

abbreviation map_ok :: "('k, 'v) gomap \<Rightarrow> bool" where
  "map_ok m \<equiv> distinct (map fst m)"

abbreviation mkeys :: "('k, 'v) gomap \<Rightarrow> 'k set" where
  "mkeys m \<equiv> fst ` set m"

text \<open>\<open>mak.Set\<close> and \<open>m[k] = v\<close>, \<open>delete(m, k)\<close> and the two-result lookup.\<close>

definition mset_key :: "'k \<Rightarrow> 'v \<Rightarrow> ('k, 'v) gomap \<Rightarrow> ('k, 'v) gomap" where
  "mset_key k v m = AList.update k v m"

definition mdel :: "'k \<Rightarrow> ('k, 'v) gomap \<Rightarrow> ('k, 'v) gomap" where
  "mdel k m = filter (\<lambda>e. fst e \<noteq> k) m"

abbreviation mget :: "('k, 'v) gomap \<Rightarrow> 'k \<Rightarrow> 'v option" where
  "mget m k \<equiv> map_of m k"

lemma mget_mset_key [simp, go_map]: "mget (mset_key k v m) k' = (if k' = k then Some v else mget m k')"
  by (simp add: mset_key_def update_conv)

lemma mget_mdel [simp, go_map]: "mget (mdel k m) k' = (if k' = k then None else mget m k')"
  by (induction m) (auto simp: mdel_def)

lemma map_ok_mset_key [simp, intro]: "map_ok m \<Longrightarrow> map_ok (mset_key k v m)"
  by (simp add: mset_key_def distinct_update)

lemma map_ok_mdel [simp, intro]: "map_ok m \<Longrightarrow> map_ok (mdel k m)"
  by (induction m) (auto simp: mdel_def)

lemma mkeys_mset_key [simp, go_map]: "mkeys (mset_key k v m) = insert k (mkeys m)"
proof -
  have "dom (mget (mset_key k v m)) = insert k (dom (mget m))"
    by (auto simp: dom_def)
  then show ?thesis by (simp only: dom_map_of_conv_image_fst)
qed

lemma mkeys_mdel [simp, go_map]: "mkeys (mdel k m) = mkeys m - {k}"
  by (force simp: mdel_def)

lemma mset_key_nonempty [simp]: "mset_key k v m \<noteq> []"
  by (cases m) (auto simp: mset_key_def)

lemma length_mset_key [go_map]:
  "length (mset_key k v m) = (if k \<in> mkeys m then length m else Suc (length m))"
  unfolding mset_key_def by (induction m) (auto split: if_splits)

lemma length_mdel_le: "length (mdel k m) \<le> length m"
  by (simp add: mdel_def)

lemma length_mdel_less: "k \<in> mkeys m \<Longrightarrow> length (mdel k m) < length m"
  unfolding mdel_def by (force intro: length_filter_less)

lemma mget_in_set: "mget m k = Some v \<Longrightarrow> (k, v) \<in> set m"
  by (rule map_of_SomeD)

lemma mget_Some_key: "mget m k = Some v \<Longrightarrow> k \<in> mkeys m"
  by (force dest: map_of_SomeD)

lemma mget_None_iff: "mget m k = None \<longleftrightarrow> k \<notin> mkeys m"
  by (rule map_of_eq_None_iff)

lemma mkeys_mget: "k \<in> mkeys m \<Longrightarrow> \<exists>v. mget m k = Some v"
  using mget_None_iff [of m k] by (cases "mget m k") auto

lemma set_mset_key_cases: "(k', v') \<in> set (mset_key k v m) \<Longrightarrow> (k', v') = (k, v) \<or> (k', v') \<in> set m"
  by (induction m) (auto simp: mset_key_def split: if_splits)

lemma mset_key_fresh: "k \<notin> mkeys m \<Longrightarrow> mset_key k v m = m @ [(k, v)]"
  by (induction m) (auto simp: mset_key_def)

lemma set_mset_key_fresh: "k \<notin> mkeys m \<Longrightarrow> set (mset_key k v m) = insert (k, v) (set m)"
  by (simp add: mset_key_fresh)

lemma set_mdel: "set (mdel k m) = {e \<in> set m. fst e \<noteq> k}"
  by (auto simp: mdel_def)

section \<open>Go's \<open>strings\<close> package\<close>

definition cut_prefix :: "string \<Rightarrow> string \<Rightarrow> string option" where
  "cut_prefix s p = (if prefix p s then Some (drop (length p) s) else None)"

definition cut_suffix :: "string \<Rightarrow> string \<Rightarrow> string option" where
  "cut_suffix s p = (if suffix p s then Some (take (length s - length p) s) else None)"

definition trim_prefix :: "string \<Rightarrow> string \<Rightarrow> string" where
  "trim_prefix s p = (case cut_prefix s p of Some r \<Rightarrow> r | None \<Rightarrow> s)"

definition trim_suffix :: "string \<Rightarrow> string \<Rightarrow> string" where
  "trim_suffix s p = (case cut_suffix s p of Some r \<Rightarrow> r | None \<Rightarrow> s)"

text \<open>\<open>strings.Cut\<close> and \<open>strings.Split\<close> with a one-byte separator.\<close>

fun cut :: "char \<Rightarrow> string \<Rightarrow> (string \<times> string) option" where
  "cut c [] = None"
| "cut c (x # xs) = (if x = c then Some ([], xs) else map_option (\<lambda>(a, b). (x # a, b)) (cut c xs))"

fun split_on :: "char \<Rightarrow> string \<Rightarrow> string list" where
  "split_on c [] = [[]]"
| "split_on c (x # xs) =
     (if x = c then [] # split_on c xs
      else (case split_on c xs of [] \<Rightarrow> [[x]] | y # ys \<Rightarrow> (x # y) # ys))"

fun join :: "string \<Rightarrow> string list \<Rightarrow> string" where
  "join sep [] = []"
| "join sep [x] = x"
| "join sep (x # y # ys) = x @ sep @ join sep (y # ys)"

definition contains_char :: "char \<Rightarrow> string \<Rightarrow> bool" where
  "contains_char c s = (c \<in> set s)"

definition contains_any :: "string \<Rightarrow> string \<Rightarrow> bool" where
  "contains_any cs s = list_ex (\<lambda>c. c \<in> set cs) s"

text \<open>\<open>strings.IndexByte\<close> and \<open>strings.LastIndexByte\<close>; \<open>None\<close> stands for \<open>-1\<close>.\<close>

fun index_char :: "char \<Rightarrow> string \<Rightarrow> nat option" where
  "index_char c [] = None"
| "index_char c (x # xs) = (if x = c then Some 0 else map_option Suc (index_char c xs))"

definition last_index_char :: "char \<Rightarrow> string \<Rightarrow> nat option" where
  "last_index_char c s = map_option (\<lambda>i. length s - Suc i) (index_char c (rev s))"

lemma cut_prefix_append [simp, go_str]: "cut_prefix (p @ s) p = Some s"
  by (simp add: cut_prefix_def)

lemma cut_prefix_Some_iff [go_str]: "cut_prefix s p = Some r \<longleftrightarrow> s = p @ r"
  by (auto simp: cut_prefix_def prefix_def)

lemma cut_suffix_append [simp, go_str]: "cut_suffix (s @ p) p = Some s"
  by (simp add: cut_suffix_def suffix_def)

lemma cut_suffix_Some_iff [go_str]: "cut_suffix s p = Some r \<longleftrightarrow> s = r @ p"
  by (auto simp: cut_suffix_def suffix_def)

lemma cut_Some_iff [go_str]: "cut c s = Some (a, b) \<longleftrightarrow> s = a @ c # b \<and> c \<notin> set a"
proof (induction s arbitrary: a)
  case Nil
  then show ?case by simp
next
  case (Cons x xs)
  show ?case
  proof (cases "x = c")
    case True
    then show ?thesis by (auto simp: Cons_eq_append_conv)
  next
    case False
    then have "cut c (x # xs) = Some (a, b) \<longleftrightarrow> (\<exists>a'. a = x # a' \<and> cut c xs = Some (a', b))"
      by auto
    also have "\<dots> \<longleftrightarrow> (\<exists>a'. a = x # a' \<and> xs = a' @ c # b \<and> c \<notin> set a')"
      by (simp add: Cons.IH)
    also have "\<dots> \<longleftrightarrow> x # xs = a @ c # b \<and> c \<notin> set a"
      using False by (auto simp: Cons_eq_append_conv)
    finally show ?thesis .
  qed
qed

lemma cut_None_iff [go_str]: "cut c s = None \<longleftrightarrow> c \<notin> set s"
  by (induction s) auto

lemma split_on_neq_Nil [simp]: "split_on c s \<noteq> []"
  by (induction s) (auto split: list.splits)

lemma split_on_no_sep [go_str]: "y \<in> set (split_on c s) \<Longrightarrow> c \<notin> set y"
  by (induction s arbitrary: y) (auto split: list.splits if_splits)

lemma join_Cons: "ys \<noteq> [] \<Longrightarrow> join sep (y # ys) = y @ sep @ join sep ys"
  by (cases ys) auto

lemma join_Cons_Cons: "join sep ((x # y) # ys) = x # join sep (y # ys)"
  by (cases ys) auto

lemma join_split_on [simp, go_str]: "join [c] (split_on c s) = s"
proof (induction s)
  case Nil
  then show ?case by simp
next
  case (Cons x xs)
  obtain y ys where y: "split_on c xs = y # ys"
    by (cases "split_on c xs") auto
  show ?case
  proof (cases "x = c")
    case True
    with Cons.IH show ?thesis by (simp add: join_Cons)
  next
    case False
    with Cons.IH y show ?thesis by (simp add: join_Cons_Cons)
  qed
qed

lemma split_on_no_char [go_str]: "c \<notin> set s \<Longrightarrow> split_on c s = [s]"
  by (induction s) auto

lemma split_on_append [go_str]: "c \<notin> set a \<Longrightarrow> split_on c (a @ c # b) = a # split_on c b"
  by (induction a) (auto split: list.splits)

lemma split_on_set: "y \<in> set (split_on c s) \<Longrightarrow> set y \<subseteq> set s"
proof (induction s arbitrary: y)
  case Nil
  then show ?case by simp
next
  case (Cons x xs)
  obtain z zs where z: "split_on c xs = z # zs"
    by (cases "split_on c xs") auto
  with Cons.IH have "\<forall>y' \<in> set (z # zs). set y' \<subseteq> set xs" by simp
  with Cons.prems z show ?case by (force split: if_splits)
qed

lemma split_on_covers: "x \<in> set s \<Longrightarrow> x \<noteq> c \<Longrightarrow> \<exists>y \<in> set (split_on c s). x \<in> set y"
proof (induction s)
  case Nil
  then show ?case by simp
next
  case (Cons a xs)
  then show ?case by (cases "split_on c xs") auto
qed

lemma index_char_None_iff: "index_char c s = None \<longleftrightarrow> c \<notin> set s"
  by (induction s) auto

lemma index_char_bound: "index_char c s = Some i \<Longrightarrow> i < length s \<and> s ! i = c \<and> c \<notin> set (take i s)"
  by (induction s arbitrary: i) (auto split: if_splits)

lemma index_char_append: "c \<notin> set a \<Longrightarrow> index_char c (a @ c # b) = Some (length a)"
  by (induction a) auto

lemma last_index_char_append: "c \<notin> set b \<Longrightarrow> last_index_char c (a @ c # b) = Some (length a)"
  using index_char_append [of c "rev b" "rev a"] by (simp add: last_index_char_def)

lemma last_index_char_None_iff: "last_index_char c s = None \<longleftrightarrow> c \<notin> set s"
  by (simp add: last_index_char_def index_char_None_iff)

lemma last_index_char_Some:
  assumes "last_index_char c s = Some i"
  shows "s = take i s @ c # drop (Suc i) s \<and> i < length s \<and> c \<notin> set (drop (Suc i) s)"
proof -
  from assms obtain j where j: "index_char c (rev s) = Some j" "i = length s - Suc j"
    by (auto simp: last_index_char_def)
  from index_char_bound [OF j(1)] have b: "j < length s" "rev s ! j = c" "c \<notin> set (take j (rev s))"
    by auto
  then have i: "i < length s" "length s - i = Suc j" using j by auto
  moreover have "s ! i = c" using b j by (simp add: rev_nth)
  moreover have "take j (rev s) = rev (drop (Suc i) s)"
    using b(1) j(2) by (simp add: take_rev Suc_diff_Suc)
  ultimately show ?thesis using b by (auto simp: id_take_nth_drop [symmetric])
qed

subsection \<open>White space\<close>

text \<open>
  \<open>strings.TrimSpace\<close> removes leading and trailing code points that Unicode calls white space.
  On bytes these are the six ASCII characters and the UTF-8 encodings of U+0085, U+00A0,
  U+1680, U+2000--U+200A, U+2028, U+2029, U+202F, U+205F and U+3000.
\<close>

definition utf8_spaces :: "string list" where
  "utf8_spaces =
     [[char_of (9::nat)], [char_of (10::nat)], [char_of (11::nat)], [char_of (12::nat)],
      [char_of (13::nat)], [char_of (32::nat)],
      [char_of (0xC2::nat), char_of (0x85::nat)], [char_of (0xC2::nat), char_of (0xA0::nat)],
      [char_of (0xE1::nat), char_of (0x9A::nat), char_of (0x80::nat)],
      [char_of (0xE2::nat), char_of (0x80::nat), char_of (0xA8::nat)],
      [char_of (0xE2::nat), char_of (0x80::nat), char_of (0xA9::nat)],
      [char_of (0xE2::nat), char_of (0x80::nat), char_of (0xAF::nat)],
      [char_of (0xE2::nat), char_of (0x81::nat), char_of (0x9F::nat)],
      [char_of (0xE3::nat), char_of (0x80::nat), char_of (0x80::nat)]]
     @ map (\<lambda>k. [char_of (0xE2::nat), char_of (0x80::nat), char_of (0x80 + k)]) [0..<11]"

definition strip_one :: "string list \<Rightarrow> string \<Rightarrow> string option" where
  "strip_one ps s = map_option (\<lambda>p. drop (length p) s) (find (\<lambda>p. prefix p s) ps)"

function strip_all :: "string list \<Rightarrow> string \<Rightarrow> string" where
  "strip_all ps s = (case strip_one ps s of None \<Rightarrow> s
     | Some r \<Rightarrow> if length r < length s then strip_all ps r else s)"
  by pat_completeness auto
termination
  by (relation "measure (\<lambda>(ps, s). length s)") auto

declare strip_all.simps [simp del]

definition trim_left :: "string \<Rightarrow> string" where
  "trim_left s = strip_all utf8_spaces s"

definition trim_right :: "string \<Rightarrow> string" where
  "trim_right s = rev (strip_all (map rev utf8_spaces) (rev s))"

definition trim_space :: "string \<Rightarrow> string" where
  "trim_space s = trim_right (trim_left s)"

lemma strip_one_set: "strip_one ps s = Some r \<Longrightarrow> set r \<subseteq> set s"
  by (auto simp: strip_one_def dest: in_set_dropD)

lemma strip_all_set: "set (strip_all ps s) \<subseteq> set s"
proof (induction ps s rule: strip_all.induct)
  case (1 ps s)
  show ?case
  proof (cases "strip_one ps s")
    case None
    then show ?thesis by (subst strip_all.simps) simp
  next
    case (Some r)
    from Some have "set r \<subseteq> set s" by (rule strip_one_set)
    with Some "1.IH" [OF Some] show ?thesis by (subst strip_all.simps) auto
  qed
qed

lemma trim_space_set: "set (trim_space s) \<subseteq> set s"
proof -
  have "set (trim_right t) \<subseteq> set t" for t
    using strip_all_set [of _ "rev t"] by (auto simp: trim_right_def)
  moreover have "set (trim_left s) \<subseteq> set s"
    by (simp add: trim_left_def strip_all_set)
  ultimately show ?thesis by (force simp: trim_space_def)
qed

lemma strip_all_id: "strip_one ps s = None \<Longrightarrow> strip_all ps s = s"
  by (subst strip_all.simps) simp

lemma trim_space_id:
  "strip_one utf8_spaces s = None \<Longrightarrow> strip_one (map rev utf8_spaces) (rev s) = None \<Longrightarrow> trim_space s = s"
  by (simp add: trim_space_def trim_left_def trim_right_def strip_all_id)

text \<open>A string that begins and ends with a visible ASCII character has nothing to trim.\<close>

definition visible :: "char \<Rightarrow> bool" where
  "visible c = (32 < (of_char c :: nat) \<and> (of_char c :: nat) < 128)"

lemma utf8_spaces_invisible: "\<forall>p \<in> set utf8_spaces. p \<noteq> [] \<and> \<not> visible (hd p) \<and> \<not> visible (last p)"
  by code_simp

lemma strip_one_visible: "\<forall>p \<in> set ps. p \<noteq> [] \<and> \<not> visible (hd p) \<Longrightarrow> s = [] \<or> visible (hd s) \<Longrightarrow> strip_one ps s = None"
  by (cases s) (auto simp: strip_one_def find_None_iff prefix_Cons)

lemma trim_space_visible: "s = [] \<or> visible (hd s) \<and> visible (last s) \<Longrightarrow> trim_space s = s"
  using utf8_spaces_invisible by (intro trim_space_id strip_one_visible) (auto simp: hd_rev)

lemma find_SomeD: "find P xs = Some x \<Longrightarrow> P x \<and> x \<in> set xs"
  by (auto simp: find_Some_iff)

section \<open>Sorting and compacting\<close>

text \<open>\<open>slices.Compact\<close> of a sorted slice leaves a strictly ascending one.\<close>

lemma distinct_remdups_adj_sorted: "sorted xs \<Longrightarrow> distinct (remdups_adj (xs :: 'a :: linorder list))"
proof (induction xs rule: remdups_adj.induct)
  case (3 x y xs)
  then show ?case by (cases "x = y") (auto simp: less_le)
qed simp_all

lemma strict_sorted_compact: "sorted_wrt (<) (remdups_adj (sort (xs :: 'a :: linorder list)))"
  by (simp add: strict_sorted_iff distinct_remdups_adj_sorted)

end
