(* ===== verification/GoNet.thy ===== *)
theory GoNet imports Prelude "HOL-Library.List_Lexorder" "HOL-Library.Product_Lexorder" begin

text \<open>
  The parts of Go's \<open>strconv\<close>, \<open>net\<close> and \<open>net/netip\<close> packages that the program calls:
  decimal numbers, host:port strings, IP addresses and prefixes, with parsing, printing,
  comparison and prefix membership. A failing call is \<open>None\<close>; the program only ever tests
  the error for being non-nil. Addresses carry their bytes in network order.
\<close>

section \<open>\<open>strconv\<close>\<close>

definition hex_digits :: string where
  "hex_digits = ''0123456789abcdef''"

definition digit_char :: "nat \<Rightarrow> char" where
  "digit_char d = hex_digits ! d"

definition is_digit :: "char \<Rightarrow> bool" where
  "is_digit c = (48 \<le> (of_char c :: nat) \<and> (of_char c :: nat) \<le> 57)"

definition is_lower :: "char \<Rightarrow> bool" where
  "is_lower c = (97 \<le> (of_char c :: nat) \<and> (of_char c :: nat) \<le> 122)"

definition is_upper :: "char \<Rightarrow> bool" where
  "is_upper c = (65 \<le> (of_char c :: nat) \<and> (of_char c :: nat) \<le> 90)"

definition is_alnum :: "char \<Rightarrow> bool" where
  "is_alnum c = (is_lower c \<or> is_upper c \<or> is_digit c)"

definition digit_val :: "char \<Rightarrow> nat" where
  "digit_val c = of_char c - 48"

fun itoa :: "nat \<Rightarrow> string" where
  "itoa n = (if n < 10 then [digit_char n] else itoa (n div 10) @ [digit_char (n mod 10)])"

declare itoa.simps [simp del]

definition digits_val :: "string \<Rightarrow> nat" where
  "digits_val s = foldl (\<lambda>v c. v * 10 + digit_val c) 0 s"

text \<open>\<open>strconv.ParseUint(s, 10, bits)\<close>.\<close>

definition parse_uint :: "nat \<Rightarrow> string \<Rightarrow> nat option" where
  "parse_uint bits s =
     (if s \<noteq> [] \<and> list_all is_digit s \<and> digits_val s < 2 ^ bits then Some (digits_val s) else None)"

lemma digit_char_props [simp]:
  assumes "d < 10"
  shows "is_digit (digit_char d)" "digit_val (digit_char d) = d"
proof -
  have "list_all (\<lambda>d. is_digit (digit_char d) \<and> digit_val (digit_char d) = d) [0..<10]" by code_simp
  with assms show "is_digit (digit_char d)" "digit_val (digit_char d) = d"
    by (simp_all add: list_all_iff)
qed

lemma digit_char_zero:
  assumes d10: "d < 10"
  shows "digit_char d = CHR ''0'' \<longleftrightarrow> d = 0"
proof
  assume d: "digit_char d = CHR ''0''"
  have "digit_val CHR ''0'' = 0" by code_simp
  with d digit_char_props(2) [OF d10] show "d = 0" by simp
next
  assume "d = 0"
  moreover have "digit_char 0 = CHR ''0''" by code_simp
  ultimately show "digit_char d = CHR ''0''" by simp
qed

lemma itoa_neq_Nil [simp]: "itoa n \<noteq> []"
  by (subst itoa.simps) simp

lemma itoa_digits [simp, go_str]: "list_all is_digit (itoa n)"
  by (induction n rule: itoa.induct) (subst itoa.simps, auto)

lemma digits_val_snoc [simp]: "digits_val (s @ [c]) = digits_val s * 10 + digit_val c"
  by (simp add: digits_val_def)

lemma digits_val_itoa [simp, go_str]: "digits_val (itoa n) = n"
proof (induction n rule: itoa.induct)
  case (1 n)
  show ?case
  proof (cases "n < 10")
    case True
    then show ?thesis by (subst itoa.simps) (simp add: digits_val_def)
  next
    case False
    with "1.IH" show ?thesis by (subst itoa.simps) simp
  qed
qed

lemma parse_uint_itoa [simp, go_str]: "n < 2 ^ bits \<Longrightarrow> parse_uint bits (itoa n) = Some n"
  by (simp add: parse_uint_def)

lemma parse_uint_bound: "parse_uint bits s = Some n \<Longrightarrow> n < 2 ^ bits"
  by (auto simp: parse_uint_def split: if_splits)

lemma parse_uint_digits: "parse_uint bits s = Some n \<Longrightarrow> s \<noteq> [] \<and> list_all is_digit s"
  by (auto simp: parse_uint_def split: if_splits)

lemma itoa_inj: "itoa m = itoa n \<Longrightarrow> m = n"
  by (metis digits_val_itoa)

lemma itoa_no_char: "\<not> is_digit c \<Longrightarrow> c \<notin> set (itoa n)"
  using itoa_digits [of n] by (auto simp: list_all_iff)

lemma sep_not_digit [simp]: "\<not> is_digit CHR '':''" "\<not> is_digit CHR ''.''" "\<not> is_digit CHR ''[''"
  "\<not> is_digit CHR '']''" "\<not> is_digit CHR ''-''" "\<not> is_digit CHR ''%''" "\<not> is_digit CHR '',''"
  by (simp_all add: is_digit_def)

section \<open>\<open>net.SplitHostPort\<close> and \<open>net.JoinHostPort\<close>\<close>

definition join_host_port :: "string \<Rightarrow> string \<Rightarrow> string" where
  "join_host_port host port =
     (if contains_char CHR '':'' host then ''['' @ host @ '']:'' @ port else host @ '':'' @ port)"

definition split_host_port :: "string \<Rightarrow> (string \<times> string) option" where
  "split_host_port hp =
     (case last_index_char CHR '':'' hp of
        None \<Rightarrow> None
      | Some i \<Rightarrow>
          if take 1 hp = ''['' then
            (case index_char CHR '']'' hp of
               None \<Rightarrow> None
             | Some e \<Rightarrow>
                 if e + 1 \<noteq> i then None
                 else if contains_char CHR ''['' (drop 1 hp) \<or> contains_char CHR '']'' (drop (e + 1) hp)
                 then None
                 else Some (take (e - 1) (drop 1 hp), drop (i + 1) hp))
          else if contains_char CHR '':'' (take i hp) then None
          else if contains_char CHR ''['' hp \<or> contains_char CHR '']'' hp then None
          else Some (take i hp, drop (i + 1) hp))"

definition bracket_free :: "string \<Rightarrow> bool" where
  "bracket_free s = (CHR ''['' \<notin> set s \<and> CHR '']'' \<notin> set s)"

lemma split_join_host_port [go_str]:
  assumes "bracket_free host" "bracket_free port" "CHR '':'' \<notin> set port"
  shows "split_host_port (join_host_port host port) = Some (host, port)"
proof (cases "CHR '':'' \<in> set host")
  case True
  let ?hp = "CHR ''['' # host @ CHR '']'' # CHR '':'' # port"
  have j: "join_host_port host port = ?hp"
    using True by (simp add: join_host_port_def contains_char_def)
  have i: "last_index_char CHR '':'' ?hp = Some (length host + 2)"
    using last_index_char_append [of "CHR '':''" port "CHR ''['' # host @ [CHR '']'']"] assms(3) by simp
  have e: "index_char CHR '']'' ?hp = Some (length host + 1)"
    using index_char_append [of "CHR '']''" "CHR ''['' # host" "CHR '':'' # port"] assms(1)
    by (simp add: bracket_free_def)
  show ?thesis
    unfolding j split_host_port_def i e
    using assms by (simp add: contains_char_def bracket_free_def)
next
  case False
  let ?hp = "host @ CHR '':'' # port"
  have j: "join_host_port host port = ?hp"
    using False by (simp add: join_host_port_def contains_char_def)
  have i: "last_index_char CHR '':'' ?hp = Some (length host)"
    using assms(3) by (rule last_index_char_append)
  have "take 1 ?hp \<noteq> ''[''"
    using assms(1) by (cases host) (auto simp: bracket_free_def)
  then show ?thesis
    unfolding j split_host_port_def i
    using assms False by (simp add: contains_char_def bracket_free_def)
qed

section \<open>IP addresses\<close>

text \<open>\<open>netip.Addr\<close>: the zero value, an IPv4 address, or an IPv6 address with its zone.\<close>

datatype ipaddr = NoIP | IP4 bytes | IP6 bytes string

type_synonym addrport = "ipaddr \<times> port"

fun ip_valid :: "ipaddr \<Rightarrow> bool" where
  "ip_valid NoIP = False"
| "ip_valid (IP4 b) = True"
| "ip_valid (IP6 b z) = True"

fun ip_wf :: "ipaddr \<Rightarrow> bool" where
  "ip_wf NoIP = True"
| "ip_wf (IP4 b) = (length b = 4)"
| "ip_wf (IP6 b z) = (length b = 16)"

fun is4 :: "ipaddr \<Rightarrow> bool" where
  "is4 (IP4 b) = True"
| "is4 _ = False"

fun is6 :: "ipaddr \<Rightarrow> bool" where
  "is6 (IP6 b z) = True"
| "is6 _ = False"

fun is4in6 :: "ipaddr \<Rightarrow> bool" where
  "is4in6 (IP6 b z) = (take 12 b = zero_bytes 10 @ [255, 255])"
| "is4in6 _ = False"

fun unmap :: "ipaddr \<Rightarrow> ipaddr" where
  "unmap (IP6 b z) = (if is4in6 (IP6 b z) then IP4 (drop 12 b) else IP6 b z)"
| "unmap a = a"

definition is_unspecified :: "ipaddr \<Rightarrow> bool" where
  "is_unspecified a = (a = IP4 (zero_bytes 4) \<or> a = IP6 (zero_bytes 16) [])"

fun as16 :: "ipaddr \<Rightarrow> bytes" where
  "as16 NoIP = zero_bytes 16"
| "as16 (IP4 b) = zero_bytes 10 @ [255, 255] @ b"
| "as16 (IP6 b z) = b"

fun bit_len :: "ipaddr \<Rightarrow> nat" where
  "bit_len NoIP = 0"
| "bit_len (IP4 b) = 32"
| "bit_len (IP6 b z) = 128"

subsection \<open>\<open>Addr.Compare\<close> as the type's order\<close>

fun ip_key :: "ipaddr \<Rightarrow> nat \<times> bytes \<times> string" where
  "ip_key NoIP = (0, [], [])"
| "ip_key (IP4 b) = (32, b, [])"
| "ip_key (IP6 b z) = (128, b, z)"

lemma ip_key_inj: "ip_key a = ip_key b \<Longrightarrow> a = b"
  by (cases a; cases b) auto

instantiation ipaddr :: linorder
begin

definition less_eq_ipaddr :: "ipaddr \<Rightarrow> ipaddr \<Rightarrow> bool" where
  "less_eq_ipaddr a b = (ip_key a \<le> ip_key b)"

definition less_ipaddr :: "ipaddr \<Rightarrow> ipaddr \<Rightarrow> bool" where
  "less_ipaddr a b = (ip_key a < ip_key b)"

instance
  by standard
     (auto simp only: less_eq_ipaddr_def less_ipaddr_def less_le_not_le linear intro: order_trans dest: ip_key_inj antisym)

end

subsection \<open>Prefixes\<close>

datatype ipprefix = Pfx ipaddr nat

fun pfx_addr :: "ipprefix \<Rightarrow> ipaddr" where
  "pfx_addr (Pfx a n) = a"

definition byte_bits :: "byte \<Rightarrow> bool list" where
  "byte_bits b = map (bit b) [7, 6, 5, 4, 3, 2, 1, 0]"

definition addr_bits :: "bytes \<Rightarrow> bool list" where
  "addr_bits bs = concat (map byte_bits bs)"

fun pfx_contains :: "ipprefix \<Rightarrow> ipaddr \<Rightarrow> bool" where
  "pfx_contains (Pfx (IP4 p) n) (IP4 b) = (take n (addr_bits p) = take n (addr_bits b))"
| "pfx_contains (Pfx (IP6 p _) n) (IP6 b z) = (z = [] \<and> take n (addr_bits p) = take n (addr_bits b))"
| "pfx_contains _ _ = False"

lemma byte_bits_length [simp]: "length (byte_bits b) = 8"
  by (simp add: byte_bits_def)

lemma byte_bits_inj: "byte_bits a = byte_bits b \<Longrightarrow> a = b"
proof (rule bit_word_eqI)
  fix n
  assume eq: "byte_bits a = byte_bits b" and "n < LENGTH(8)"
  then have "n \<in> {0, 1, 2, 3, 4, 5, 6, 7}" by auto
  with eq show "bit a n = bit b n" by (auto simp: byte_bits_def)
qed

lemma addr_bits_length [simp]: "length (addr_bits bs) = 8 * length bs"
  by (induction bs) (auto simp: addr_bits_def)

lemma addr_bits_inj: "addr_bits a = addr_bits b \<Longrightarrow> a = b"
proof (induction a arbitrary: b)
  case Nil
  then have "length (addr_bits b) = 0" by (simp add: addr_bits_def)
  then show ?case by simp
next
  case (Cons x xs)
  then have "length (addr_bits b) = 8 * Suc (length xs)"
    by (metis addr_bits_length length_Cons)
  then obtain y ys where b: "b = y # ys" by (cases b) auto
  with Cons.prems have "byte_bits x @ addr_bits xs = byte_bits y @ addr_bits ys"
    by (simp add: addr_bits_def)
  then have "byte_bits x = byte_bits y" "addr_bits xs = addr_bits ys"
    by (simp_all add: append_eq_append_conv)
  with Cons.IH b show ?case by (auto dest: byte_bits_inj)
qed

lemma addr_bits_take: "take (8 * k) (addr_bits bs) = addr_bits (take k bs)"
proof (induction bs arbitrary: k)
  case Nil
  then show ?case by (simp add: addr_bits_def)
next
  case (Cons x xs)
  show ?case
  proof (cases k)
    case 0
    then show ?thesis by (simp add: addr_bits_def)
  next
    case (Suc j)
    have "take (8 * Suc j) (addr_bits (x # xs)) = byte_bits x @ take (8 * j) (addr_bits xs)"
      by (simp add: addr_bits_def)
    with Suc Cons.IH show ?thesis by (simp add: addr_bits_def)
  qed
qed

lemma pfx_contains_bytes [go_byte]:
  "pfx_contains (Pfx (IP6 p z') (8 * k)) (IP6 b z) \<longleftrightarrow> z = [] \<and> take k p = take k b"
  by (auto simp: addr_bits_take dest: addr_bits_inj)

lemma pfx_contains_host:
  assumes "length p = 16" "length b = 16"
  shows "pfx_contains (Pfx (IP6 p z') 128) (IP6 b z) \<longleftrightarrow> z = [] \<and> p = b"
  using pfx_contains_bytes [of p z' 16 b z] assms by simp

lemma pfx_contains_all: "pfx_contains (Pfx (IP6 p z') 0) a \<longleftrightarrow> (\<exists>b. a = IP6 b [])"
  by (cases a) auto

section \<open>Parsing addresses\<close>

text \<open>\<open>parseIPv4Fields\<close>: four dotted decimal fields, each at most 255 and without a leading zero.\<close>

definition ipv4_field :: "string \<Rightarrow> byte option" where
  "ipv4_field f =
     (if f = [] \<or> \<not> list_all is_digit f \<or> (1 < length f \<and> hd f = CHR ''0'') \<or> 255 < digits_val f
      then None else Some (of_nat (digits_val f)))"

definition parse_ipv4 :: "string \<Rightarrow> bytes option" where
  "parse_ipv4 s =
     (let fs = split_on CHR ''.'' s
      in if length fs = 4 \<and> list_all (\<lambda>f. ipv4_field f \<noteq> None) fs
         then Some (map (\<lambda>f. the (ipv4_field f)) fs) else None)"

definition hex_val :: "char \<Rightarrow> nat option" where
  "hex_val c =
     (let n = (of_char c :: nat)
      in if 48 \<le> n \<and> n \<le> 57 then Some (n - 48)
         else if 97 \<le> n \<and> n \<le> 102 then Some (n - 87)
         else if 65 \<le> n \<and> n \<le> 70 then Some (n - 55)
         else None)"

text \<open>One group of hexadecimal digits: how many, their value, and the rest of the string.\<close>

fun hex_run :: "nat \<Rightarrow> nat \<Rightarrow> string \<Rightarrow> (nat \<times> nat \<times> string) option" where
  "hex_run off acc [] = Some (off, acc, [])"
| "hex_run off acc (c # cs) =
     (case hex_val c of
        None \<Rightarrow> Some (off, acc, c # cs)
      | Some v \<Rightarrow> if off > 3 then None else hex_run (Suc off) (acc * 16 + v) cs)"

text \<open>
  The loop of \<open>parseIPv6\<close>, with the bytes parsed so far, the position of the ellipsis and the
  unread string. The first argument counts the two-byte groups still free.
\<close>

fun v6_loop :: "nat \<Rightarrow> bytes \<Rightarrow> nat option \<Rightarrow> string \<Rightarrow> (bytes \<times> nat option \<times> string) option" where
  "v6_loop 0 ip e s = Some (ip, e, s)"
| "v6_loop (Suc n) ip e s =
     (case hex_run 0 0 s of
        None \<Rightarrow> None
      | Some (off, acc, r) \<Rightarrow>
          if off = 0 then None
          else if take 1 r = ''.'' then
            (if e = None \<and> length ip \<noteq> 12 then None
             else if length ip + 4 > 16 then None
             else (case parse_ipv4 s of None \<Rightarrow> None | Some v4 \<Rightarrow> Some (ip @ v4, e, [])))
          else
            (let ip' = ip @ [of_nat (acc div 256), of_nat (acc mod 256)]
             in case r of
                  [] \<Rightarrow> Some (ip', e, [])
                | c # r' \<Rightarrow>
                    if c \<noteq> CHR '':'' then None
                    else (case r' of
                            [] \<Rightarrow> None
                          | d # r'' \<Rightarrow>
                              if d = CHR '':'' then
                                (if e \<noteq> None then None
                                 else if r'' = [] then Some (ip', Some (length ip'), [])
                                 else v6_loop n ip' (Some (length ip')) r'')
                              else v6_loop n ip' e r')))"

definition parse_ipv6 :: "string \<Rightarrow> ipaddr option" where
  "parse_ipv6 inp =
     (let (s, z, zok) = (case cut CHR ''%'' inp of None \<Rightarrow> (inp, [], True) | Some (a, b) \<Rightarrow> (a, b, b \<noteq> []))
      in if \<not> zok then None
         else let lead = (take 2 s = ''::'');
                  s1 = (if lead then drop 2 s else s)
              in if lead \<and> s1 = [] then Some (IP6 (zero_bytes 16) z)
                 else (case v6_loop 8 [] (if lead then Some 0 else None) s1 of
                         None \<Rightarrow> None
                       | Some (ip, e, rest) \<Rightarrow>
                           if rest \<noteq> [] then None
                           else if length ip < 16 then
                             (case e of
                                None \<Rightarrow> None
                              | Some k \<Rightarrow> Some (IP6 (take k ip @ zero_bytes (16 - length ip) @ drop k ip) z))
                           else if e \<noteq> None then None
                           else Some (IP6 ip z)))"

definition parse_addr :: "string \<Rightarrow> ipaddr option" where
  "parse_addr s =
     (case find (\<lambda>c. c = CHR ''.'' \<or> c = CHR '':'' \<or> c = CHR ''%'') s of
        None \<Rightarrow> None
      | Some c \<Rightarrow>
          if c = CHR ''.'' then map_option IP4 (parse_ipv4 s)
          else if c = CHR '':'' then parse_ipv6 s
          else None)"

definition split_addr_port :: "string \<Rightarrow> (string \<times> string \<times> bool) option" where
  "split_addr_port s =
     (case last_index_char CHR '':'' s of
        None \<Rightarrow> None
      | Some i \<Rightarrow>
          (let ip = take i s; p = drop (Suc i) s
           in if ip = [] \<or> p = [] then None
              else if hd ip = CHR ''['' then
                (if length ip < 2 \<or> last ip \<noteq> CHR '']'' then None
                 else Some (butlast (tl ip), p, True))
              else Some (ip, p, False)))"

definition parse_addr_port :: "string \<Rightarrow> addrport option" where
  "parse_addr_port s =
     (case split_addr_port s of
        None \<Rightarrow> None
      | Some (ip, p, v6) \<Rightarrow>
          (case parse_uint 16 p of
             None \<Rightarrow> None
           | Some pn \<Rightarrow>
               (case parse_addr ip of
                  None \<Rightarrow> None
                | Some a \<Rightarrow>
                    if v6 \<and> is4 a then None
                    else if \<not> v6 \<and> is6 a then None
                    else Some (a, of_nat pn))))"

section \<open>Printing addresses\<close>

definition hex_char :: "nat \<Rightarrow> char" where
  "hex_char d = hex_digits ! d"

fun hex_nat :: "nat \<Rightarrow> string" where
  "hex_nat n = (if n < 16 then [hex_char n] else hex_nat (n div 16) @ [hex_char (n mod 16)])"

declare hex_nat.simps [simp del]

definition ipv4_string :: "bytes \<Rightarrow> string" where
  "ipv4_string b = join ''.'' (map (\<lambda>x. itoa (unat x)) b)"

fun groups16 :: "bytes \<Rightarrow> nat list" where
  "groups16 (a # b # r) = (unat a * 256 + unat b) # groups16 r"
| "groups16 _ = []"

text \<open>The longest run of at least two zero groups, the first one on a tie.\<close>

definition zero_run_at :: "nat list \<Rightarrow> nat \<Rightarrow> nat" where
  "zero_run_at gs i = length (takeWhile (\<lambda>g. g = 0) (drop i gs))"

definition zero_run :: "nat list \<Rightarrow> (nat \<times> nat) option" where
  "zero_run gs =
     foldl (\<lambda>best i. let l = zero_run_at gs i
                     in if 2 \<le> l \<and> (case best of None \<Rightarrow> True | Some (a, b) \<Rightarrow> b - a < l)
                        then Some (i, i + l) else best)
       None [0..<length gs]"

definition ipv6_string :: "bytes \<Rightarrow> string" where
  "ipv6_string b =
     (let gs = groups16 b
      in case zero_run gs of
           None \<Rightarrow> join '':'' (map hex_nat gs)
         | Some (i, j) \<Rightarrow> join '':'' (map hex_nat (take i gs)) @ ''::'' @ join '':'' (map hex_nat (drop j gs)))"

definition zone_string :: "string \<Rightarrow> string" where
  "zone_string z = (if z = [] then [] else CHR ''%'' # z)"

fun ip_string :: "ipaddr \<Rightarrow> string" where
  "ip_string NoIP = ''invalid IP''"
| "ip_string (IP4 b) = ipv4_string b"
| "ip_string (IP6 b z) =
     (if is4in6 (IP6 b z) then ''::ffff:'' @ ipv4_string (drop 12 b) @ zone_string z
      else ipv6_string b @ zone_string z)"

fun addr_port_string :: "addrport \<Rightarrow> string" where
  "addr_port_string (NoIP, p) = ''invalid AddrPort''"
| "addr_port_string (IP4 b, p) = ipv4_string b @ '':'' @ itoa (unat p)"
| "addr_port_string (IP6 b z, p) = ''['' @ ip_string (IP6 b z) @ '']:'' @ itoa (unat p)"

lemma parse_ipv4_length: "parse_ipv4 s = Some b \<Longrightarrow> length b = 4"
  by (auto simp: parse_ipv4_def Let_def split: if_splits)

lemma v6_loop_length:
  "v6_loop n ip e s = Some (ip', e', r) \<Longrightarrow> length ip + 2 * n = 16
    \<Longrightarrow> length ip' \<le> 16 \<and> length ip \<le> length ip'"
proof (induction n ip e s arbitrary: ip' e' r rule: v6_loop.induct)
  case (1 ip e s)
  then show ?case by simp
next
  case (2 n ip e s)
  show ?case
    using "2.prems" "2.IH"(1)[OF _ refl refl] "2.IH"(2)[OF _ refl refl]
    by (fastforce simp: Let_def dest: parse_ipv4_length
          split: option.splits prod.splits if_splits list.splits)
qed

lemma ipv4_field_itoa: "ipv4_field (itoa (unat (b :: byte))) = Some b"
proof -
  have b: "unat b < 256" using unsigned_less [of b, where ?'a = nat] by simp
  have "hd (itoa n) \<noteq> CHR ''0'' \<or> n < 10" for n
  proof (induction n rule: itoa.induct)
    case (1 n)
    show ?case
    proof (cases "n < 10")
      case False
      show ?thesis
      proof (cases "n div 10 < 10")
        case True
        with False have "0 < n div 10" by auto
        with True False show ?thesis
          by (subst itoa.simps, subst itoa.simps) (auto simp: digit_char_zero)
      next
        case False
        with "1.IH" \<open>\<not> n < 10\<close> show ?thesis
          by (subst itoa.simps) simp
      qed
    qed simp
  qed
  moreover have "length (itoa n) = 1" if "n < 10" for n
    using that by (subst itoa.simps) simp
  ultimately have "\<not> (1 < length (itoa (unat b)) \<and> hd (itoa (unat b)) = CHR ''0'')"
    by (metis less_irrefl)
  with b show ?thesis by (simp add: ipv4_field_def)
qed

lemma split_on_join:
  "ys \<noteq> [] \<Longrightarrow> (\<forall>y \<in> set ys. c \<notin> set y) \<Longrightarrow> split_on c (join [c] ys) = ys"
proof (induction ys)
  case Nil
  then show ?case by simp
next
  case (Cons y ys)
  show ?case
  proof (cases ys)
    case Nil
    with Cons.prems show ?thesis by (simp add: split_on_no_char)
  next
    case (Cons z zs)
    with Cons.IH Cons.prems show ?thesis by (simp add: split_on_append)
  qed
qed

lemma parse_ipv4_string [go_str]:
  assumes "length b = 4"
  shows "parse_ipv4 (ipv4_string b) = Some b"
proof -
  have "split_on CHR ''.'' (ipv4_string b) = map (\<lambda>x. itoa (unat x)) b"
    unfolding ipv4_string_def using assms
    by (intro split_on_join) (auto simp: itoa_no_char)
  then show ?thesis
    using assms by (simp add: parse_ipv4_def list_all_iff ipv4_field_itoa comp_def)
qed

end
