(* ===== verification/Keys.thy ===== *)
theory Keys imports GoNet begin

text \<open>
  The key types of \<open>tailcat.go\<close> and their encodings: the H3 connection secret
  (\<open>PresharedKey\<close>), the node and discovery public keys, the discovery key derived from a node
  key, and the IPv6 address derived from a node key (\<open>tcAddrForKey\<close> in \<open>tailcat.go\<close>,
  \<open>h3NodeAddress\<close> and \<open>hexNodeKey\<close> in \<open>h3_streams.go\<close>). A key is its raw 32 bytes, the
  form the \<open>types/key\<close> package documents; HMAC-SHA256 and the curve are parameters.
\<close>

section \<open>Raw keys\<close>

type_synonym key32 = bytes

definition key_ok :: "key32 \<Rightarrow> bool" where
  "key_ok k = (length k = 32)"

definition key_zero :: key32 where
  "key_zero = zero_bytes 32"

definition key_is_zero :: "key32 \<Rightarrow> bool" where
  "key_is_zero k = (k = key_zero)"

text \<open>\<open>copy(dst[off:], src)\<close>.\<close>

definition go_copy :: "'a list \<Rightarrow> nat \<Rightarrow> 'a list \<Rightarrow> 'a list" where
  "go_copy dst off src = take off dst @ take (length dst - off) src @ drop (off + length src) dst"

lemma length_go_copy [simp, go_byte]: "off \<le> length dst \<Longrightarrow> length (go_copy dst off src) = length dst"
  by (simp add: go_copy_def)

lemma key_ok_zero [simp]: "key_ok key_zero"
  by (simp add: key_ok_def key_zero_def)

section \<open>Hexadecimal text\<close>

definition hex_encode :: "bytes \<Rightarrow> string" where
  "hex_encode bs = concat (map (\<lambda>b. [hex_char (unat b div 16), hex_char (unat b mod 16)]) bs)"

fun hex_decode :: "string \<Rightarrow> bytes option" where
  "hex_decode [] = Some []"
| "hex_decode [c] = None"
| "hex_decode (c # d # cs) =
     (case (hex_val c, hex_val d, hex_decode cs) of
        (Some h, Some l, Some bs) \<Rightarrow> Some (of_nat (h * 16 + l) # bs)
      | _ \<Rightarrow> None)"

lemma hex_val_hex_char [simp]:
  assumes "d < 16"
  shows "hex_val (hex_char d) = Some d"
proof -
  have "list_all (\<lambda>d. hex_val (hex_char d) = Some d) [0..<16]" by code_simp
  with assms show ?thesis by (simp add: list_all_iff)
qed

lemma byte_halves: "of_nat (unat b div 16 * 16 + unat b mod 16) = (b :: byte)"
  by (simp add: div_mult_mod_eq)

lemma unat_byte_less [simp]: "unat (b :: byte) < 256"
  using unsigned_less [of b, where ?'a = nat] by simp

lemma hex_decode_encode [simp, go_str]: "hex_decode (hex_encode bs) = Some bs"
proof (induction bs)
  case Nil
  then show ?case by (simp add: hex_encode_def)
next
  case (Cons b bs)
  have "unat b div 16 < 16" using unat_byte_less [of b] by linarith
  then have "hex_decode (hex_char (unat b div 16) # hex_char (unat b mod 16) # hex_encode bs)
      = Some (of_nat (unat b div 16 * 16 + unat b mod 16) # bs)"
    using Cons.IH by simp
  then show ?case by (simp only: hex_encode_def list.map concat.simps append.simps byte_halves)
qed

lemma length_hex_encode [simp, go_str]: "length (hex_encode bs) = 2 * length bs"
  by (induction bs) (auto simp: hex_encode_def)

lemma hex_decode_length: "hex_decode s = Some bs \<Longrightarrow> length s = 2 * length bs"
  by (induction s arbitrary: bs rule: hex_decode.induct) (auto split: option.splits)

section \<open>The connection secret\<close>

text \<open>\<open>subtle.ConstantTimeCompare\<close>: the bytes' differences are or-ed together.\<close>

definition constant_time_compare :: "bytes \<Rightarrow> bytes \<Rightarrow> int" where
  "constant_time_compare x y =
     (if length x \<noteq> length y then 0
      else if foldl (\<lambda>v (a, b). v OR (a XOR b)) 0 (zip x y) = 0 then 1 else 0)"

definition psk_len :: nat where "psk_len = 32"

definition psk_is_zero :: "key32 \<Rightarrow> bool" where
  "psk_is_zero p = (constant_time_compare p (zero_bytes psk_len) = 1)"

definition psk_equal :: "key32 \<Rightarrow> key32 \<Rightarrow> bool" where
  "psk_equal p q = (constant_time_compare p q = 1)"

lemma xor_zero_iff: "a XOR b = 0 \<longleftrightarrow> a = (b :: byte)"
proof
  assume "a XOR b = 0"
  then have "(a XOR b) XOR b = b" by simp
  then show "a = b" by (simp add: xor.assoc)
qed simp

lemma foldl_or_zero:
  "foldl (\<lambda>v (a, b). v OR (a XOR b)) w (zip x y) = 0
    \<longleftrightarrow> w = 0 \<and> (\<forall>(a, b) \<in> set (zip x y). a = (b :: byte))"
proof (induction x arbitrary: y w)
  case Nil
  then show ?case by simp
next
  case (Cons a x)
  then show ?case
    by (cases y) (auto simp: or_eq_0_iff xor_zero_iff)
qed

lemma constant_time_compare_eq: "constant_time_compare x y = 1 \<longleftrightarrow> x = y"
proof (cases "length x = length y")
  case True
  have "(\<forall>(a, b) \<in> set (zip x y). a = b) \<longleftrightarrow> x = y"
    using True by (induction x y rule: list_induct2) auto
  then show ?thesis
    using True by (simp add: constant_time_compare_def foldl_or_zero)
next
  case False
  then show ?thesis by (auto simp: constant_time_compare_def)
qed

lemma psk_is_zero_iff [simp]: "psk_is_zero p \<longleftrightarrow> p = key_zero"
  by (simp add: psk_is_zero_def constant_time_compare_eq psk_len_def key_zero_def)

lemma psk_equal_iff [simp]: "psk_equal p q \<longleftrightarrow> p = q"
  by (simp add: psk_equal_def constant_time_compare_eq)

text \<open>
  \<open>NewPresharedKey\<close>: read from the random source until the key is not zero. \<open>rng n\<close> is the
  result of the \<open>n\<close>-th read, \<open>None\<close> a read error, which makes the code panic (\<open>Some None\<close>);
  a loop that never ends is \<open>None\<close>.
\<close>

partial_function (option) new_psk_loop :: "(nat \<Rightarrow> key32 option) \<Rightarrow> nat \<Rightarrow> key32 \<Rightarrow> key32 option option" where
  "new_psk_loop rng n ret =
     (if \<not> psk_is_zero ret then Some (Some ret)
      else (case rng n of None \<Rightarrow> Some None | Some b \<Rightarrow> new_psk_loop rng (Suc n) b))"

definition new_preshared_key :: "(nat \<Rightarrow> key32 option) \<Rightarrow> key32 option option" where
  "new_preshared_key rng = new_psk_loop rng 0 key_zero"

definition psk_marshal_binary :: "key32 \<Rightarrow> bytes" where
  "psk_marshal_binary p = [] @ p"

definition psk_unmarshal_binary :: "bytes \<Rightarrow> key32 option" where
  "psk_unmarshal_binary x = (if length x \<noteq> psk_len then None else Some (go_copy (zero_bytes psk_len) 0 x))"

definition psk_marshal_text :: "key32 \<Rightarrow> string" where
  "psk_marshal_text p = ''psk:'' @ hex_encode p"

definition psk_unmarshal_text :: "string \<Rightarrow> key32 option" where
  "psk_unmarshal_text x =
     (if length x \<noteq> length ''psk:'' + 2 * psk_len \<or> take (length ''psk:'') x \<noteq> ''psk:'' then None
      else hex_decode (drop (length ''psk:'') x))"

lemma new_psk_loop_finds:
  assumes "\<forall>i < k. rng (n + i) = Some key_zero" "rng (n + k) = Some p" "p \<noteq> key_zero"
  shows "new_psk_loop rng n key_zero = Some (Some p)"
  using assms
proof (induction k arbitrary: n)
  case 0
  then show ?case by (simp add: new_psk_loop.simps)
next
  case (Suc k)
  from Suc.prems(1) have "rng n = Some key_zero" by (metis add.right_neutral zero_less_Suc)
  moreover have "new_psk_loop rng (Suc n) key_zero = Some (Some p)"
  proof (rule Suc.IH)
    show "\<forall>i < k. rng (Suc n + i) = Some key_zero"
      using Suc.prems(1) by (metis Suc_less_eq add_Suc add_Suc_right)
    show "rng (Suc n + k) = Some p" using Suc.prems(2) by simp
  qed (rule Suc.prems(3))
  ultimately show ?case by (subst new_psk_loop.simps) simp
qed

lemma new_psk_loop_nonzero:
  assumes ret: "new_psk_loop rng n ret = Some (Some p)"
  shows "p \<noteq> key_zero"
proof -
  have "new_psk_loop rng n ret = Some r \<Longrightarrow> r \<noteq> Some key_zero" for r
    by (rule new_psk_loop.raw_induct [where P = "\<lambda>rng n ret r. r \<noteq> Some key_zero"])
       (auto split: if_splits option.splits)
  with ret show ?thesis by blast
qed

section \<open>Node and discovery public keys\<close>

definition node_marshal_binary :: "key32 \<Rightarrow> bytes" where
  "node_marshal_binary p = [] @ p"

definition node_unmarshal_binary :: "bytes \<Rightarrow> key32 option" where
  "node_unmarshal_binary x = (if length x \<noteq> 32 then None else Some x)"

definition disco_marshal_binary :: "key32 \<Rightarrow> bytes" where
  "disco_marshal_binary p = [] @ p"

definition disco_unmarshal_binary :: "bytes \<Rightarrow> key32 option" where
  "disco_unmarshal_binary x = (if length x \<noteq> 32 then None else Some x)"

definition node_equal :: "key32 \<Rightarrow> key32 \<Rightarrow> bool" where
  "node_equal a b = (a = b)"

definition disco_equal :: "key32 \<Rightarrow> key32 \<Rightarrow> bool" where
  "disco_equal a b = (a = b)"

text \<open>\<open>hexNodeKey\<close>: two digits per byte, written into a 64-byte array.\<close>

definition hex_node_key :: "key32 \<Rightarrow> string" where
  "hex_node_key k =
     foldl (\<lambda>b i. b[2 * i := hex_digits ! unat (drop_bit 4 (k ! i)),
                    2 * i + 1 := hex_digits ! unat (k ! i AND 15)])
       (replicate (2 * length k) (char_of (0 :: nat))) [0..<length k]"

section \<open>The tailcat address of a node key\<close>

text \<open>\<open>tcAddrForKey\<close> fills bytes 6 to 15 of Tailscale's ULA prefix from the node key.\<close>

definition tc_addr_for_key :: "key32 \<Rightarrow> ipaddr" where
  "tc_addr_for_key k =
     (let a = (zero_bytes 16)[0 := 0xfd, 1 := 0x7a, 2 := 0x11, 3 := 0x5c, 4 := 0xa1, 5 := 0xe0]
      in IP6 (go_copy a 6 (take 10 k)) [])"

definition h3_node_address :: "key32 \<Rightarrow> ipaddr" where
  "h3_node_address k =
     (let a = go_copy (zero_bytes 16) 0 [0xfd, 0x7a, 0x11, 0x5c, 0xa1, 0xe0]
      in IP6 (go_copy a 6 (take 10 k)) [])"

definition pfx_of :: "ipaddr \<Rightarrow> ipprefix" where
  "pfx_of a = Pfx a (bit_len a)"

definition tailscale_ula :: ipprefix where
  "tailscale_ula = Pfx (IP6 ([0xfd, 0x7a, 0x11, 0x5c, 0xa1, 0xe0] @ zero_bytes 10) []) 48"

definition all_ipv6 :: ipprefix where
  "all_ipv6 = Pfx (IP6 (zero_bytes 16) []) 0"

lemma tc_addr_bytes: "10 \<le> length k \<Longrightarrow> tc_addr_for_key k = IP6 ([0xfd, 0x7a, 0x11, 0x5c, 0xa1, 0xe0] @ take 10 k) []"
  by (simp add: tc_addr_for_key_def go_copy_def numeral_eq_Suc)

lemma h3_addr_bytes: "10 \<le> length k \<Longrightarrow> h3_node_address k = IP6 ([0xfd, 0x7a, 0x11, 0x5c, 0xa1, 0xe0] @ take 10 k) []"
  by (simp add: h3_node_address_def go_copy_def numeral_eq_Suc)

lemma tc_addr_wf: "key_ok k \<Longrightarrow> ip_wf (tc_addr_for_key k)"
  by (simp add: tc_addr_bytes key_ok_def)

lemma tc_addr_in_ula: "key_ok k \<Longrightarrow> pfx_contains tailscale_ula (tc_addr_for_key k)"
  using pfx_contains_bytes [of "[0xfd, 0x7a, 0x11, 0x5c, 0xa1, 0xe0] @ zero_bytes 10" "[]" 6
      "[0xfd, 0x7a, 0x11, 0x5c, 0xa1, 0xe0] @ take 10 k" "[]"]
  by (simp add: tc_addr_bytes key_ok_def tailscale_ula_def del: pfx_contains.simps)

lemma tc_addr_eq_iff:
  "key_ok k \<Longrightarrow> key_ok j \<Longrightarrow> tc_addr_for_key k = tc_addr_for_key j \<longleftrightarrow> take 10 k = take 10 j"
  by (simp add: tc_addr_bytes key_ok_def)

lemma pfx_of_tc_addr:
  "key_ok k \<Longrightarrow> pfx_contains (pfx_of (tc_addr_for_key k)) a \<Longrightarrow> ip_wf a \<Longrightarrow> a = tc_addr_for_key k"
  by (cases a) (auto simp: pfx_of_def tc_addr_bytes key_ok_def dest: addr_bits_inj)

lemma pfx_of_tc_addr_self: "key_ok k \<Longrightarrow> pfx_contains (pfx_of (tc_addr_for_key k)) (tc_addr_for_key k)"
  by (simp add: pfx_of_def tc_addr_bytes key_ok_def)

section \<open>The discovery key of a node\<close>

text \<open>
  \<open>discoPrivateForNode\<close>: an HMAC of a fixed label under the node's private key, then the
  Curve25519 clamping of the scalar. \<open>hmac key message\<close> is HMAC-SHA256.
\<close>

definition disco_label :: string where
  "disco_label = ''github.com/tailscale/tailcat disco key v1''"

definition string_bytes :: "string \<Rightarrow> bytes" where
  "string_bytes s = map of_char s"

definition disco_private_for_node :: "(bytes \<Rightarrow> bytes \<Rightarrow> bytes) \<Rightarrow> key32 \<Rightarrow> key32" where
  "disco_private_for_node hmac raw =
     (let d = hmac raw (string_bytes disco_label);
          d = d[0 := d ! 0 AND 248];
          d = d[31 := d ! 31 AND 127];
          d = d[31 := d ! 31 OR 64]
      in d)"

definition clamped :: "key32 \<Rightarrow> bool" where
  "clamped d =
     (length d = 32 \<and> \<not> bit (d ! 0) 0 \<and> \<not> bit (d ! 0) 1 \<and> \<not> bit (d ! 0) 2
      \<and> \<not> bit (d ! 31) 7 \<and> bit (d ! 31) 6)"

definition disco_public_for_node :: "(bytes \<Rightarrow> bytes \<Rightarrow> bytes) \<Rightarrow> (key32 \<Rightarrow> key32) \<Rightarrow> key32 \<Rightarrow> key32" where
  "disco_public_for_node hmac disco_pub k = disco_pub (disco_private_for_node hmac k)"

section \<open>Correctness of the key encodings\<close>

lemma unat_high_nibble: "unat (drop_bit 4 (b :: byte)) = unat b div 16"
proof -
  have "unat (drop_bit 4 b) = drop_bit 4 (unat b)" by (rule unat_drop_bit_eq)
  then show ?thesis by (simp only: drop_bit_eq_div) simp
qed

lemma unat_low_nibble: "unat ((b :: byte) AND 15) = unat b mod 16"
proof -
  have m: "(15 :: nat) = mask 4" by (simp add: mask_eq_exp_minus_1)
  have "unat (b AND 15) = unat b AND 15" by (simp add: unsigned_and_eq)
  also have "\<dots> = take_bit 4 (unat b)" by (simp only: m take_bit_eq_mask)
  finally show ?thesis by (simp add: take_bit_eq_mod)
qed

lemma hex_encode_snoc: "hex_encode (bs @ [b]) = hex_encode bs @ [hex_char (unat b div 16), hex_char (unat b mod 16)]"
  by (simp add: hex_encode_def)

lemma hex_node_key_loop:
  "n \<le> length k \<Longrightarrow>
   foldl (\<lambda>b i. b[2 * i := hex_digits ! unat (drop_bit 4 (k ! i)),
                  2 * i + 1 := hex_digits ! unat (k ! i AND 15)])
     (replicate (2 * length k) z) [0..<n]
   = hex_encode (take n k) @ replicate (2 * (length k - n)) z"
proof (induction n)
  case 0
  then show ?case by (simp add: hex_encode_def)
next
  case (Suc n)
  then have n: "n < length k" by simp
  obtain r where r: "length k - n = Suc r" using n by (metis Suc_diff_Suc)
  have l: "length (hex_encode (take n k)) = 2 * n" using n by simp
  have c: "hex_digits ! unat (drop_bit 4 (k ! n)) = hex_char (unat (k ! n) div 16)"
    "hex_digits ! unat (k ! n AND 15) = hex_char (unat (k ! n) mod 16)"
    by (simp_all add: hex_char_def unat_high_nibble unat_low_nibble)
  show ?case
    using Suc n r l c
    by (simp add: take_Suc_conv_app_nth hex_encode_snoc list_update_append Suc_diff_Suc)
qed

lemma hex_node_key_eq [go_str]: "hex_node_key k = hex_encode k"
  unfolding hex_node_key_def using hex_node_key_loop [of "length k" k] by simp

lemma clamp_first: "\<not> bit ((b :: byte) AND 248) n" if "n < 3"
proof -
  have "n \<in> {0, 1, 2}" using that by auto
  then show ?thesis by (auto simp: bit_simps)
qed

lemma clamp_last: "\<not> bit ((b :: byte) AND 127 OR 64) 7" "bit ((b :: byte) AND 127 OR 64) 6"
  by (simp_all add: bit_simps)

text \<open>The stream backend's address of a node key is the address the packet engine uses, and
  it lies in Tailscale's ULA range; two keys share an address exactly when their first ten
  bytes agree.\<close>

theorem h3_address_agrees:
  "h3_node_address k = tc_addr_for_key k
   \<and> (key_ok k \<longrightarrow> pfx_contains tailscale_ula (h3_node_address k))
   \<and> (key_ok k \<longrightarrow> key_ok j \<longrightarrow> (h3_node_address k = h3_node_address j \<longleftrightarrow> take 10 k = take 10 j))"
proof -
  have eq: "h3_node_address k = tc_addr_for_key k" for k
    by (simp add: h3_node_address_def tc_addr_for_key_def go_copy_def numeral_eq_Suc)
  show ?thesis using tc_addr_in_ula tc_addr_eq_iff by (simp add: eq)
qed

theorem h3_address_agrees_witness:
  "key_ok (replicate 32 7)
   \<and> h3_node_address (replicate 32 7) = IP6 [0xfd, 0x7a, 0x11, 0x5c, 0xa1, 0xe0, 7, 7, 7, 7, 7, 7, 7, 7, 7, 7] []
   \<and> h3_node_address (replicate 32 7) \<noteq> h3_node_address (replicate 32 8)
   \<and> pfx_contains tailscale_ula (h3_node_address (replicate 32 7))"
proof -
  have k: "key_ok (replicate 32 7)" "key_ok (replicate 32 8)" by (simp_all add: key_ok_def)
  have v: "h3_node_address (replicate 32 7) = IP6 [0xfd, 0x7a, 0x11, 0x5c, 0xa1, 0xe0, 7, 7, 7, 7, 7, 7, 7, 7, 7, 7] []"
    by code_simp
  have "take 10 (replicate 32 (7 :: byte)) \<noteq> take 10 (replicate 32 8)" by simp
  then show ?thesis
    using h3_address_agrees [of "replicate 32 7" "replicate 32 8"] k v by blast
qed

text \<open>The connection secret survives both of its encodings, and neither decoder accepts
  anything but a 32-byte value.\<close>

theorem psk_roundtrip:
  "(psk_unmarshal_text (psk_marshal_text p) = Some p \<longleftrightarrow> key_ok p)
   \<and> (psk_unmarshal_binary (psk_marshal_binary p) = Some p \<longleftrightarrow> key_ok p)
   \<and> (\<forall>x q. psk_unmarshal_text x = Some q \<longrightarrow> key_ok q)
   \<and> (\<forall>x q. psk_unmarshal_binary x = Some q \<longrightarrow> key_ok q \<and> q = x)"
proof (intro conjI)
  show "psk_unmarshal_text (psk_marshal_text p) = Some p \<longleftrightarrow> key_ok p"
    by (simp add: psk_unmarshal_text_def psk_marshal_text_def psk_len_def key_ok_def)
  show "psk_unmarshal_binary (psk_marshal_binary p) = Some p \<longleftrightarrow> key_ok p"
    by (auto simp: psk_unmarshal_binary_def psk_marshal_binary_def psk_len_def key_ok_def go_copy_def)
  show "\<forall>x q. psk_unmarshal_text x = Some q \<longrightarrow> key_ok q"
    by (auto simp: psk_unmarshal_text_def psk_len_def key_ok_def dest!: hex_decode_length split: if_splits)
  show "\<forall>x q. psk_unmarshal_binary x = Some q \<longrightarrow> key_ok q \<and> q = x"
    by (auto simp: psk_unmarshal_binary_def psk_len_def key_ok_def go_copy_def split: if_splits)
qed

theorem psk_roundtrip_witness:
  "psk_unmarshal_text (psk_marshal_text (replicate 32 0xAB)) = Some (replicate 32 0xAB)
   \<and> psk_unmarshal_binary (replicate 31 1) = None"
proof -
  have "key_ok (replicate 32 0xAB)" "\<not> key_ok (replicate 31 1)" by (simp_all add: key_ok_def)
  then show ?thesis
    using psk_roundtrip [of "replicate 32 0xAB"] psk_roundtrip [of "replicate 31 1"]
    by (auto simp: psk_unmarshal_binary_def psk_len_def)
qed

text \<open>Generating a connection secret returns the first non-zero key that the random source
  delivers and never the zero key.\<close>

theorem new_preshared_key_first:
  "(\<forall>i < k. rng i = Some key_zero) \<Longrightarrow> rng k = Some p \<Longrightarrow> p \<noteq> key_zero \<Longrightarrow>
     new_preshared_key rng = Some (Some p)
     \<and> (\<forall>rng' q. new_preshared_key rng' = Some (Some q) \<longrightarrow> q \<noteq> key_zero)"
  using new_psk_loop_finds [of k rng 0 p] new_psk_loop_nonzero
  by (auto simp: new_preshared_key_def)

theorem new_preshared_key_first_witness:
  "new_preshared_key (\<lambda>n. Some (if n < 2 then key_zero else replicate 32 9)) = Some (Some (replicate 32 9))"
  using new_preshared_key_first [of 2 "\<lambda>n. Some (if n < 2 then key_zero else replicate 32 9)" "replicate 32 9"]
  by (simp add: key_zero_def)

text \<open>Whatever 32 bytes the HMAC returns, the derived discovery key is a canonical
  Curve25519 scalar: its three low bits and its top bit are clear and bit 254 is set.\<close>

theorem disco_private_clamped:
  "length (hmac raw (string_bytes disco_label)) = 32 \<Longrightarrow> clamped (disco_private_for_node hmac raw)"
  by (simp add: disco_private_for_node_def clamped_def Let_def clamp_first clamp_last)

theorem disco_private_clamped_witness:
  "clamped (disco_private_for_node (\<lambda>k m. map (\<lambda>b. b XOR 0xFF) k) (replicate 32 0))"
  by (rule disco_private_clamped) simp

end
