(* ===== verification/Meow.thy ===== *)
theory Meow imports Keys begin

text \<open>
  The bootstrap packets. \<open>disco.go\<close> holds the legacy unauthenticated \<open>meow\<close> packets, which an H3
  node only recognises in order to drop; \<open>h3.go\<close> holds the authenticated announcement
  (\<open>encodeH3Meow\<close>, \<open>isH3Meow\<close>, \<open>parseH3Meow\<close>). \<open>hmac key message\<close> stands for HMAC-SHA256.
  Packets are byte lists; a rejected packet is \<open>None\<close> and Go's \<open>nil\<close> packet is \<open>[]\<close>.
\<close>

section \<open>Legacy packets\<close>

definition meow_magic :: bytes where
  "meow_magic = [0x6d, 0x65, 0x6f, 0x77]"

definition meow_type_ping :: byte where "meow_type_ping = 1"
definition meow_type_pong :: byte where "meow_type_pong = 2"

definition is_meow_packet :: "bytes \<Rightarrow> bool" where
  "is_meow_packet pkt = (4 \<le> length pkt \<and> take 4 pkt = meow_magic)"

definition encode_meow_ping :: "key32 \<Rightarrow> key32 \<Rightarrow> bytes" where
  "encode_meow_ping node disco = meow_magic @ [meow_type_ping] @ node @ disco"

definition encode_meowed :: bytes where
  "encode_meowed = meow_magic @ [meow_type_pong]"

text \<open>\<open>pkt[a:b]\<close>.\<close>

definition slice :: "'a list \<Rightarrow> nat \<Rightarrow> nat \<Rightarrow> 'a list" where
  "slice xs a b = take (b - a) (drop a xs)"

definition parse_meow_ping :: "bytes \<Rightarrow> (key32 \<times> key32) option" where
  "parse_meow_ping pkt =
     (if length pkt < 4 + 1 + 32 + 32 then None
      else if pkt ! 4 \<noteq> meow_type_ping then None
      else let disco = slice pkt (5 + 32) (5 + 32 + 32)
           in if key_is_zero disco then None else Some (slice pkt 5 (5 + 32), disco))"

definition is_meowed_packet :: "bytes \<Rightarrow> bool" where
  "is_meowed_packet pkt = (5 \<le> length pkt \<and> take 4 pkt = meow_magic \<and> pkt ! 4 = meow_type_pong)"

section \<open>The authenticated announcement\<close>

definition h3_meow_size :: nat where
  "h3_meow_size = 4 + 1 + 32 + 32 + 32 + 32"

definition h3_meow_magic :: bytes where
  "h3_meow_magic = [0x6d, 0x68, 0x33, 1]"

text \<open>The label \<open>"tailcat-h3/bootstrap/v1\x00"\<close>.\<close>

definition h3_label :: bytes where
  "h3_label = string_bytes ''tailcat-h3/bootstrap/v1'' @ [0]"

definition direction :: "bool \<Rightarrow> byte" where
  "direction reply = (if reply then 2 else 1)"

definition encode_h3_meow ::
  "(bytes \<Rightarrow> bytes \<Rightarrow> bytes) \<Rightarrow> key32 \<Rightarrow> key32 \<Rightarrow> key32 \<Rightarrow> key32 \<Rightarrow> bytes \<Rightarrow> bool \<Rightarrow> bytes" where
  "encode_h3_meow hmac secret server client disco nonce reply =
     (if psk_is_zero secret \<or> key_is_zero server \<or> key_is_zero client \<or> key_is_zero disco
         \<or> nonce = zero_bytes 32
      then []
      else let p = h3_meow_magic @ [direction reply] @ client @ disco @ nonce
           in p @ hmac secret (h3_label @ server @ p))"

definition is_h3_meow :: "bytes \<Rightarrow> bool" where
  "is_h3_meow p = (length h3_meow_magic \<le> length p \<and> take 4 p = h3_meow_magic)"

definition parse_h3_meow ::
  "(bytes \<Rightarrow> bytes \<Rightarrow> bytes) \<Rightarrow> bytes \<Rightarrow> key32 \<Rightarrow> key32 \<Rightarrow> key32 \<Rightarrow> bool \<Rightarrow> (key32 \<times> bytes) option" where
  "parse_h3_meow hmac p secret server client reply =
     (if length p \<noteq> h3_meow_size \<or> \<not> is_h3_meow p \<or> psk_is_zero secret \<or> key_is_zero server
         \<or> key_is_zero client then None
      else if p ! 4 \<noteq> direction reply \<or> slice p 5 37 \<noteq> client then None
      else let disco = slice p 37 69; nonce = slice p 69 101
           in if key_is_zero disco \<or> nonce = zero_bytes 32 then None
              else let expected = encode_h3_meow hmac secret server client disco nonce reply
                   in if constant_time_compare p expected \<noteq> 1 then None else Some (disco, nonce))"

text \<open>The MAC a packet must end with: everything before it, bound to the server's identity.\<close>

definition h3_mac :: "(bytes \<Rightarrow> bytes \<Rightarrow> bytes) \<Rightarrow> key32 \<Rightarrow> key32 \<Rightarrow> bytes \<Rightarrow> bytes" where
  "h3_mac hmac secret server p = hmac secret (h3_label @ server @ take 101 p)"

lemma slice_append: "length a = n \<Longrightarrow> length b = m \<Longrightarrow> slice (a @ b @ c) n (n + m) = b"
  by (simp add: slice_def)

lemma h3_body_length:
  "length client = 32 \<Longrightarrow> length disco = 32 \<Longrightarrow> length nonce = 32 \<Longrightarrow>
   length (h3_meow_magic @ [direction reply] @ client @ disco @ nonce) = 101"
  by (simp add: h3_meow_magic_def)

lemma h3_fields:
  assumes "length client = 32" "length disco = 32" "length nonce = 32"
    "p = h3_meow_magic @ [direction reply] @ client @ disco @ nonce @ mac"
  shows "is_h3_meow p" "p ! 4 = direction reply" "slice p 5 37 = client"
    "slice p 37 69 = disco" "slice p 69 101 = nonce" "take 101 p = h3_meow_magic @ [direction reply] @ client @ disco @ nonce"
    "drop 101 p = mac" "length p = 101 + length mac"
  using assms by (simp_all add: is_h3_meow_def h3_meow_magic_def slice_def)

lemma encode_h3_meow_nonempty_iff:
  "encode_h3_meow hmac secret server client disco nonce reply \<noteq> [] \<longleftrightarrow>
   secret \<noteq> key_zero \<and> server \<noteq> key_zero \<and> client \<noteq> key_zero \<and> disco \<noteq> key_zero \<and> nonce \<noteq> key_zero"
  by (auto simp: encode_h3_meow_def key_is_zero_def key_zero_def h3_meow_magic_def Let_def)

lemma packet_split:
  assumes "length p = 133" "take 4 p = h3_meow_magic" "p ! 4 = direction reply"
  shows "p = h3_meow_magic @ [direction reply] @ slice p 5 37 @ slice p 37 69 @ slice p 69 101 @ drop 101 p"
proof -
  have "p = take 4 p @ drop 4 p" by simp
  also have "drop 4 p = p ! 4 # drop 5 p" using assms(1) Cons_nth_drop_Suc [of 4 p] by (simp add: eval_nat_numeral)
  also have "drop 5 p = take 32 (drop 5 p) @ drop 37 p"
    using append_take_drop_id [of 32 "drop 5 p"] by simp
  also have "drop 37 p = take 32 (drop 37 p) @ drop 69 p"
    using append_take_drop_id [of 32 "drop 37 p"] by simp
  also have "drop 69 p = take 32 (drop 69 p) @ drop 101 p"
    using append_take_drop_id [of 32 "drop 69 p"] by simp
  finally show ?thesis using assms by (simp add: slice_def)
qed

lemma parse_h3_meow_magic:
  "parse_h3_meow hmac p secret server client reply = Some x \<Longrightarrow> is_h3_meow p \<and> p ! 4 = direction reply"
  by (simp add: parse_h3_meow_def split: if_splits)

lemma parse_h3_meow_Some_D:
  assumes "parse_h3_meow hmac p secret server client reply = Some (disco, nonce)"
  shows "p = encode_h3_meow hmac secret server client disco nonce reply \<and> length p = 133
    \<and> key_ok client \<and> key_ok disco \<and> length nonce = 32
    \<and> secret \<noteq> key_zero \<and> server \<noteq> key_zero \<and> client \<noteq> key_zero \<and> disco \<noteq> key_zero \<and> nonce \<noteq> key_zero"
proof -
  have sz: "length p = 133"
    using assms by (auto simp: parse_h3_meow_def h3_meow_size_def h3_meow_magic_def Let_def split: if_splits)
  then have "length (slice p 5 37) = 32" "length (slice p 37 69) = 32" "length (slice p 69 101) = 32"
    by (simp_all add: slice_def)
  then show ?thesis
    using assms sz
    by (auto simp: parse_h3_meow_def Let_def constant_time_compare_eq key_is_zero_def key_zero_def key_ok_def split: if_splits)
qed

lemma parse_encode_h3_meow:
  assumes "key_ok client" "key_ok disco" "length nonce = 32"
    "length (hmac secret (h3_label @ server @ h3_meow_magic @ [direction reply] @ client @ disco @ nonce)) = 32"
    "encode_h3_meow hmac secret server client disco nonce reply \<noteq> []"
  shows "parse_h3_meow hmac (encode_h3_meow hmac secret server client disco nonce reply) secret server client reply
     = Some (disco, nonce)"
proof -
  let ?mac = "hmac secret (h3_label @ server @ h3_meow_magic @ [direction reply] @ client @ disco @ nonce)"
  let ?p = "h3_meow_magic @ [direction reply] @ client @ disco @ nonce @ ?mac"
  have nz: "secret \<noteq> key_zero" "server \<noteq> key_zero" "client \<noteq> key_zero" "disco \<noteq> key_zero" "nonce \<noteq> key_zero"
    using assms(5) by (simp_all add: encode_h3_meow_nonempty_iff)
  have e: "encode_h3_meow hmac secret server client disco nonce reply = ?p"
    using nz by (simp add: encode_h3_meow_def key_is_zero_def key_zero_def Let_def)
  have l: "length client = 32" "length disco = 32" "length nonce = 32" using assms(1-3) by (simp_all add: key_ok_def)
  note f = h3_fields [OF l refl, of reply ?mac]
  have sz: "length ?p = h3_meow_size" using assms(4) l by (simp add: h3_meow_size_def h3_meow_magic_def)
  show ?thesis
    unfolding e parse_h3_meow_def
    using nz sz f(1-5) e by (simp add: Let_def key_is_zero_def key_zero_def constant_time_compare_eq)
qed

text \<open>C11. A bootstrap announcement is accepted exactly when it is the encoding of the fields it
  carries under the receiver's secret, server identity, expected sender and direction: no other
  packet parses, and every well-formed encoding does.\<close>

theorem parse_h3_meow_iff:
  assumes "\<And>k m. length (hmac k m) = 32"
  shows "parse_h3_meow hmac p secret server client reply = Some (disco, nonce) \<longleftrightarrow>
     p = encode_h3_meow hmac secret server client disco nonce reply \<and> p \<noteq> []
     \<and> key_ok client \<and> key_ok disco \<and> length nonce = 32"
proof
  assume "parse_h3_meow hmac p secret server client reply = Some (disco, nonce)"
  then show "p = encode_h3_meow hmac secret server client disco nonce reply \<and> p \<noteq> []
     \<and> key_ok client \<and> key_ok disco \<and> length nonce = 32"
    using parse_h3_meow_Some_D [of hmac p secret server client reply disco nonce] by auto
next
  assume "p = encode_h3_meow hmac secret server client disco nonce reply \<and> p \<noteq> []
     \<and> key_ok client \<and> key_ok disco \<and> length nonce = 32"
  then show "parse_h3_meow hmac p secret server client reply = Some (disco, nonce)"
    using assms parse_encode_h3_meow [of client disco nonce hmac secret server reply] by auto
qed

definition toy_hmac :: "bytes \<Rightarrow> bytes \<Rightarrow> bytes" where
  "toy_hmac k m = replicate 32 (foldl (+) 0 k + foldl (\<lambda>a b. 3 * a + b) 1 m)"

lemma toy_hmac_length [simp]: "length (toy_hmac k m) = 32"
  by (simp add: toy_hmac_def)

theorem parse_h3_meow_iff_witness:
  "parse_h3_meow toy_hmac
     (encode_h3_meow toy_hmac (replicate 32 1) (replicate 32 2) (replicate 32 3) (replicate 32 4) (replicate 32 5) False)
     (replicate 32 1) (replicate 32 2) (replicate 32 3) False = Some (replicate 32 4, replicate 32 5)"
proof -
  have "encode_h3_meow toy_hmac (replicate 32 1) (replicate 32 2) (replicate 32 3) (replicate 32 4) (replicate 32 5) False \<noteq> []"
    by (simp add: encode_h3_meow_nonempty_iff key_zero_def)
  then show ?thesis
    using parse_h3_meow_iff [where hmac = toy_hmac] by (simp add: key_ok_def)
qed

text \<open>Acceptance is authentication: an accepted packet ends with the MAC, under the shared
  secret, of the label, the server's identity and every byte before it, so a packet with any
  other trailer, the other direction or another sender is refused.\<close>

theorem parse_h3_meow_authentic:
  "parse_h3_meow hmac p secret server client reply = Some (disco, nonce) \<Longrightarrow>
     drop 101 p = h3_mac hmac secret server p
     \<and> slice p 5 37 = client \<and> slice p 37 69 = disco \<and> slice p 69 101 = nonce
     \<and> parse_h3_meow hmac p secret server client (\<not> reply) = None
     \<and> (client' \<noteq> client \<longrightarrow> parse_h3_meow hmac p secret server client' reply = None)
     \<and> \<not> is_meow_packet p"
proof -
  assume a: "parse_h3_meow hmac p secret server client reply = Some (disco, nonce)"
  let ?body = "h3_meow_magic @ [direction reply] @ client @ disco @ nonce"
  have d: "p = encode_h3_meow hmac secret server client disco nonce reply" "key_ok client" "key_ok disco"
    "length nonce = 32" "secret \<noteq> key_zero" "server \<noteq> key_zero" "client \<noteq> key_zero" "disco \<noteq> key_zero" "nonce \<noteq> key_zero"
    using parse_h3_meow_Some_D [OF a] by auto
  then have p: "p = h3_meow_magic @ [direction reply] @ client @ disco @ nonce @ hmac secret (h3_label @ server @ ?body)"
    by (simp add: encode_h3_meow_def key_is_zero_def key_zero_def Let_def)
  have l: "length client = 32" "length disco = 32" "length nonce = 32" using d by (simp_all add: key_ok_def)
  note f = h3_fields [OF l p]
  have dir: "direction reply \<noteq> direction (\<not> reply)" by (simp add: direction_def)
  have "\<not> is_meow_packet p"
    by (subst p) (simp add: is_meow_packet_def meow_magic_def h3_meow_magic_def)
  moreover have "parse_h3_meow hmac p secret server client (\<not> reply) = None"
    using f(2) dir by (simp add: parse_h3_meow_def)
  moreover have "client' \<noteq> client \<longrightarrow> parse_h3_meow hmac p secret server client' reply = None"
    using f(3) by (auto simp: parse_h3_meow_def)
  moreover have "drop 101 p = h3_mac hmac secret server p"
    using f(6,7) by (simp add: h3_mac_def)
  ultimately show ?thesis using f(3-5) by blast
qed

theorem parse_h3_meow_authentic_witness:
  "parse_h3_meow toy_hmac
     (encode_h3_meow toy_hmac (replicate 32 1) (replicate 32 2) (replicate 32 3) (replicate 32 4) (replicate 32 5) False)
     (replicate 32 1) (replicate 32 2) (replicate 32 3) True = None"
proof -
  have "parse_h3_meow toy_hmac
     (encode_h3_meow toy_hmac (replicate 32 1) (replicate 32 2) (replicate 32 3) (replicate 32 4) (replicate 32 5) False)
     (replicate 32 1) (replicate 32 2) (replicate 32 3) False = Some (replicate 32 4, replicate 32 5)"
    by (rule parse_encode_h3_meow) (simp_all add: key_ok_def encode_h3_meow_nonempty_iff key_zero_def)
  from parse_h3_meow_authentic [OF this] show ?thesis by simp
qed

text \<open>A legacy ping carries its two keys through encoding and parsing, except that a zero
  discovery key is refused, and no legacy packet is an authenticated announcement.\<close>

theorem meow_ping_roundtrip:
  "key_ok node \<Longrightarrow> key_ok disco \<Longrightarrow>
     parse_meow_ping (encode_meow_ping node disco) = (if disco = key_zero then None else Some (node, disco))
     \<and> is_meow_packet (encode_meow_ping node disco) \<and> \<not> is_meowed_packet (encode_meow_ping node disco)
     \<and> is_meowed_packet encode_meowed
     \<and> (is_meow_packet p \<longrightarrow> \<not> is_h3_meow p)"
  by (auto simp: parse_meow_ping_def encode_meow_ping_def is_meow_packet_def is_meowed_packet_def
      encode_meowed_def meow_magic_def h3_meow_magic_def is_h3_meow_def meow_type_ping_def meow_type_pong_def
      key_ok_def slice_def Let_def key_is_zero_def nth_append)

theorem meow_ping_roundtrip_witness:
  "parse_meow_ping (encode_meow_ping (replicate 32 1) (replicate 32 2)) = Some (replicate 32 1, replicate 32 2)"
  using meow_ping_roundtrip [of "replicate 32 1" "replicate 32 2"] by (simp add: key_ok_def key_zero_def)

end
