(* ===== verification/Wire.thy ===== *)
theory Wire
  imports Keys
begin

text \<open>
  The connection code: \<open>wire.go\<close> and the parts of \<open>tailcat.go\<close> that encode a
  \<open>ConnInfo\<close> into an address and decode it again (\<open>ConnInfo.Addr\<close>, \<open>parseWire\<close>,
  \<open>ParseAddr\<close>). The records of \<open>tailcfg\<close> hold the fields this repository reads or
  writes; a pointer that can be nil after decoding is an option. The CBOR codec is a pair of
  parameters; the base64 alphabet of \<open>base64.RawURLEncoding\<close> is modelled in full.
\<close>

section \<open>base64.RawURLEncoding\<close>

definition b64_digits :: string where
  "b64_digits = ''ABCDEFGHIJKLMNOPQRSTUVWXYZabcdefghijklmnopqrstuvwxyz0123456789-_''"

definition b64_char :: "nat \<Rightarrow> char" where
  "b64_char d = b64_digits ! d"

fun index_of :: "char \<Rightarrow> string \<Rightarrow> nat option" where
  "index_of c [] = None"
| "index_of c (x # xs) = (if c = x then Some 0 else map_option Suc (index_of c xs))"

definition b64_val :: "char \<Rightarrow> nat option" where
  "b64_val c = index_of c b64_digits"

fun b64_encode :: "bytes \<Rightarrow> string" where
  "b64_encode [] = []"
| "b64_encode [a] = [b64_char (unat a div 4), b64_char (unat a mod 4 * 16)]"
| "b64_encode [a, b] =
     [b64_char (unat a div 4), b64_char (unat a mod 4 * 16 + unat b div 16), b64_char (unat b mod 16 * 4)]"
| "b64_encode (a # b # c # bs) =
     [b64_char (unat a div 4), b64_char (unat a mod 4 * 16 + unat b div 16),
      b64_char (unat b mod 16 * 4 + unat c div 64), b64_char (unat c mod 64)] @ b64_encode bs"

fun b64_groups :: "nat list \<Rightarrow> bytes option" where
  "b64_groups [] = Some []"
| "b64_groups [p] = None"
| "b64_groups [p, q] = Some [of_nat (p * 4 + q div 16)]"
| "b64_groups [p, q, r] = Some [of_nat (p * 4 + q div 16), of_nat (q mod 16 * 16 + r div 4)]"
| "b64_groups (p # q # r # s # ds) =
     map_option (\<lambda>bs. [of_nat (p * 4 + q div 16), of_nat (q mod 16 * 16 + r div 4), of_nat (r mod 4 * 64 + s)] @ bs)
       (b64_groups ds)"

text \<open>The decoder skips line ends, as the Go decoder does, and refuses every other character.\<close>

definition b64_decode :: "string \<Rightarrow> bytes option" where
  "b64_decode s =
     (let t = filter (\<lambda>c. c \<noteq> CHR 0x0A \<and> c \<noteq> CHR 0x0D) s;
          vs = map b64_val t
      in if None \<in> set vs then None else b64_groups (map the vs))"

lemma b64_char_all: "\<forall>d \<in> {..<64}. b64_val (b64_char d) = Some d \<and> b64_char d \<noteq> CHR 0x0A \<and> b64_char d \<noteq> CHR 0x0D"
  by code_simp

lemma b64_val_char [simp]: "d < 64 \<Longrightarrow> b64_val (b64_char d) = Some d"
  and b64_char_lf [simp]: "d < 64 \<Longrightarrow> b64_char d \<noteq> CHR 0x0A"
  and b64_char_cr [simp]: "d < 64 \<Longrightarrow> b64_char d \<noteq> CHR 0x0D"
  using b64_char_all by auto

lemma unat_byte_lt [simp]: "unat (b :: byte) < 256"
  using unsigned_less [of b, where ?'a = nat] by simp

lemma byte_split [simp]: "unat (b :: byte) div 4 < 64" "unat b mod 4 * 16 < 64" "unat b mod 16 * 4 < 64"
  "unat b mod 4 * 16 + unat (c :: byte) div 16 < 64" "unat b mod 16 * 4 + unat c div 64 < 64"
  using unat_byte_lt [of b] unat_byte_lt [of c] by linarith+

lemma unat_div_small: "unat (b :: byte) div 16 < 16" "unat b div 64 < 4"
  using unat_byte_lt [of b] by linarith+

lemma mod_mult_add_less: "n < m \<Longrightarrow> (x * m + n) mod m = (n :: nat)"
  by (metis mod_less mod_mult_self3)

lemma b64_high: "of_nat (unat a div 4 * 4 + (unat a mod 4 * 16 + n) div 16) = (a :: byte)" if "n < 16"
proof -
  have "(unat a mod 4 * 16 + n) div 16 = unat a mod 4" using that by simp
  then have "unat a div 4 * 4 + (unat a mod 4 * 16 + n) div 16 = unat a" by simp
  then show ?thesis by simp
qed

lemma b64_mid: "of_nat ((x * 16 + unat b div 16) mod 16 * 16 + (unat b mod 16 * 4 + n) div 4) = (b :: byte)" if "n < 4"
proof -
  have "(unat b mod 16 * 4 + n) div 4 = unat b mod 16" using that by simp
  moreover have "(x * 16 + unat b div 16) mod 16 = unat b div 16" by (rule mod_mult_add_less [OF unat_div_small(1)])
  ultimately have "(x * 16 + unat b div 16) mod 16 * 16 + (unat b mod 16 * 4 + n) div 4 = unat b" by simp
  then show ?thesis by simp
qed

lemma b64_low: "of_nat ((x * 4 + unat c div 64) mod 4 * 64 + unat c mod 64) = (c :: byte)"
proof -
  have "(x * 4 + unat c div 64) mod 4 = unat c div 64" by (rule mod_mult_add_less [OF unat_div_small(2)])
  then have "(x * 4 + unat c div 64) mod 4 * 64 + unat c mod 64 = unat c" by simp
  then show ?thesis by simp
qed

lemma b64_low_one: "of_nat (unat a div 4 * 4 + unat a mod 4 * 16 div 16) = (a :: byte)"
  using b64_high [of 0 a] by simp

lemma b64_decode_encode [simp]: "b64_decode (b64_encode bs) = Some bs"
proof (induction bs rule: b64_encode.induct)
  case (2 a)
  then show ?case using b64_low_one [of a] by (simp add: b64_decode_def)
next
  case (3 a b)
  then show ?case
    using b64_high [OF unat_div_small(1), of a b] b64_mid [of 0 "unat a mod 4" b] by (simp add: b64_decode_def)
next
  case (4 a b c bs)
  have cl: "unat c mod 64 < 64" by simp
  show ?case
    using 4 cl b64_high [OF unat_div_small(1), of a b]
      b64_mid [OF unat_div_small(2), of "unat a mod 4" b c] b64_low [of "unat b mod 16" c]
    by (simp add: b64_decode_def Let_def split: if_splits)
qed (simp add: b64_decode_def)

section \<open>The records\<close>

text \<open>\<open>tailcfg.DERPNode\<close> and \<open>tailcfg.DERPRegion\<close>; a float64 is its IEEE bit pattern.\<close>

record derp_node =
  dn_name :: string
  dn_region_id :: int
  dn_host :: string
  dn_cert :: string
  dn_ipv4 :: string
  dn_ipv6 :: string
  dn_stun_port :: int
  dn_derp_port :: int
  dn_insecure :: bool
  dn_stun_only :: bool
  dn_can_port80 :: bool

record derp_region =
  dr_id :: int
  dr_code :: string
  dr_name :: string
  dr_latitude :: u64
  dr_longitude :: u64
  dr_nodes :: "derp_node list"

record conn_info =
  ci_server_public :: key32
  ci_disco :: key32
  ci_psk :: key32
  ci_region :: "derp_region list"
  ci_region_id :: int

record wire_node =
  wn_name :: string
  wn_region_id :: int
  wn_host :: string
  wn_cert :: string
  wn_ipv4 :: string
  wn_ipv6 :: string
  wn_stun_port :: int
  wn_derp_port :: int
  wn_insecure :: bool

record wire_region =
  wr_id :: int
  wr_code :: string
  wr_name :: string
  wr_nodes :: "wire_node option list"

record wire_conn_info =
  w_version :: int
  w_server_public :: key32
  w_disco :: "key32 option"
  w_psk :: "key32 option"
  w_region :: "wire_region option list"
  w_region_id :: int

definition zero_conn_info :: conn_info where
  "zero_conn_info =
     \<lparr>ci_server_public = key_zero, ci_disco = key_zero, ci_psk = key_zero, ci_region = [], ci_region_id = 0\<rparr>"

section \<open>Conversions\<close>

definition wire_node_of :: "derp_node \<Rightarrow> wire_node" where
  "wire_node_of n =
     \<lparr>wn_name = dn_name n, wn_region_id = dn_region_id n, wn_host = dn_host n, wn_cert = dn_cert n,
      wn_ipv4 = dn_ipv4 n, wn_ipv6 = dn_ipv6 n, wn_stun_port = dn_stun_port n,
      wn_derp_port = dn_derp_port n, wn_insecure = dn_insecure n\<rparr>"

definition wire_region_of :: "derp_region \<Rightarrow> wire_region" where
  "wire_region_of r =
     \<lparr>wr_id = dr_id r, wr_code = dr_code r, wr_name = dr_name r,
      wr_nodes = map (Some \<circ> wire_node_of) (filter (\<lambda>n. \<not> dn_stun_only n) (dr_nodes r))\<rparr>"

definition derp_node_of :: "wire_node \<Rightarrow> derp_node" where
  "derp_node_of n =
     \<lparr>dn_name = wn_name n, dn_region_id = wn_region_id n, dn_host = wn_host n, dn_cert = wn_cert n,
      dn_ipv4 = wn_ipv4 n, dn_ipv6 = wn_ipv6 n, dn_stun_port = wn_stun_port n,
      dn_derp_port = wn_derp_port n, dn_insecure = wn_insecure n, dn_stun_only = False, dn_can_port80 = False\<rparr>"

text \<open>\<open>wireRegion.derpRegion\<close>, called only after the nil nodes have been refused: a nil node
  would panic, which is the value None.\<close>

definition derp_region_of :: "wire_region \<Rightarrow> derp_region option" where
  "derp_region_of w =
     (if None \<in> set (wr_nodes w) then None
      else Some \<lparr>dr_id = wr_id w, dr_code = wr_code w, dr_name = wr_name w, dr_latitude = 0, dr_longitude = 0,
                 dr_nodes = map (derp_node_of \<circ> the) (wr_nodes w)\<rparr>)"

section \<open>Encoding an address\<close>

definition h3_address_prefix :: string where "h3_address_prefix = ''tch3''"

definition h3_address_version :: int where "h3_address_version = 1"

definition elide_node :: "wire_node \<Rightarrow> wire_node" where
  "elide_node n = (let n = n\<lparr>wn_region_id := 0\<rparr> in if wn_host n \<noteq> [] then n\<lparr>wn_name := []\<rparr> else n)"

definition elide_region :: "wire_region \<Rightarrow> wire_region" where
  "elide_region w =
     w\<lparr>wr_id := 0, wr_code := [], wr_name := [], wr_nodes := map (map_option elide_node) (wr_nodes w)\<rparr>"

definition wire_of :: "conn_info \<Rightarrow> wire_conn_info" where
  "wire_of ci =
     \<lparr>w_version = h3_address_version, w_server_public = ci_server_public ci,
      w_disco = (if key_is_zero (ci_disco ci) then None else Some (ci_disco ci)),
      w_psk = (if psk_is_zero (ci_psk ci) then None else Some (ci_psk ci)),
      w_region = map (\<lambda>r. Some (elide_region (wire_region_of r))) (ci_region ci),
      w_region_id = ci_region_id ci\<rparr>"

text \<open>\<open>ConnInfo.Addr\<close>; the panic on a CBOR error is None.\<close>

definition conn_addr :: "(wire_conn_info \<Rightarrow> bytes option) \<Rightarrow> conn_info \<Rightarrow> string option" where
  "conn_addr marshal ci =
     (case marshal (wire_of ci) of None \<Rightarrow> None | Some x \<Rightarrow> Some (h3_address_prefix @ b64_encode x))"

section \<open>Decoding an address\<close>

datatype addr_error = AddrTooLong | AddrNotH3 | AddrBase64 | AddrCbor | AddrVersion int | AddrKeys | AddrSecret
  | AddrNilRegion nat | AddrNilNode nat nat

definition parse_wire :: "(bytes \<Rightarrow> wire_conn_info option) \<Rightarrow> string \<Rightarrow> addr_error + wire_conn_info" where
  "parse_wire unmarshal addr =
     (if length addr > 64 * 1024 then Inl AddrTooLong else
      case cut_prefix addr h3_address_prefix of
        None \<Rightarrow> Inl AddrNotH3
      | Some rest \<Rightarrow>
          (case b64_decode rest of
             None \<Rightarrow> Inl AddrBase64
           | Some x \<Rightarrow>
               (case unmarshal x of
                  None \<Rightarrow> Inl AddrCbor
                | Some w \<Rightarrow>
                    if w_version w \<noteq> h3_address_version then Inl (AddrVersion (w_version w))
                    else if key_is_zero (w_server_public w) \<or> w_disco w = None \<or> key_is_zero (the (w_disco w))
                    then Inl AddrKeys
                    else if w_psk w = None \<or> psk_is_zero (the (w_psk w)) then Inl AddrSecret
                    else Inr w)))"

fun first_nil :: "nat \<Rightarrow> 'a option list \<Rightarrow> nat option" where
  "first_nil j [] = None"
| "first_nil j (None # ns) = Some j"
| "first_nil j (Some n # ns) = first_nil (Suc j) ns"

fun regions_of_wire :: "nat \<Rightarrow> wire_region option list \<Rightarrow> addr_error + derp_region list" where
  "regions_of_wire i [] = Inr []"
| "regions_of_wire i (None # ws) = Inl (AddrNilRegion i)"
| "regions_of_wire i (Some wr # ws) =
     (case first_nil 0 (wr_nodes wr) of
        Some j \<Rightarrow> Inl (AddrNilNode i j)
      | None \<Rightarrow>
          (case regions_of_wire (Suc i) ws of
             Inl e \<Rightarrow> Inl e
           | Inr rs \<Rightarrow> Inr (the (derp_region_of wr) # rs)))"

text \<open>\<open>fmt.Sprint\<close> of an integer.\<close>

definition sprint_int :: "int \<Rightarrow> string" where
  "sprint_int i = (if i < 0 then CHR ''-'' # itoa (nat (- i)) else itoa (nat i))"

definition restore_node :: "int \<Rightarrow> derp_node \<Rightarrow> derp_node" where
  "restore_node rid n =
     (let n = (if dn_name n = [] then n\<lparr>dn_name := dn_host n\<rparr> else n)
      in if dn_region_id n = 0 then n\<lparr>dn_region_id := rid\<rparr> else n)"

definition restore_region :: "nat \<Rightarrow> derp_region \<Rightarrow> derp_region" where
  "restore_region ri r =
     (let r = (if dr_id r = 0 then r\<lparr>dr_id := int ri + 1\<rparr> else r);
          r = (if dr_code r = [] then r\<lparr>dr_code := sprint_int (dr_id r)\<rparr> else r)
      in r\<lparr>dr_nodes := map (restore_node (dr_id r)) (dr_nodes r)\<rparr>)"

definition restore_regions :: "derp_region list \<Rightarrow> derp_region list" where
  "restore_regions rs = map (\<lambda>(i, r). restore_region i r) (enumerate 0 rs)"

definition parse_conn_addr :: "(bytes \<Rightarrow> wire_conn_info option) \<Rightarrow> string \<Rightarrow> addr_error + conn_info" where
  "parse_conn_addr unmarshal addr =
     (case parse_wire unmarshal addr of
        Inl e \<Rightarrow> Inl e
      | Inr w \<Rightarrow>
          (case regions_of_wire 0 (w_region w) of
             Inl e \<Rightarrow> Inl e
           | Inr rs \<Rightarrow>
               Inr \<lparr>ci_server_public = w_server_public w,
                    ci_disco = (case w_disco w of Some d \<Rightarrow> d | None \<Rightarrow> key_zero),
                    ci_psk = (case w_psk w of Some p \<Rightarrow> p | None \<Rightarrow> key_zero),
                    ci_region = restore_regions rs,
                    ci_region_id = w_region_id w\<rparr>))"

section \<open>What an address carries\<close>

text \<open>What is left of a region after an address has carried it: the relay nodes with the fields
  the wire form keeps, and positional identifiers.\<close>

definition carried_node :: "nat \<Rightarrow> derp_node \<Rightarrow> derp_node" where
  "carried_node i n =
     n\<lparr>dn_name := (if dn_host n \<noteq> [] then dn_host n else dn_name n), dn_region_id := int i + 1,
       dn_stun_only := False, dn_can_port80 := False\<rparr>"

definition carried_region :: "nat \<Rightarrow> derp_region \<Rightarrow> derp_region" where
  "carried_region i r =
     \<lparr>dr_id = int i + 1, dr_code = itoa (Suc i), dr_name = [], dr_latitude = 0, dr_longitude = 0,
      dr_nodes = map (carried_node i) (filter (\<lambda>n. \<not> dn_stun_only n) (dr_nodes r))\<rparr>"

definition carried :: "conn_info \<Rightarrow> conn_info" where
  "carried ci = ci\<lparr>ci_region := map (\<lambda>(i, r). carried_region i r) (enumerate 0 (ci_region ci))\<rparr>"

definition addressable :: "conn_info \<Rightarrow> bool" where
  "addressable ci =
     (ci_server_public ci \<noteq> key_zero \<and> ci_disco ci \<noteq> key_zero \<and> ci_psk ci \<noteq> key_zero)"

lemma first_nil_None_iff: "first_nil j ns = None \<longleftrightarrow> None \<notin> set ns"
  by (induction j ns rule: first_nil.induct) auto

lemma wire_node_derp [simp]: "wire_node_of (derp_node_of n) = n"
  by (simp add: wire_node_of_def derp_node_of_def)

lemma sprint_int_pos: "sprint_int (int i + 1) = itoa (Suc i)"
proof -
  have "nat (int i + 1) = Suc i" by linarith
  then show ?thesis by (simp add: sprint_int_def)
qed

lemma itoa_nonempty [simp]: "itoa n \<noteq> []"
  by (subst itoa.simps) simp

lemma sprint_int_nonempty [simp]: "sprint_int i \<noteq> []"
  by (simp add: sprint_int_def)

lemma restore_regions_map:
  "restore_regions (map f rs) = map (\<lambda>(i, r). restore_region i (f r)) (enumerate 0 rs)"
  by (rule nth_equalityI) (simp_all add: restore_regions_def nth_enumerate_eq)

lemma restore_node_elided:
  "restore_node (int i + 1) (derp_node_of (elide_node (wire_node_of n))) = carried_node i n"
  by (simp add: restore_node_def derp_node_of_def elide_node_def wire_node_of_def carried_node_def Let_def)

lemma derp_region_of_elided:
  "derp_region_of (elide_region (wire_region_of r)) =
     Some \<lparr>dr_id = 0, dr_code = [], dr_name = [], dr_latitude = 0, dr_longitude = 0,
           dr_nodes = map (derp_node_of \<circ> elide_node \<circ> wire_node_of) (filter (\<lambda>n. \<not> dn_stun_only n) (dr_nodes r))\<rparr>"
  by (auto simp: derp_region_of_def elide_region_def wire_region_of_def)

lemma restore_region_elided:
  "restore_region i (the (derp_region_of (elide_region (wire_region_of r)))) = carried_region i r"
  by (simp add: restore_region_def derp_region_of_elided carried_region_def sprint_int_pos restore_node_elided comp_def)

lemma regions_of_wire_elided:
  "regions_of_wire i (map (\<lambda>r. Some (elide_region (wire_region_of r))) rs) =
     Inr (map (\<lambda>r. the (derp_region_of (elide_region (wire_region_of r)))) rs)"
proof (induction rs arbitrary: i)
  case (Cons r rs)
  have "first_nil 0 (wr_nodes (elide_region (wire_region_of r))) = None"
    by (auto simp: first_nil_None_iff elide_region_def wire_region_of_def)
  then show ?case using Cons by simp
qed simp

lemma parse_wire_Inr_D:
  assumes "parse_wire unmarshal addr = Inr w"
  shows "length addr \<le> 65536 \<and> (\<exists>rest x. addr = h3_address_prefix @ rest \<and> b64_decode rest = Some x \<and> unmarshal x = Some w)
    \<and> w_version w = h3_address_version \<and> w_server_public w \<noteq> key_zero
    \<and> (\<exists>d. w_disco w = Some d \<and> d \<noteq> key_zero) \<and> (\<exists>p. w_psk w = Some p \<and> \<not> psk_is_zero p)"
  using assms by (auto simp: parse_wire_def cut_prefix_Some_iff key_is_zero_def split: if_splits option.splits)

lemma regions_of_wire_Inr_D:
  "regions_of_wire i ws = Inr rs \<Longrightarrow>
     length rs = length ws \<and> (\<forall>k < length ws. \<exists>wr. ws ! k = Some wr \<and> None \<notin> set (wr_nodes wr) \<and> derp_region_of wr = Some (rs ! k))"
proof (induction i ws arbitrary: rs rule: regions_of_wire.induct)
  case (3 i wr ws)
  then obtain rs' where r: "first_nil 0 (wr_nodes wr) = None" "regions_of_wire (Suc i) ws = Inr rs'"
    "rs = the (derp_region_of wr) # rs'"
    by (auto split: option.splits sum.splits)
  then have n: "None \<notin> set (wr_nodes wr)" by (simp add: first_nil_None_iff)
  then have d: "derp_region_of wr = Some (the (derp_region_of wr))" by (simp add: derp_region_of_def)
  show ?case using 3(1) [OF r(1,2)] r n d by (auto simp: nth_Cons split: nat.splits)
qed auto

lemma parse_wire_encode:
  assumes "addressable ci" "marshal (wire_of ci) = Some x" "unmarshal x = Some (wire_of ci)"
    "conn_addr marshal ci = Some addr" "length addr \<le> 65536"
  shows "parse_wire unmarshal addr = Inr (wire_of ci)"
  using assms psk_is_zero_iff [of "ci_psk ci"]
  by (auto simp: parse_wire_def conn_addr_def addressable_def wire_of_def key_is_zero_def)

lemma parse_conn_addr_wire_of:
  assumes "addressable ci" "parse_wire unmarshal addr = Inr (wire_of ci)"
  shows "parse_conn_addr unmarshal addr = Inr (carried ci)"
proof -
  have r: "regions_of_wire 0 (w_region (wire_of ci)) =
      Inr (map (\<lambda>r. the (derp_region_of (elide_region (wire_region_of r)))) (ci_region ci))"
    using regions_of_wire_elided [of 0 "ci_region ci"] by (simp add: wire_of_def)
  show ?thesis
    using assms r
    by (auto simp: parse_conn_addr_def restore_regions_map restore_region_elided carried_def wire_of_def
        addressable_def key_is_zero_def)
qed

text \<open>C12. An address carries a connection's keys, secret and region id exactly, and of each DERP
  region precisely the relay nodes with the fields of the wire form, under positional region
  ids and codes: parsing the address that \<open>Addr\<close> prints yields \<open>carried ci\<close>, whatever the
  region held.\<close>

theorem parse_addr_conn_addr:
  assumes "addressable ci" "conn_addr marshal ci = Some addr" "length addr \<le> 65536"
    "\<And>x. marshal (wire_of ci) = Some x \<Longrightarrow> unmarshal x = Some (wire_of ci)"
  shows "parse_conn_addr unmarshal addr = Inr (carried ci)"
proof -
  obtain x where x: "marshal (wire_of ci) = Some x" using assms(2) by (auto simp: conn_addr_def split: option.splits)
  have "parse_wire unmarshal addr = Inr (wire_of ci)"
    by (rule parse_wire_encode) (use assms x in auto)
  then show ?thesis by (rule parse_conn_addr_wire_of [OF assms(1)])
qed

definition sample_node :: derp_node where
  "sample_node =
     \<lparr>dn_name = ''9a'', dn_region_id = 9, dn_host = ''derp9.example'', dn_cert = [], dn_ipv4 = ''192.0.2.1'',
      dn_ipv6 = [], dn_stun_port = 0, dn_derp_port = 443, dn_insecure = False, dn_stun_only = False,
      dn_can_port80 = True\<rparr>"

definition sample_info :: conn_info where
  "sample_info =
     \<lparr>ci_server_public = replicate 32 1, ci_disco = replicate 32 2, ci_psk = replicate 32 3,
      ci_region = [\<lparr>dr_id = 9, dr_code = ''fra'', dr_name = ''Frankfurt'', dr_latitude = 5, dr_longitude = 6,
        dr_nodes = [sample_node, sample_node\<lparr>dn_stun_only := True\<rparr>]\<rparr>], ci_region_id = 0\<rparr>"

lemma sample_addressable: "addressable sample_info"
  by (simp add: addressable_def sample_info_def key_zero_def)

theorem parse_addr_conn_addr_witness:
  "\<exists>addr. conn_addr (\<lambda>w. Some [1, 2, 3]) sample_info = Some addr
     \<and> parse_conn_addr (\<lambda>x. if x = [1, 2, 3] then Some (wire_of sample_info) else None) addr = Inr (carried sample_info)
     \<and> ci_region (carried sample_info) =
         [\<lparr>dr_id = 1, dr_code = ''1'', dr_name = [], dr_latitude = 0, dr_longitude = 0,
           dr_nodes = [sample_node\<lparr>dn_name := ''derp9.example'', dn_region_id := 1, dn_can_port80 := False\<rparr>]\<rparr>]"
proof -
  let ?a = "h3_address_prefix @ b64_encode [1, 2, 3]"
  have a: "conn_addr (\<lambda>w. Some [1, 2, 3]) sample_info = Some ?a" by (simp add: conn_addr_def)
  have "length ?a \<le> 65536" by (simp add: h3_address_prefix_def)
  then have "parse_conn_addr (\<lambda>x. if x = [1, 2, 3] then Some (wire_of sample_info) else None) ?a = Inr (carried sample_info)"
    using parse_addr_conn_addr [OF sample_addressable a] by simp
  moreover have "ci_region (carried sample_info) =
         [\<lparr>dr_id = 1, dr_code = ''1'', dr_name = [], dr_latitude = 0, dr_longitude = 0,
           dr_nodes = [sample_node\<lparr>dn_name := ''derp9.example'', dn_region_id := 1, dn_can_port80 := False\<rparr>]\<rparr>]"
    by code_simp
  ultimately show ?thesis using a by blast
qed

text \<open>An address is a normal form: printing the connection that an address was parsed into
  gives the same address again, so a parse and print cycle never drifts.\<close>

theorem conn_addr_stable:
  "conn_addr marshal (carried ci) = conn_addr marshal ci \<and> carried (carried ci) = carried ci
   \<and> (addressable (carried ci) \<longleftrightarrow> addressable ci)"
proof -
  have node: "elide_node (wire_node_of (carried_node i n)) = elide_node (wire_node_of n)" for i n
    by (simp add: elide_node_def wire_node_of_def carried_node_def Let_def)
  have stun: "filter (\<lambda>n. \<not> dn_stun_only n) (map (carried_node i) ns) = map (carried_node i) ns" for i ns
    by (induction ns) (simp_all add: carried_node_def)
  have region: "elide_region (wire_region_of (carried_region i r)) = elide_region (wire_region_of r)" for i r
    by (simp add: elide_region_def wire_region_of_def carried_region_def stun node)
  have node': "carried_node i (carried_node i n) = carried_node i n" for i n
    by (simp add: carried_node_def)
  have region': "carried_region i (carried_region i r) = carried_region i r" for i r
    by (simp add: carried_region_def stun node')
  have "wire_of (carried ci) = wire_of ci"
    by (auto simp: wire_of_def carried_def region nth_enumerate_eq intro!: nth_equalityI)
  moreover have "carried (carried ci) = carried ci"
    by (auto simp: carried_def region' nth_enumerate_eq intro!: conn_info.equality nth_equalityI)
  ultimately show ?thesis by (simp add: conn_addr_def addressable_def carried_def)
qed

lemma parse_conn_addr_keys: "parse_conn_addr unmarshal addr = Inr ci \<Longrightarrow> addressable ci"
  by (auto simp: parse_conn_addr_def addressable_def dest!: parse_wire_Inr_D split: sum.splits)

text \<open>C13. Whatever an untrusted string decodes to, a connection that the parser returns came from
  a bounded, prefixed code of the supported version, has non-zero keys and secret, and has no
  null region or node: every region and node has a non-zero region id, every region a code, and
  no entry of the decoded region list was dropped.\<close>

theorem parse_conn_addr_sound:
  assumes "parse_conn_addr unmarshal addr = Inr ci"
  shows "length addr \<le> 65536 \<and> (\<exists>rest. addr = h3_address_prefix @ rest) \<and> addressable ci
    \<and> (\<exists>w. parse_wire unmarshal addr = Inr w \<and> length (w_region w) = length (ci_region ci) \<and> None \<notin> set (w_region w)
          \<and> (\<forall>wr. Some wr \<in> set (w_region w) \<longrightarrow> None \<notin> set (wr_nodes wr)))
    \<and> (\<forall>r \<in> set (ci_region ci). dr_id r \<noteq> 0 \<and> dr_code r \<noteq> [] \<and> (\<forall>n \<in> set (dr_nodes r). dn_region_id n \<noteq> 0))"
proof -
  obtain w rs where w: "parse_wire unmarshal addr = Inr w" and rs: "regions_of_wire 0 (w_region w) = Inr rs"
    and ci: "ci_region ci = restore_regions rs" "ci_server_public ci = w_server_public w"
      "w_disco w = Some d \<Longrightarrow> ci_disco ci = d" "w_psk w = Some p \<Longrightarrow> ci_psk ci = p" for d p
    using assms by (auto simp: parse_conn_addr_def split: sum.splits)
  note d = parse_wire_Inr_D [OF w] and r = regions_of_wire_Inr_D [OF rs]
  have len: "length (ci_region ci) = length (w_region w)" using r by (simp add: ci restore_regions_def)
  have nil: "None \<notin> set (w_region w)" "Some wr \<in> set (w_region w) \<Longrightarrow> None \<notin> set (wr_nodes wr)" for wr
    using r by (auto simp: in_set_conv_nth)
  have "dr_id x \<noteq> 0 \<and> dr_code x \<noteq> [] \<and> (\<forall>n \<in> set (dr_nodes x). dn_region_id n \<noteq> 0)"
    if "x = restore_region i y" for x i y
    using that by (auto simp: restore_region_def restore_node_def Let_def split: if_splits)
  then have "\<forall>r \<in> set (ci_region ci). dr_id r \<noteq> 0 \<and> dr_code r \<noteq> [] \<and> (\<forall>n \<in> set (dr_nodes r). dn_region_id n \<noteq> 0)"
    unfolding ci restore_regions_def by auto
  moreover have "addressable ci" using d ci by (auto simp: addressable_def)
  ultimately show ?thesis using d w len nil by auto
qed

theorem parse_conn_addr_sound_witness:
  "parse_conn_addr (\<lambda>x. Some (wire_of sample_info)) (h3_address_prefix @ b64_encode [1, 2, 3]) = Inr (carried sample_info)
   \<and> addressable (carried sample_info)"
proof -
  have "parse_wire (\<lambda>x. Some (wire_of sample_info)) (h3_address_prefix @ b64_encode [1, 2, 3]) = Inr (wire_of sample_info)"
    by (rule parse_wire_encode [OF sample_addressable, of "\<lambda>w. Some [1, 2, 3]"]) (simp_all add: conn_addr_def h3_address_prefix_def)
  then have "parse_conn_addr (\<lambda>x. Some (wire_of sample_info)) (h3_address_prefix @ b64_encode [1, 2, 3]) = Inr (carried sample_info)"
    by (rule parse_conn_addr_wire_of [OF sample_addressable])
  from this parse_conn_addr_sound [OF this] show ?thesis by blast
qed

end
