(* ===== verification/Leases.thy ===== *)
theory Leases
  imports Keys
begin

text \<open>
  Client leases (\<open>h3_clients.go\<close>): one 64-bit atomic word per admitted identity that holds the
  Unix second of the last session event and the session state, with an all-ones tombstone for a
  retired identity. A time is an int of nanoseconds since the epoch. The session states are an
  enumeration of the engine package, so the established and handshake codes are parameters.
  The second half models the two racing operations, the session callback and the retirement,
  as atomic loads and compare-and-swaps of any number of threads on one word.
\<close>

unbundle bit_operations_syntax

section \<open>The packed word\<close>

definition sec_ns :: int where "sec_ns = 1000000000"

definition h3_client_grace :: int where "h3_client_grace = 60 * sec_ns"

definition h3_lease_retired :: u64 where "h3_lease_retired = NOT 0"

text \<open>\<open>time.Time.Unix\<close>, \<open>time.Unix(s, 0)\<close> and \<open>time.Time.Sub\<close>, which saturates.\<close>

definition go_unix :: "int \<Rightarrow> int" where "go_unix t = t div sec_ns"

definition go_from_unix :: "int \<Rightarrow> int" where "go_from_unix s = s * sec_ns"

definition go_sub :: "int \<Rightarrow> int \<Rightarrow> int" where
  "go_sub t u = max (- (2 ^ 63)) (min (2 ^ 63 - 1) (t - u))"

definition lease_word :: "u64 \<Rightarrow> int \<Rightarrow> u64" where
  "lease_word state now = push_bit 3 (word_of_int (go_unix now)) OR (state AND 7)"

definition lease_state :: "u64 \<Rightarrow> u64" where "lease_state v = v AND 7"

definition lease_changed :: "u64 \<Rightarrow> int" where
  "lease_changed v = go_from_unix (sint (drop_bit 3 v))"

text \<open>The operations when no other goroutine touches the word.\<close>

definition lease_update :: "u64 \<Rightarrow> int \<Rightarrow> u64 \<Rightarrow> u64 \<times> bool" where
  "lease_update state now prev =
     (if prev = h3_lease_retired then (prev, False) else (lease_word state now, True))"

definition new_h3_client_lease :: "u64 \<Rightarrow> int \<Rightarrow> u64" where
  "new_h3_client_lease handshake now = fst (lease_update handshake now 0)"

definition lease_keep :: "u64 \<Rightarrow> int \<Rightarrow> u64 \<Rightarrow> bool" where
  "lease_keep est now v =
     (v = h3_lease_retired \<or> lease_state v = est \<or> go_sub now (lease_changed v) < h3_client_grace)"

definition lease_reclaimable :: "u64 \<Rightarrow> int \<Rightarrow> u64 \<Rightarrow> int \<times> bool" where
  "lease_reclaimable est now v = (lease_changed v, \<not> lease_keep est now v)"

definition claim_retirement :: "u64 \<Rightarrow> int \<Rightarrow> u64 \<Rightarrow> u64 \<times> bool" where
  "claim_retirement est now v = (if lease_keep est now v then (v, False) else (h3_lease_retired, True))"

section \<open>Threads racing on one word\<close>

text \<open>
  \<open>Updating s t\<close> is in the loop of \<open>update\<close> before its load, \<open>Loaded s t v\<close> between the load
  and the compare-and-swap; \<open>Claiming t\<close> and \<open>Claimed t v\<close> the same for \<open>claimRetirement\<close>.
\<close>

datatype lease_pc =
    Updating u64 int
  | Loaded u64 int u64
  | Updated u64 int bool
  | Claiming int
  | Claimed int u64
  | ClaimDone int bool

fun lease_thread_step :: "u64 \<Rightarrow> u64 \<Rightarrow> lease_pc \<Rightarrow> (u64 \<times> lease_pc) option" where
  "lease_thread_step est w (Updating s t) =
     Some (if w = h3_lease_retired then (w, Updated s t False) else (w, Loaded s t w))"
| "lease_thread_step est w (Loaded s t v) =
     Some (if w = v then (lease_word s t, Updated s t True) else (w, Updating s t))"
| "lease_thread_step est w (Claiming t) =
     Some (if lease_keep est t w then (w, ClaimDone t False) else (w, Claimed t w))"
| "lease_thread_step est w (Claimed t v) =
     Some (if w = v then (h3_lease_retired, ClaimDone t True) else (w, ClaimDone t False))"
| "lease_thread_step est w (Updated s t r) = None"
| "lease_thread_step est w (ClaimDone t r) = None"

inductive lease_step :: "u64 \<Rightarrow> u64 \<times> lease_pc list \<Rightarrow> u64 \<times> lease_pc list \<Rightarrow> bool" for est where
  run: "i < length pcs \<Longrightarrow> lease_thread_step est w (pcs ! i) = Some (w', pc) \<Longrightarrow>
          lease_step est (w, pcs) (w', pcs[i := pc])"

inductive lease_steps :: "u64 \<Rightarrow> u64 \<times> lease_pc list \<Rightarrow> u64 \<times> lease_pc list \<Rightarrow> bool" for est where
  done_: "lease_steps est c c"
| more: "lease_steps est c d \<Longrightarrow> lease_step est d e \<Longrightarrow> lease_steps est c e"

inductive_cases lease_stepE: "lease_step est (w, pcs) (w', pcs')"

section \<open>Facts about the word\<close>

lemma push_bit_and_mask: "push_bit n x AND mask n = (0 :: u64)"
  by (rule bit_eqI) (simp add: bit_simps)

lemma drop_bit_and_mask: "drop_bit n (x AND mask n) = (0 :: u64)"
  by (rule bit_eqI) (simp add: bit_simps)

lemma seven_mask: "(7 :: u64) = mask 3"
  by (simp add: mask_eq_exp_minus_1)

lemma lease_state_word [simp]: "lease_state (lease_word s t) = s AND 7"
  unfolding lease_state_def lease_word_def seven_mask
  by (simp add: bit.conj_disj_distrib2 and.assoc push_bit_and_mask del: push_bit_numeral)

lemma drop_lease_word: "drop_bit 3 (lease_word s t) = drop_bit 3 (push_bit 3 (word_of_int (go_unix t)))"
  unfolding lease_word_def seven_mask by (simp only: drop_bit_or drop_bit_and_mask or.right_neutral)

lemma uint_shifted_back:
  assumes "0 \<le> n" "n < 2 ^ 60"
  shows "uint (drop_bit 3 (push_bit 3 (word_of_int n :: u64))) = n"
proof -
  have "uint (push_bit 3 (word_of_int n :: u64)) = take_bit 64 (push_bit 3 (uint (word_of_int n :: u64)))"
    by (subst unsigned_push_bit_eq) simp
  also have "\<dots> = n * 8" using assms by (simp add: uint_word_of_int push_bit_eq_mult take_bit_eq_mod)
  finally have p: "uint (push_bit 3 (word_of_int n :: u64)) = n * 8" .
  show ?thesis by (subst unsigned_drop_bit_eq) (simp only: p, use assms in \<open>simp add: drop_bit_eq_div take_bit_eq_mod\<close>)
qed

lemma lease_changed_word:
  assumes "0 \<le> go_unix t" "go_unix t < 2 ^ 60"
  shows "lease_changed (lease_word s t) = go_unix t * sec_ns"
proof -
  have "signed_take_bit 63 (go_unix t) = go_unix t"
    using assms by (intro signed_take_bit_int_eq_self) simp_all
  then have "sint (drop_bit 3 (push_bit 3 (word_of_int (go_unix t) :: u64))) = go_unix t"
    unfolding sint_uint uint_shifted_back [OF assms] by simp
  then show ?thesis by (simp only: lease_changed_def drop_lease_word go_from_unix_def)
qed

definition lease_clock :: "int \<Rightarrow> bool" where
  "lease_clock t = (0 \<le> go_unix t \<and> go_unix t < 2 ^ 60)"

lemma lease_word_not_retired [simp]: "lease_clock t \<Longrightarrow> lease_word s t \<noteq> h3_lease_retired"
proof
  assume t: "lease_clock t" and e: "lease_word s t = h3_lease_retired"
  have "uint (drop_bit 3 (lease_word s t)) = go_unix t"
    using t uint_shifted_back by (simp only: drop_lease_word lease_clock_def)
  moreover have "uint (drop_bit 3 h3_lease_retired) = 2 ^ 61 - 1"
    by (simp add: h3_lease_retired_def unsigned_drop_bit_eq unsigned_not_eq drop_bit_eq_div take_bit_minus_one_eq_mask mask_eq_exp_minus_1)
  ultimately show False using t e by (simp add: lease_clock_def)
qed

lemma lease_keep_retired [simp]: "lease_keep est now h3_lease_retired"
  by (simp add: lease_keep_def)

lemma not_keepD: "\<not> lease_keep est t v \<Longrightarrow> v \<noteq> h3_lease_retired \<and> lease_state v \<noteq> est \<and> h3_client_grace \<le> go_sub t (lease_changed v)"
  by (simp add: lease_keep_def)

lemma filter_update_count:
  "i < length xs \<Longrightarrow>
   length (filter P (xs[i := x])) + (if P (xs ! i) then 1 else 0) = length (filter P xs) + (if P x then 1 else 0)"
proof (induction xs arbitrary: i)
  case (Cons y xs)
  then show ?case by (cases i) auto
qed simp

section \<open>The invariant of the race\<close>

fun lease_won :: "lease_pc \<Rightarrow> bool" where
  "lease_won (ClaimDone t r) = r"
| "lease_won _ = False"

fun lease_pc_ok :: "u64 \<Rightarrow> lease_pc \<Rightarrow> bool" where
  "lease_pc_ok est (Updating s t) = lease_clock t"
| "lease_pc_ok est (Loaded s t v) = (lease_clock t \<and> v \<noteq> h3_lease_retired)"
| "lease_pc_ok est (Claimed t v) = (\<not> lease_keep est t v)"
| "lease_pc_ok est _ = True"

fun lease_start :: "lease_pc \<Rightarrow> bool" where
  "lease_start (Updating s t) = lease_clock t"
| "lease_start (Claiming t) = True"
| "lease_start _ = False"

definition lease_inv :: "u64 \<Rightarrow> u64 \<times> lease_pc list \<Rightarrow> bool" where
  "lease_inv est c =
     ((\<forall>pc \<in> set (snd c). lease_pc_ok est pc)
      \<and> length (filter lease_won (snd c)) = (if fst c = h3_lease_retired then 1 else 0))"

lemma lease_thread_step_cases:
  assumes "lease_thread_step est w pc = Some (w', pc')" "lease_pc_ok est pc"
  shows "\<not> lease_won pc" "lease_pc_ok est pc'"
    "w = h3_lease_retired \<Longrightarrow> w' = w" "lease_won pc' \<longleftrightarrow> w \<noteq> h3_lease_retired \<and> w' = h3_lease_retired"
    "w \<noteq> h3_lease_retired \<Longrightarrow> w' = h3_lease_retired \<Longrightarrow> \<exists>t. \<not> lease_keep est t w"
  using assms by (cases pc; auto split: if_splits)+

lemma lease_inv_step: "lease_step est c d \<Longrightarrow> lease_inv est c \<Longrightarrow> lease_inv est d"
proof (induction rule: lease_step.induct)
  case (run i pcs w w' pc)
  then have ok: "lease_pc_ok est (pcs ! i)" by (simp add: lease_inv_def)
  note s = lease_thread_step_cases [OF run(2) ok]
  have "set (pcs[i := pc]) \<subseteq> insert pc (set pcs)" by (rule set_update_subset_insert)
  then have "\<forall>p \<in> set (pcs[i := pc]). lease_pc_ok est p" using run(3) s(2) by (auto simp: lease_inv_def)
  moreover have "length (filter lease_won (pcs[i := pc])) = (if w' = h3_lease_retired then 1 else 0)"
  proof -
    have "length (filter lease_won (pcs[i := pc])) =
        (if w = h3_lease_retired then 1 else 0) + (if lease_won pc then 1 else 0)"
      using filter_update_count [OF run(1), of lease_won pc] run(3) s(1) by (simp add: lease_inv_def)
    then show ?thesis using s(3,4) by (simp split: if_split)
  qed
  ultimately show ?case by (simp add: lease_inv_def)
qed

lemma lease_inv_steps: "lease_steps est c d \<Longrightarrow> lease_inv est c \<Longrightarrow> lease_inv est d"
  by (induction rule: lease_steps.induct) (auto intro: lease_inv_step)

lemma lease_inv_start: "w \<noteq> h3_lease_retired \<Longrightarrow> \<forall>pc \<in> set pcs. lease_start pc \<Longrightarrow> lease_inv est (w, pcs)"
proof -
  assume a: "w \<noteq> h3_lease_retired" "\<forall>pc \<in> set pcs. lease_start pc"
  have "lease_start pc \<Longrightarrow> lease_pc_ok est pc \<and> \<not> lease_won pc" for pc by (cases pc) auto
  then show ?thesis using a by (auto simp: lease_inv_def filter_empty_conv)
qed

lemma one_winner:
  "length (filter P xs) = 1 \<Longrightarrow> \<exists>!i. i < length xs \<and> P (xs ! i)"
proof -
  assume "length (filter P xs) = 1"
  then have "card {i. i < length xs \<and> P (xs ! i)} = 1" by (simp only: length_filter_conv_card)
  then obtain j where j: "{i. i < length xs \<and> P (xs ! i)} = {j}" by (rule card_1_singletonE)
  show ?thesis
  proof (rule ex1I [of _ j])
    show "j < length xs \<and> P (xs ! j)" using j by blast
    show "i = j" if "i < length xs \<and> P (xs ! i)" for i using j that by blast
  qed
qed

section \<open>Correctness\<close>

text \<open>A session event at time t is published as one word that gives back its state and its
  second, is never the tombstone, and makes the identity reclaimable exactly when the state is not
  established and a full minute has passed since that second.\<close>

theorem lease_reclaimable_iff:
  assumes "lease_clock t" "state AND 7 = state" "\<bar>now - go_unix t * sec_ns\<bar> < 2 ^ 63"
  shows "lease_update state t (lease_word s0 t0) = (if lease_word s0 t0 = h3_lease_retired then (h3_lease_retired, False) else (lease_word state t, True))
    \<and> lease_state (lease_word state t) = state \<and> lease_word state t \<noteq> h3_lease_retired
    \<and> lease_reclaimable est now (lease_word state t) =
        (go_unix t * sec_ns, state \<noteq> est \<and> 60 * sec_ns \<le> now - go_unix t * sec_ns)"
proof -
  have c: "lease_changed (lease_word state t) = go_unix t * sec_ns"
    using assms(1) by (simp add: lease_clock_def lease_changed_word)
  have "go_sub now (go_unix t * sec_ns) = now - go_unix t * sec_ns" using assms(3) by (simp add: go_sub_def)
  then show ?thesis
    using assms c by (auto simp: lease_update_def lease_reclaimable_def lease_keep_def h3_client_grace_def)
qed

theorem lease_reclaimable_iff_witness:
  "lease_reclaimable 4 (1700000060 * sec_ns) (lease_word 2 (1700000000 * sec_ns + 999)) = (1700000000 * sec_ns, True)
   \<and> lease_reclaimable 4 (1700000059 * sec_ns) (lease_word 2 (1700000000 * sec_ns + 999)) = (1700000000 * sec_ns, False)
   \<and> lease_reclaimable 4 (1800000060 * sec_ns) (lease_word 4 (1700000000 * sec_ns + 999)) = (1700000000 * sec_ns, False)"
  using lease_reclaimable_iff [of "1700000000 * sec_ns + 999" 2 "1700000060 * sec_ns" 0 0 4]
    lease_reclaimable_iff [of "1700000000 * sec_ns + 999" 2 "1700000059 * sec_ns" 0 0 4]
    lease_reclaimable_iff [of "1700000000 * sec_ns + 999" 4 "1800000060 * sec_ns" 0 0 4]
  by (simp add: lease_clock_def go_unix_def sec_ns_def)



lemma lease_step_at:
  "i < length pcs \<Longrightarrow> pcs ! i = pc \<Longrightarrow> lease_thread_step est w pc = Some (w', pc') \<Longrightarrow>
     lease_steps est (w, pcs) (w', pcs[i := pc'])"
  by (meson lease_step.run lease_steps.intros)

lemma lease_steps_trans: "lease_steps est d e \<Longrightarrow> lease_steps est c d \<Longrightarrow> lease_steps est c e"
  by (induction rule: lease_steps.induct) (auto intro: lease_steps.more)

lemma lease_update_alone:
  assumes "i < length pcs" "pcs ! i = Updating s t"
  shows "lease_steps est (w, pcs) (fst (lease_update s t w), pcs[i := Updated s t (snd (lease_update s t w))])"
proof (cases "w = h3_lease_retired")
  case True
  then show ?thesis using lease_step_at [OF assms] by (simp add: lease_update_def)
next
  case False
  then have "lease_steps est (w, pcs) (w, pcs[i := Loaded s t w])" using lease_step_at [OF assms] by simp
  moreover have "lease_steps est (w, pcs[i := Loaded s t w]) (lease_word s t, (pcs[i := Loaded s t w])[i := Updated s t True])"
    by (rule lease_step_at) (use assms in auto)
  ultimately show ?thesis using False lease_steps_trans by (fastforce simp: lease_update_def)
qed

text \<open>C9. The compare-and-swap loops implement the sequential operations: a thread that runs
  without interference finishes and has the effect and the answer of \<open>lease_update\<close>, also when it
  starts from a stale load, and a claim has those of \<open>claim_retirement\<close>.\<close>

theorem lease_loops_refine:
  assumes "i < length pcs"
  shows "(pcs ! i = Updating s t \<or> (pcs ! i = Loaded s t v \<and> v \<noteq> w) \<longrightarrow>
      lease_steps est (w, pcs) (fst (lease_update s t w), pcs[i := Updated s t (snd (lease_update s t w))]))
    \<and> (pcs ! i = Claiming t \<longrightarrow>
      lease_steps est (w, pcs) (fst (claim_retirement est t w), pcs[i := ClaimDone t (snd (claim_retirement est t w))]))"
proof (intro conjI impI)
  assume "pcs ! i = Updating s t \<or> (pcs ! i = Loaded s t v \<and> v \<noteq> w)"
  then show "lease_steps est (w, pcs) (fst (lease_update s t w), pcs[i := Updated s t (snd (lease_update s t w))])"
  proof
    assume "pcs ! i = Updating s t"
    then show ?thesis by (rule lease_update_alone [OF assms])
  next
    assume l: "pcs ! i = Loaded s t v \<and> v \<noteq> w"
    then have "lease_steps est (w, pcs) (w, pcs[i := Updating s t])"
      using assms by (intro lease_step_at [of i pcs "Loaded s t v"]) auto
    moreover have "lease_steps est (w, pcs[i := Updating s t])
        (fst (lease_update s t w), (pcs[i := Updating s t])[i := Updated s t (snd (lease_update s t w))])"
      by (rule lease_update_alone) (use assms in auto)
    ultimately show ?thesis using lease_steps_trans by fastforce
  qed
next
  assume c: "pcs ! i = Claiming t"
  show "lease_steps est (w, pcs) (fst (claim_retirement est t w), pcs[i := ClaimDone t (snd (claim_retirement est t w))])"
  proof (cases "lease_keep est t w")
    case True
    then show ?thesis using lease_step_at [OF assms c] by (simp add: claim_retirement_def)
  next
    case False
    then have "lease_steps est (w, pcs) (w, pcs[i := Claimed t w])" using lease_step_at [OF assms c] by simp
    moreover have "lease_steps est (w, pcs[i := Claimed t w]) (h3_lease_retired, (pcs[i := Claimed t w])[i := ClaimDone t True])"
      by (rule lease_step_at) (use assms in auto)
    ultimately show ?thesis using False lease_steps_trans by (fastforce simp: claim_retirement_def)
  qed
qed

theorem lease_loops_refine_witness:
  "lease_steps 4 (lease_word 2 0, [Loaded 4 (5 * sec_ns) 9]) (lease_word 4 (5 * sec_ns), [Updated 4 (5 * sec_ns) True])"
proof -
  have "lease_word 2 0 \<noteq> h3_lease_retired" "(9 :: u64) \<noteq> lease_word 2 0" by code_simp+
  then show ?thesis
    using lease_loops_refine [of 0 "[Loaded 4 (5 * sec_ns) 9]" 4 "5 * sec_ns" 9 "lease_word 2 0" 4]
    by (simp add: lease_update_def)
qed

end
