(* ===== verification/Admission.thy ===== *)
theory Admission
  imports Meow Wire Leases
begin

text \<open>
  The server's side of a join: the backend state that \<open>tailcat.go\<close> guards with its admission
  and policy mutexes, the admission of an announced client (\<open>onMeow\<close>), the retirement of an
  old one (\<open>retireH3ClientLocked\<close>), the policy the transport consults for every peer and packet
  (\<open>peerConfig\<close>, \<open>peerByIP\<close>, \<open>peerForIP\<close>, the policy functions installed by \<open>Start\<close>), the
  endpoint advertisement, and the receipt of an announcement packet. Calls on the engine and on
  magicsock are effects, returned in the order they are made; a panic is None.
\<close>

section \<open>State\<close>

record tnode =
  nd_id :: int
  nd_stable_id :: string
  nd_name :: string
  nd_user :: int
  nd_key :: key32
  nd_disco :: key32
  nd_addresses :: "ipprefix list"
  nd_allowed_ips :: "ipprefix list"
  nd_home_derp :: int

record netmap =
  nm_node_key :: key32
  nm_self :: tnode
  nm_peers :: "tnode list"

record backend =
  lb_priv :: key32
  lb_pub :: key32
  lb_addr :: ipaddr
  lb_addr_prefix :: ipprefix
  lb_dm :: "(int, derp_region) gomap option"
  lb_server_pub :: key32
  lb_server_disco :: key32
  lb_psk :: key32
  lb_nonce :: bytes
  lb_disco_public :: key32
  lb_leases :: "(key32, u64) gomap"
  lb_next_id :: int
  lb_clients :: "(key32, tnode) gomap"
  lb_nm :: "netmap option"
  lb_allowed :: "(key32, bool) gomap option"
  lb_eps :: "addrport list"

datatype effect =
    ESetNetworkMap tnode "tnode list"
  | EUpdateIPs netmap
  | EResetPeer key32
  | EGoAdvertise
  | ENetstackStart
  | ESetPrivateKey key32
  | ESetDERPMap "(int, derp_region) gomap"
  | ESetSelfNode tnode
  | ENetworkUp
  | EInstallPolicy
  | EReconfig key32 "ipprefix list" "ipprefix list"
  | ENetMonStart

definition h3_max_clients :: nat where "h3_max_clients = 256"

definition new_loco_backend :: "key32 \<Rightarrow> key32 \<Rightarrow> key32 \<Rightarrow> bytes \<Rightarrow> key32 \<Rightarrow> backend" where
  "new_loco_backend priv pub psk nonce disco_pub =
     (let addr = tc_addr_for_key pub
      in \<lparr>lb_priv = priv, lb_pub = pub, lb_addr = addr, lb_addr_prefix = Pfx addr (bit_len addr),
          lb_dm = None, lb_server_pub = key_zero, lb_server_disco = key_zero, lb_psk = psk, lb_nonce = nonce,
          lb_disco_public = disco_pub, lb_leases = [], lb_next_id = 0, lb_clients = [], lb_nm = None,
          lb_allowed = None, lb_eps = []\<rparr>)"

definition derp_region_id :: "backend \<Rightarrow> int option" where
  "derp_region_id b = (case lb_dm b of Some ((i, r) # rs) \<Rightarrow> Some (dr_id r) | _ \<Rightarrow> None)"

text \<open>\<open>locoBackend.tailcatAddr\<close> over the CBOR encoder; a missing DERP map panics.\<close>

definition tailcat_addr :: "(wire_conn_info \<Rightarrow> bytes option) \<Rightarrow> backend \<Rightarrow> string option" where
  "tailcat_addr marshal b =
     (case lb_dm b of
        None \<Rightarrow> None
      | Some regions \<Rightarrow>
          if regions = [] then None
          else conn_addr marshal
                 \<lparr>ci_server_public = lb_pub b, ci_disco = lb_disco_public b, ci_psk = lb_psk b,
                  ci_region = map snd regions, ci_region_id = 0\<rparr>)"

section \<open>Policy\<close>

definition peer_config :: "backend \<Rightarrow> key32 \<Rightarrow> ipprefix list option" where
  "peer_config b k =
     (if \<not> key_is_zero (lb_server_pub b) then
        (if k = lb_server_pub b then Some [pfx_of (tc_addr_for_key k), all_ipv6] else None)
      else (case mget (lb_clients b) k of None \<Rightarrow> None | Some n \<Rightarrow> Some (nd_allowed_ips n)))"

definition peer_by_ip :: "backend \<Rightarrow> ipaddr \<Rightarrow> key32 option" where
  "peer_by_ip b dst =
     (if \<not> key_is_zero (lb_server_pub b) then Some (lb_server_pub b)
      else map_option fst (find (\<lambda>(k, n). tc_addr_for_key k = dst) (lb_clients b)))"

definition node_has_addr :: "tnode \<Rightarrow> ipaddr \<Rightarrow> bool" where
  "node_has_addr n ip = list_ex (\<lambda>p. pfx_addr p = ip) (nd_addresses n)"

definition peer_for_ip :: "backend \<Rightarrow> ipaddr \<Rightarrow> (tnode \<times> bool) option" where
  "peer_for_ip b ip =
     (case lb_nm b of
        None \<Rightarrow> None
      | Some nm \<Rightarrow>
          if node_has_addr (nm_self nm) ip then Some (nm_self nm, True)
          else map_option (\<lambda>p. (p, False)) (find (\<lambda>p. node_has_addr p ip) (nm_peers nm)))"

text \<open>The two policy functions that \<open>Start\<close> installs in the engine.\<close>

definition peer_policy :: "backend \<Rightarrow> key32 \<Rightarrow> key32 \<Rightarrow> bool" where
  "peer_policy b self_key peer =
     (if self_key \<noteq> lb_pub b \<or> key_is_zero peer \<or> peer = self_key then False else peer_config b peer \<noteq> None)"

definition source_policy :: "backend \<Rightarrow> key32 \<Rightarrow> key32 \<Rightarrow> ipaddr \<Rightarrow> bool" where
  "source_policy b self_key peer source =
     (if self_key \<noteq> lb_pub b \<or> key_is_zero peer \<or> peer = self_key then False
      else (case peer_config b peer of
              None \<Rightarrow> False
            | Some pfxs \<Rightarrow> list_ex (\<lambda>p. pfx_contains p source) pfxs))"

section \<open>Retirement\<close>

text \<open>\<open>onH3SessionState\<close>: the callback only touches the lease word of a known peer.\<close>

definition on_h3_session_state :: "key32 \<Rightarrow> u64 \<Rightarrow> int \<Rightarrow> backend \<Rightarrow> backend" where
  "on_h3_session_state peer state now b =
     (case mget (lb_leases b) peer of
        None \<Rightarrow> b
      | Some v \<Rightarrow> b\<lparr>lb_leases := mset_key peer (fst (lease_update state now v)) (lb_leases b)\<rparr>)"

fun retire_scan :: "u64 \<Rightarrow> int \<Rightarrow> (key32, u64) gomap \<Rightarrow> (key32, tnode) gomap \<Rightarrow> key32 \<times> int \<Rightarrow> key32 \<times> int" where
  "retire_scan est now leases [] best = best"
| "retire_scan est now leases ((peer, n) # cs) (candidate, oldest) =
     (case mget leases peer of
        None \<Rightarrow> retire_scan est now leases cs (candidate, oldest)
      | Some v \<Rightarrow>
          (case lease_reclaimable est now v of
             (changed, reclaimable) \<Rightarrow>
               if reclaimable \<and> (key_is_zero candidate \<or> changed < oldest)
               then retire_scan est now leases cs (peer, changed)
               else retire_scan est now leases cs (candidate, oldest)))"

text \<open>\<open>race\<close> is what the session callbacks do to the lease words between the scan and the claim;
  the time of the zero \<open>time.Time\<close> is never compared, because the candidate is zero then.\<close>

definition retire_h3_client ::
  "u64 \<Rightarrow> int \<Rightarrow> ((key32, u64) gomap \<Rightarrow> (key32, u64) gomap) \<Rightarrow> backend \<Rightarrow> backend \<times> key32 option" where
  "retire_h3_client est now race b =
     (case retire_scan est now (lb_leases b) (lb_clients b) (key_zero, 0) of
        (candidate, oldest) \<Rightarrow>
          if key_is_zero candidate then (b, None)
          else
            let leases = race (lb_leases b); b = b\<lparr>lb_leases := leases\<rparr>
            in (case mget leases candidate of
                  None \<Rightarrow> (b, None)
                | Some v \<Rightarrow>
                    if snd (claim_retirement est now v) then
                      (b\<lparr>lb_clients := mdel candidate (lb_clients b), lb_leases := mdel candidate leases\<rparr>, Some candidate)
                    else (b, None)))"

section \<open>Admission\<close>

definition client_node :: "int \<Rightarrow> key32 \<Rightarrow> key32 \<Rightarrow> int \<Rightarrow> tnode" where
  "client_node i src disco derp =
     \<lparr>nd_id = i, nd_stable_id = sprint_int i, nd_name = ''client'' @ sprint_int i @ ''.tailcat.'', nd_user = 100,
      nd_key = src, nd_disco = disco, nd_addresses = [pfx_of (tc_addr_for_key src)],
      nd_allowed_ips = [pfx_of (tc_addr_for_key src)], nd_home_derp = derp\<rparr>"

definition server_node :: "backend \<Rightarrow> key32 \<Rightarrow> int \<Rightarrow> tnode" where
  "server_node b disco derp =
     \<lparr>nd_id = 1, nd_stable_id = ''1'', nd_name = ''server.tailcat.'', nd_user = 100, nd_key = lb_pub b,
      nd_disco = disco, nd_addresses = [lb_addr_prefix b], nd_allowed_ips = [lb_addr_prefix b, all_ipv6],
      nd_home_derp = derp\<rparr>"

definition admit_client :: "u64 \<Rightarrow> int \<Rightarrow> key32 \<Rightarrow> key32 \<Rightarrow> backend \<Rightarrow> (backend \<times> effect list \<times> bool) option" where
  "admit_client hs now src disco b =
     (let i = max (lb_next_id b + 1) 2;
          b = b\<lparr>lb_next_id := i, lb_leases := mset_key src (new_h3_client_lease hs now) (lb_leases b)\<rparr>
      in (case derp_region_id b of
            None \<Rightarrow> None
          | Some derp \<Rightarrow>
              let b = b\<lparr>lb_clients := mset_key src (client_node i src disco derp) (lb_clients b)\<rparr>;
                  nm = \<lparr>nm_node_key = lb_pub b, nm_self = server_node b (lb_disco_public b) derp,
                        nm_peers = sort_key nd_id (map snd (lb_clients b))\<rparr>
              in Some (b\<lparr>lb_nm := Some nm\<rparr>,
                       [ESetNetworkMap (nm_self nm) (nm_peers nm), EUpdateIPs nm, EGoAdvertise], True)))"

text \<open>\<open>onMeow\<close>; \<open>gap\<close> is what other goroutines do while the policy mutex is dropped for the
  transport teardown (the admission mutex stays held).\<close>

definition on_meow ::
  "u64 \<Rightarrow> u64 \<Rightarrow> int \<Rightarrow> int \<Rightarrow> ((key32, u64) gomap \<Rightarrow> (key32, u64) gomap) \<Rightarrow> (backend \<Rightarrow> backend)
     \<Rightarrow> key32 \<Rightarrow> key32 \<Rightarrow> backend \<Rightarrow> (backend \<times> effect list \<times> bool) option" where
  "on_meow est hs now now2 race gap src disco b =
     (if (case lb_allowed b of None \<Rightarrow> False | Some m \<Rightarrow> mget m src \<noteq> Some True) then Some (b, [], False)
      else
        (case mget (lb_clients b) src of
           Some n \<Rightarrow> Some (b, [], nd_disco n = disco)
         | None \<Rightarrow>
             if h3_max_clients \<le> length (lb_clients b) then
               (case retire_h3_client est now race b of
                  (b, None) \<Rightarrow> Some (b, [], False)
                | (b, Some retired) \<Rightarrow>
                    map_option (\<lambda>(b, es, ok). (b, EResetPeer retired # es, ok))
                      (admit_client hs now2 src disco (gap b)))
             else admit_client hs now2 src disco b))"

definition add_allowed_client :: "key32 \<Rightarrow> backend \<Rightarrow> backend" where
  "add_allowed_client k b =
     b\<lparr>lb_allowed := Some (mset_key k True (case lb_allowed b of None \<Rightarrow> [] | Some m \<Rightarrow> m))\<rparr>"

section \<open>Endpoints\<close>

text \<open>\<open>onEngineStatus\<close>: None is a nil status or an error.\<close>

definition on_engine_status :: "addrport list option \<Rightarrow> backend \<Rightarrow> backend \<times> effect list" where
  "on_engine_status st b =
     (case st of
        None \<Rightarrow> (b, [])
      | Some addrs \<Rightarrow>
          let eps = remdups_adj (sort addrs); changed = (eps \<noteq> lb_eps b)
          in (if changed then b\<lparr>lb_eps := eps\<rparr> else b,
              if changed \<and> eps \<noteq> [] then [EGoAdvertise] else []))"

text \<open>\<open>advertiseEndpoints\<close>: the packets handed to \<open>SendDERPPacketTo\<close>, as destination, region and
  payload. \<open>magic\<close>, \<open>marshal\<close> (the CallMeMaybe message) and \<open>seal\<close> (private key, peer key,
  plaintext) are of the disco package.\<close>

definition advertise_endpoints ::
  "bool \<Rightarrow> bytes \<Rightarrow> (addrport list \<Rightarrow> bytes) \<Rightarrow> (key32 \<Rightarrow> key32 \<Rightarrow> bytes \<Rightarrow> bytes) \<Rightarrow> (bytes \<Rightarrow> bytes \<Rightarrow> bytes)
     \<Rightarrow> backend \<Rightarrow> (key32 \<times> int \<times> bytes) list option" where
  "advertise_endpoints js magic marshal seal hmac b =
     (let peers = (case lb_nm b of None \<Rightarrow> [] | Some nm \<Rightarrow> nm_peers nm)
      in if js \<or> lb_eps b = [] \<or> peers = [] then Some []
         else
           (case derp_region_id b of
              None \<Rightarrow> None
            | Some region \<Rightarrow>
                let payload = marshal (lb_eps b); disco_priv = disco_private_for_node hmac (lb_priv b)
                in Some (map (\<lambda>p. (nd_key p, region, magic @ lb_disco_public b @ seal disco_priv (nd_disco p) payload)) peers)))"

section \<open>Receiving an announcement\<close>

text \<open>The server's \<open>onDERPRecv\<close>: \<open>slots\<close> counts the admission workers in use, at most 32; the
  result says whether the packet is consumed and which worker is started.\<close>

definition meow_slots :: nat where "meow_slots = 32"

definition server_derp_recv ::
  "(bytes \<Rightarrow> bytes \<Rightarrow> bytes) \<Rightarrow> backend \<Rightarrow> nat \<Rightarrow> int \<Rightarrow> key32 \<Rightarrow> bytes
     \<Rightarrow> bool \<times> nat \<times> (int \<times> key32 \<times> key32 \<times> bytes) option" where
  "server_derp_recv hmac b slots region src pkt =
     (if \<not> is_h3_meow pkt then (is_meow_packet pkt, slots, None)
      else
        (case parse_h3_meow hmac pkt (lb_psk b) (lb_pub b) src False of
           None \<Rightarrow> (True, slots, None)
         | Some (disco, nonce) \<Rightarrow>
             if slots < meow_slots then (True, Suc slots, Some (region, src, disco, nonce)) else (True, slots, None)))"

text \<open>The worker: admission, and the acknowledgement it sends when admission succeeds.\<close>

definition meow_worker ::
  "(bytes \<Rightarrow> bytes \<Rightarrow> bytes) \<Rightarrow> u64 \<Rightarrow> u64 \<Rightarrow> int \<Rightarrow> int \<Rightarrow> ((key32, u64) gomap \<Rightarrow> (key32, u64) gomap)
     \<Rightarrow> (backend \<Rightarrow> backend) \<Rightarrow> int \<times> key32 \<times> key32 \<times> bytes \<Rightarrow> backend
     \<Rightarrow> (backend \<times> effect list \<times> (key32 \<times> int \<times> bytes) list) option" where
  "meow_worker hmac est hs now now2 race gap job b =
     (case job of (region, src, disco, nonce) \<Rightarrow>
        (case on_meow est hs now now2 race gap src disco b of
           None \<Rightarrow> None
         | Some (b', es, ok) \<Rightarrow>
             Some (b', es, if ok then [(src, region, encode_h3_meow hmac (lb_psk b') (lb_pub b') src disco nonce True)] else [])))"

section \<open>Starting the backend\<close>

text \<open>\<open>locoBackend.Start\<close>: the network map it installs, as server or as client.\<close>

definition start_netmap :: "key32 \<Rightarrow> backend \<Rightarrow> netmap option" where
  "start_netmap mc_disco b =
     (case derp_region_id b of
        None \<Rightarrow> None
      | Some derp \<Rightarrow>
          Some (if key_is_zero (lb_server_pub b) then
                  \<lparr>nm_node_key = lb_pub b, nm_self = server_node b mc_disco derp, nm_peers = []\<rparr>
                else
                  let server_prefix = Pfx (tc_addr_for_key (lb_server_pub b)) (bit_len (tc_addr_for_key (lb_server_pub b)))
                  in \<lparr>nm_node_key = lb_pub b,
                      nm_self =
                        \<lparr>nd_id = 2, nd_stable_id = ''2'', nd_name = ''client.tailcat.'', nd_user = 100, nd_key = lb_pub b,
                         nd_disco = mc_disco, nd_addresses = [lb_addr_prefix b], nd_allowed_ips = [], nd_home_derp = derp\<rparr>,
                      nm_peers =
                        [\<lparr>nd_id = 1, nd_stable_id = ''1'', nd_name = ''server.tailcat.'', nd_user = 100,
                          nd_key = lb_server_pub b, nd_disco = lb_server_disco b, nd_addresses = [server_prefix],
                          nd_allowed_ips = [server_prefix, all_ipv6], nd_home_derp = derp\<rparr>]\<rparr>))"

text \<open>\<open>Start\<close> as a whole: \<open>netstack_ok\<close> and \<open>reconfig_ok\<close> are the outcomes of starting the netstack
  and of configuring the engine. \<open>EInstallPolicy\<close> stands for the calls that hand the functions of
  the section on policy, the session callback and the status callback to the engine.\<close>

datatype start_error = StartNetstack | StartReconfig

definition loco_start ::
  "bool \<Rightarrow> bool \<Rightarrow> key32 \<Rightarrow> backend \<Rightarrow> (backend \<times> effect list \<times> start_error option) option" where
  "loco_start netstack_ok reconfig_ok mc_disco b =
     (if \<not> netstack_ok then Some (b, [], Some StartNetstack)
      else
        (case start_netmap mc_disco b of
           None \<Rightarrow> None
         | Some nm \<Rightarrow>
             let addresses = [lb_addr_prefix b] @ (if key_is_zero (lb_server_pub b) then [all_ipv6] else []);
                 es = [ENetstackStart, ESetPrivateKey (lb_priv b), ESetDERPMap (the (lb_dm b)),
                       ESetNetworkMap (nm_self nm) (nm_peers nm), ESetSelfNode (nm_self nm), EUpdateIPs nm,
                       ENetworkUp, EInstallPolicy];
                 b = b\<lparr>lb_nm := Some nm\<rparr>
             in if reconfig_ok then
                  Some (b, es @ [EReconfig (lb_priv b) addresses [lb_addr_prefix b], ENetMonStart], None)
                else Some (b, es, Some StartReconfig)))"

section \<open>The invariant of a running server\<close>

definition client_ok :: "int \<Rightarrow> key32 \<times> tnode \<Rightarrow> bool" where
  "client_ok next e =
     (nd_key (snd e) = fst e \<and> key_ok (fst e) \<and> fst e \<noteq> key_zero \<and> 2 \<le> nd_id (snd e) \<and> nd_id (snd e) \<le> next
      \<and> nd_stable_id (snd e) = sprint_int (nd_id (snd e))
      \<and> nd_addresses (snd e) = [pfx_of (tc_addr_for_key (fst e))]
      \<and> nd_allowed_ips (snd e) = [pfx_of (tc_addr_for_key (fst e))])"

definition lb_inv :: "backend \<Rightarrow> bool" where
  "lb_inv b =
     (map_ok (lb_clients b) \<and> map_ok (lb_leases b) \<and> mkeys (lb_leases b) = mkeys (lb_clients b)
      \<and> length (lb_clients b) \<le> h3_max_clients
      \<and> (\<forall>e \<in> set (lb_clients b). client_ok (lb_next_id b) e)
      \<and> distinct (map (nd_id \<circ> snd) (lb_clients b))
      \<and> lb_server_pub b = key_zero
      \<and> (\<forall>nm. lb_nm b = Some nm \<longrightarrow> nm_peers nm = sort_key nd_id (map snd (lb_clients b))))"

text \<open>What the callbacks may do to the lease words, and what the other goroutines may do while the
  policy mutex is dropped: the admission mutex keeps the clients and the identity fixed.\<close>

definition race_ok :: "((key32, u64) gomap \<Rightarrow> (key32, u64) gomap) \<Rightarrow> bool" where
  "race_ok race = (\<forall>ls. map fst (race ls) = map fst ls)"

definition quiet :: "backend \<Rightarrow> backend \<Rightarrow> bool" where
  "quiet b b' =
     (map fst (lb_leases b') = map fst (lb_leases b) \<and> lb_clients b' = lb_clients b \<and> lb_next_id b' = lb_next_id b
      \<and> lb_server_pub b' = lb_server_pub b \<and> lb_pub b' = lb_pub b \<and> lb_psk b' = lb_psk b \<and> lb_dm b' = lb_dm b
      \<and> lb_nm b' = lb_nm b)"

lemma race_ok_same [simp, intro]: "race_ok (\<lambda>ls. ls)"
  by (simp add: race_ok_def)

lemma quiet_refl [simp, intro]: "quiet b b"
  by (simp add: quiet_def)

inductive server_step :: "u64 \<Rightarrow> u64 \<Rightarrow> backend \<Rightarrow> backend \<Rightarrow> bool" for est hs where
  meow: "on_meow est hs now now2 race gap src disco b = Some (b', es, ok) \<Longrightarrow> race_ok race \<Longrightarrow> (\<And>c. quiet c (gap c))
      \<Longrightarrow> key_ok src \<Longrightarrow> src \<noteq> key_zero \<Longrightarrow> server_step est hs b b'"
| session: "server_step est hs b (on_h3_session_state peer state now b)"
| allow: "server_step est hs b (add_allowed_client k b)"
| endpoints: "server_step est hs b (fst (on_engine_status st b))"

inductive_cases server_stepE: "server_step est hs b b'"

section \<open>Lemmas on retirement\<close>

text \<open>A candidate of the scan: a client whose lease the scan may reclaim.\<close>

definition retirable :: "u64 \<Rightarrow> int \<Rightarrow> (key32, u64) gomap \<Rightarrow> key32 \<Rightarrow> int \<Rightarrow> bool" where
  "retirable est now leases k t = (\<exists>v. mget leases k = Some v \<and> \<not> lease_keep est now v \<and> lease_changed v = t)"

lemma retire_scan_spec:
  assumes "key_zero \<notin> mkeys cs"
  shows "retire_scan est now leases cs (c, t) = (c', t') \<Longrightarrow>
    (c' = c \<and> t' = t \<or> c' \<in> mkeys cs \<and> retirable est now leases c' t')
    \<and> (c \<noteq> key_zero \<longrightarrow> c' \<noteq> key_zero \<and> t' \<le> t)
    \<and> (\<forall>k \<in> mkeys cs. \<forall>u. retirable est now leases k u \<longrightarrow> c' \<noteq> key_zero \<and> t' \<le> u)"
  using assms
proof (induction cs arbitrary: c t)
  case (Cons e cs)
  obtain k n where e: "e = (k, n)" by (cases e)
  have z: "key_zero \<notin> mkeys cs" "k \<noteq> key_zero" using Cons.prems(2) e by auto
  show ?case
  proof (cases "\<exists>u. retirable est now leases k u")
    case False
    then have "retire_scan est now leases cs (c, t) = (c', t')"
      using Cons.prems(1) e by (auto simp: retirable_def lease_reclaimable_def split: option.splits)
    from Cons.IH [OF this z(1)] False e show ?thesis by auto
  next
    case True
    then obtain u where u: "retirable est now leases k u" by blast
    have uu: "retirable est now leases k u' \<Longrightarrow> u' = u" for u' using u by (auto simp: retirable_def)
    show ?thesis
    proof (cases "c = key_zero \<or> u < t")
      case True
      then have "retire_scan est now leases cs (k, u) = (c', t')"
        using Cons.prems(1) e u by (auto simp: retirable_def lease_reclaimable_def key_is_zero_def)
      note i = Cons.IH [OF this z(1)]
      have i2: "c' \<noteq> key_zero \<and> t' \<le> u" using i z(2) by blast
      have i1: "c' \<in> mkeys (e # cs) \<and> retirable est now leases c' t'" using i u e by auto
      have "c \<noteq> key_zero \<Longrightarrow> t' \<le> t" using i2 True by auto
      moreover have "\<forall>k' \<in> mkeys (e # cs). \<forall>u'. retirable est now leases k' u' \<longrightarrow> c' \<noteq> key_zero \<and> t' \<le> u'"
        using i i2 e by (auto dest: uu)
      ultimately show ?thesis using i1 i2 by blast
    next
      case False
      then have "retire_scan est now leases cs (c, t) = (c', t')"
        using Cons.prems(1) e u by (auto simp: retirable_def lease_reclaimable_def key_is_zero_def)
      note i = Cons.IH [OF this z(1)]
      have i2: "c' \<noteq> key_zero \<and> t' \<le> t" "t' \<le> u" using i False by auto
      have "c' = c \<and> t' = t \<or> c' \<in> mkeys (e # cs) \<and> retirable est now leases c' t'" using i by auto
      moreover have "\<forall>k' \<in> mkeys (e # cs). \<forall>u'. retirable est now leases k' u' \<longrightarrow> c' \<noteq> key_zero \<and> t' \<le> u'"
        using i i2 e by (auto dest: uu)
      ultimately show ?thesis using i2 by blast
    qed
  qed
qed simp

lemma lb_inv_no_zero: "lb_inv b \<Longrightarrow> key_zero \<notin> mkeys (lb_clients b)"
  by (auto simp: lb_inv_def client_ok_def)

lemma retire_Some:
  assumes "lb_inv b" "retire_h3_client est now race b = (b', Some k)"
  shows "k \<in> mkeys (lb_clients b)"
    "b' = b\<lparr>lb_clients := mdel k (lb_clients b), lb_leases := mdel k (race (lb_leases b))\<rparr>"
    "\<exists>t. retirable est now (race (lb_leases b)) k t"
    "\<exists>t. retirable est now (lb_leases b) k t
        \<and> (\<forall>j \<in> mkeys (lb_clients b). \<forall>u. retirable est now (lb_leases b) j u \<longrightarrow> t \<le> u)"
proof -
  obtain c t where s: "retire_scan est now (lb_leases b) (lb_clients b) (key_zero, 0) = (c, t)" by fastforce
  note r = assms(2) [unfolded retire_h3_client_def s]
  have k: "c = k" "k \<noteq> key_zero" "\<exists>v. mget (race (lb_leases b)) k = Some v \<and> \<not> lease_keep est now v"
    and b': "b' = b\<lparr>lb_clients := mdel k (lb_clients b), lb_leases := mdel k (race (lb_leases b))\<rparr>"
    using r by (auto simp: key_is_zero_def Let_def claim_retirement_def split: if_splits option.splits)
  note p = retire_scan_spec [OF lb_inv_no_zero [OF assms(1)] s]
  show "k \<in> mkeys (lb_clients b)" using p k by auto
  show "b' = b\<lparr>lb_clients := mdel k (lb_clients b), lb_leases := mdel k (race (lb_leases b))\<rparr>" by (rule b')
  show "\<exists>t. retirable est now (race (lb_leases b)) k t" using k(3) by (auto simp: retirable_def)
  show "\<exists>t. retirable est now (lb_leases b) k t
        \<and> (\<forall>j \<in> mkeys (lb_clients b). \<forall>u. retirable est now (lb_leases b) j u \<longrightarrow> t \<le> u)"
    using p k by auto
qed

lemma retire_None:
  assumes "lb_inv b" "retire_h3_client est now race b = (b', None)"
  shows "b' = b \<or> b' = b\<lparr>lb_leases := race (lb_leases b)\<rparr>"
    "race (lb_leases b) = lb_leases b \<Longrightarrow> j \<in> mkeys (lb_clients b) \<Longrightarrow> \<not> retirable est now (lb_leases b) j u"
proof -
  obtain c t where s: "retire_scan est now (lb_leases b) (lb_clients b) (key_zero, 0) = (c, t)" by fastforce
  note r = assms(2) [unfolded retire_h3_client_def s]
  show "b' = b \<or> b' = b\<lparr>lb_leases := race (lb_leases b)\<rparr>"
    using r by (auto simp: Let_def split: if_splits option.splits)
  note p = retire_scan_spec [OF lb_inv_no_zero [OF assms(1)] s]
  show "\<not> retirable est now (lb_leases b) j u" if "race (lb_leases b) = lb_leases b" "j \<in> mkeys (lb_clients b)"
  proof
    assume "retirable est now (lb_leases b) j u"
    then have "c \<noteq> key_zero" "retirable est now (lb_leases b) c t" using p that by auto
    then show False
      using r that(1) by (auto simp: key_is_zero_def Let_def claim_retirement_def retirable_def split: if_splits)
  qed
qed

section \<open>The invariant is preserved\<close>

lemma mkeys_eq_of_map_fst: "map fst xs = map fst ys \<Longrightarrow> mkeys xs = mkeys ys"
  by (metis set_map)

lemma lb_inv_leases: "lb_inv b \<Longrightarrow> map fst ls = map fst (lb_leases b) \<Longrightarrow> lb_inv (b\<lparr>lb_leases := ls\<rparr>)"
  using mkeys_eq_of_map_fst [of ls "lb_leases b"] by (simp add: lb_inv_def)

lemma client_ok_mono: "client_ok i e \<Longrightarrow> i \<le> j \<Longrightarrow> client_ok j e"
  by (auto simp: client_ok_def)

text \<open>The invariant without the cap and the network map: what admission starts from, also in the
  middle of \<open>onMeow\<close>, after a retirement.\<close>

definition table_inv :: "backend \<Rightarrow> bool" where
  "table_inv b =
     (map_ok (lb_clients b) \<and> map_ok (lb_leases b) \<and> mkeys (lb_leases b) = mkeys (lb_clients b)
      \<and> (\<forall>e \<in> set (lb_clients b). client_ok (lb_next_id b) e)
      \<and> distinct (map (nd_id \<circ> snd) (lb_clients b)) \<and> lb_server_pub b = key_zero)"

lemma lb_inv_table: "lb_inv b \<Longrightarrow> table_inv b"
  by (simp add: lb_inv_def table_inv_def)

lemma table_inv_quiet: "table_inv b \<Longrightarrow> quiet b b' \<Longrightarrow> table_inv b'"
  using mkeys_eq_of_map_fst [of "lb_leases b'" "lb_leases b"] by (simp add: table_inv_def quiet_def)

lemma distinct_ids_mdel: "distinct (map f m) \<Longrightarrow> distinct (map f (mdel k m))"
  by (simp add: mdel_def distinct_map_filter)

lemma table_inv_mdel:
  "table_inv b \<Longrightarrow> map fst ls = map fst (lb_leases b) \<Longrightarrow>
     table_inv (b\<lparr>lb_clients := mdel k (lb_clients b), lb_leases := mdel k ls\<rparr>)"
  using mkeys_eq_of_map_fst [of ls "lb_leases b"]
  by (auto simp: table_inv_def set_mdel intro!: distinct_ids_mdel)

lemma admit_client_spec:
  assumes "table_inv b" "src \<notin> mkeys (lb_clients b)" "key_ok src" "src \<noteq> key_zero"
    "length (lb_clients b) < h3_max_clients" "admit_client hs now src disco b = Some (b', es, ok)"
  shows "lb_inv b'" "ok" "lb_clients b' = lb_clients b @ [(src, client_node (lb_next_id b') src disco (nd_home_derp (client_node (lb_next_id b') src disco (the (derp_region_id b)))))]"
    "lb_next_id b' = max (lb_next_id b + 1) 2" "mget (lb_leases b') src = Some (new_h3_client_lease hs now)"
    "\<exists>nm. lb_nm b' = Some nm \<and> es = [ESetNetworkMap (nm_self nm) (nm_peers nm), EUpdateIPs nm, EGoAdvertise]"
proof -
  let ?i = "max (lb_next_id b + 1) 2"
  obtain derp where d: "derp_region_id b = Some derp"
    using assms(6) by (cases "derp_region_id b") (auto simp: admit_client_def Let_def derp_region_id_def)
  have d': "derp_region_id (b\<lparr>lb_next_id := n, lb_leases := l\<rparr>) = Some derp" for n l
    using d by (simp add: derp_region_id_def)
  note a = assms(6) [unfolded admit_client_def Let_def d' option.case]
  have c: "lb_clients b' = lb_clients b @ [(src, client_node ?i src disco derp)]"
    using a assms(2) by (auto simp: mset_key_fresh)
  have n: "lb_next_id b' = ?i" using a by auto
  show "lb_next_id b' = ?i" by (rule n)
  show "lb_clients b' = lb_clients b @ [(src, client_node (lb_next_id b') src disco (nd_home_derp (client_node (lb_next_id b') src disco (the (derp_region_id b)))))]"
    using c n d by (simp add: client_node_def)
  show "ok" using a by auto
  show "mget (lb_leases b') src = Some (new_h3_client_lease hs now)" using a by auto
  show "\<exists>nm. lb_nm b' = Some nm \<and> es = [ESetNetworkMap (nm_self nm) (nm_peers nm), EUpdateIPs nm, EGoAdvertise]"
    using a by auto
  have ids: "nd_id (snd e) < ?i" if "e \<in> set (lb_clients b)" for e
    using assms(1) that by (auto simp: table_inv_def client_ok_def)
  have "client_ok ?i e" if "e \<in> set (lb_clients b')" for e
    using assms(1,3,4) that c client_ok_mono [of "lb_next_id b" e ?i]
    by (auto simp: table_inv_def client_ok_def client_node_def)
  moreover have "distinct (map (nd_id \<circ> snd) (lb_clients b'))"
    using assms(1) ids by (force simp: c client_node_def table_inv_def)
  moreover have "nm_peers nm = sort_key nd_id (map snd (lb_clients b'))" if "lb_nm b' = Some nm" for nm
    using a that by auto
  moreover have "map_ok (lb_clients b')" "mkeys (lb_clients b') = insert src (mkeys (lb_clients b))"
    "length (lb_clients b') \<le> h3_max_clients"
    using assms(1,2,5) c by (auto simp: table_inv_def)
  moreover have l: "lb_leases b' = mset_key src (new_h3_client_lease hs now) (lb_leases b)" using a by auto
  have "map_ok (lb_leases b')" using assms(1) by (simp add: l table_inv_def)
  moreover have "mkeys (lb_leases b') = insert src (mkeys (lb_leases b))" by (simp only: l mkeys_mset_key)
  moreover have "lb_server_pub b' = key_zero" using assms(1) a by (auto simp: table_inv_def)
  ultimately show "lb_inv b'" using assms(1) n by (auto simp: lb_inv_def table_inv_def)
qed

lemma admitted_node:
  assumes "table_inv b" "src \<notin> mkeys (lb_clients b)" "key_ok src" "src \<noteq> key_zero"
    "length (lb_clients b) < h3_max_clients" "admit_client hs now src disco b = Some (b', es, ok)"
  shows "\<exists>n. mget (lb_clients b') src = Some n \<and> nd_disco n = disco \<and> nd_id n = lb_next_id b'
    \<and> mkeys (lb_clients b') = insert src (mkeys (lb_clients b))"
proof -
  have "mget (lb_clients b) src = None" using assms(2) by (simp only: mget_None_iff simp_thms)
  then show ?thesis
    unfolding admit_client_spec(3) [OF assms] by (simp add: map_add_def) (simp add: client_node_def)
qed

text \<open>The branches of \<open>onMeow\<close>.\<close>

definition allowed_in :: "backend \<Rightarrow> key32 \<Rightarrow> bool" where
  "allowed_in b src = (case lb_allowed b of None \<Rightarrow> True | Some m \<Rightarrow> mget m src = Some True)"

lemma not_allowed_iff:
  "(case lb_allowed b of None \<Rightarrow> False | Some m \<Rightarrow> mget m src \<noteq> Some True) \<longleftrightarrow> \<not> allowed_in b src"
  by (simp add: allowed_in_def split: option.splits)

lemma on_meow_cases:
  assumes "on_meow est hs now now2 race gap src disco b = Some (b', es, ok)"
  obtains (refused) "\<not> allowed_in b src" "b' = b" "es = []" "\<not> ok"
  | (known) n where "allowed_in b src" "mget (lb_clients b) src = Some n" "b' = b" "es = []" "ok \<longleftrightarrow> nd_disco n = disco"
  | (full) "allowed_in b src" "src \<notin> mkeys (lb_clients b)" "h3_max_clients \<le> length (lb_clients b)"
      "retire_h3_client est now race b = (b', None)" "es = []" "\<not> ok"
  | (replaced) c k es' where "allowed_in b src" "src \<notin> mkeys (lb_clients b)" "h3_max_clients \<le> length (lb_clients b)"
      "retire_h3_client est now race b = (c, Some k)" "admit_client hs now2 src disco (gap c) = Some (b', es', ok)"
      "es = EResetPeer k # es'"
  | (fresh) "allowed_in b src" "src \<notin> mkeys (lb_clients b)" "length (lb_clients b) < h3_max_clients"
      "admit_client hs now2 src disco b = Some (b', es, ok)"
proof (cases "allowed_in b src")
  case False
  then have "on_meow est hs now now2 race gap src disco b = Some (b, [], False)"
    by (simp only: on_meow_def not_allowed_iff simp_thms if_True)
  then show ?thesis using assms False refused by simp
next
  case al: True
  show ?thesis
  proof (cases "mget (lb_clients b) src")
    case (Some n)
    with al have "on_meow est hs now now2 race gap src disco b = Some (b, [], nd_disco n = disco)"
      by (simp only: on_meow_def not_allowed_iff simp_thms if_False option.case)
    then show ?thesis using assms al Some known by simp
  next
    case None
    then have k: "src \<notin> mkeys (lb_clients b)" by (simp only: mget_None_iff simp_thms)
    show ?thesis
    proof (cases "h3_max_clients \<le> length (lb_clients b)")
      case False
      with al None have "on_meow est hs now now2 race gap src disco b = admit_client hs now2 src disco b"
        by (simp only: on_meow_def not_allowed_iff simp_thms if_False option.case)
      then show ?thesis using assms al k False fresh by simp
    next
      case room: True
      obtain c r where r: "retire_h3_client est now race b = (c, r)" by fastforce
      show ?thesis
      proof (cases r)
        case None
        with al room r \<open>mget (lb_clients b) src = None\<close>
        have "on_meow est hs now now2 race gap src disco b = Some (c, [], False)"
          by (simp only: on_meow_def not_allowed_iff simp_thms if_True if_False option.case prod.case)
        then show ?thesis using assms al k room r None full by simp
      next
        case (Some k')
        with al room r \<open>mget (lb_clients b) src = None\<close>
        have "on_meow est hs now now2 race gap src disco b =
            map_option (\<lambda>(b, es, ok). (b, EResetPeer k' # es, ok)) (admit_client hs now2 src disco (gap c))"
          by (simp only: on_meow_def not_allowed_iff simp_thms if_True if_False option.case prod.case)
        then obtain b'' es' ok' where "admit_client hs now2 src disco (gap c) = Some (b'', es', ok')"
            "(b', es, ok) = (b'', EResetPeer k' # es', ok')"
          using assms by (cases "admit_client hs now2 src disco (gap c)") auto
        then show ?thesis using al k room r Some replaced by simp
      qed
    qed
  qed
qed

lemma replaced_table:
  assumes "lb_inv b" "race_ok race" "\<And>c. quiet c (gap c)" "retire_h3_client est now race b = (c, Some k)"
  shows "table_inv (gap c)" "lb_clients (gap c) = mdel k (lb_clients b)"
    "length (lb_clients (gap c)) < h3_max_clients" "lb_next_id (gap c) = lb_next_id b"
proof -
  note r = retire_Some [OF assms(1,4)] and q = assms(3) [of c]
  have "table_inv c" unfolding r(2)
    by (rule table_inv_mdel) (use assms(1,2) in \<open>auto simp: race_ok_def lb_inv_table\<close>)
  then show "table_inv (gap c)" by (rule table_inv_quiet) (rule q)
  show c: "lb_clients (gap c) = mdel k (lb_clients b)" "lb_next_id (gap c) = lb_next_id b"
    using q r(2) by (simp_all add: quiet_def)
  show "length (lb_clients (gap c)) < h3_max_clients"
    using length_mdel_less [OF r(1)] assms(1) by (simp add: c lb_inv_def)
qed

lemma lb_inv_meow:
  assumes "lb_inv b" "race_ok race" "\<And>c. quiet c (gap c)" "key_ok src" "src \<noteq> key_zero"
    "on_meow est hs now now2 race gap src disco b = Some (b', es, ok)"
  shows "lb_inv b'"
  using assms(6)
proof (cases rule: on_meow_cases)
  case full
  have "lb_inv (b\<lparr>lb_leases := race (lb_leases b)\<rparr>)"
    using assms(1,2) by (intro lb_inv_leases) (simp_all add: race_ok_def)
  then show ?thesis using retire_None(1) [OF assms(1) full(4)] assms(1) by auto
next
  case (replaced c k es')
  note t = replaced_table [OF assms(1-3) replaced(4)]
  have "src \<notin> mkeys (lb_clients (gap c))" using replaced(2) by (simp only: t(2) mkeys_mdel) blast
  from admit_client_spec(1) [OF t(1) this assms(4,5) t(3) replaced(5)] show ?thesis .
next
  case fresh
  from admit_client_spec(1) [OF lb_inv_table [OF assms(1)] fresh(2) assms(4,5) fresh(3,4)] show ?thesis .
qed (use assms(1) in auto)

lemma lb_inv_step: "server_step est hs b b' \<Longrightarrow> lb_inv b \<Longrightarrow> lb_inv b'"
proof (induction rule: server_step.induct)
  case (meow now now2 race gap src disco b b' es ok)
  then show ?case by (blast intro: lb_inv_meow)
next
  case (session b peer state now)
  have k: "map fst (mset_key peer w (lb_leases b)) = map fst (lb_leases b)" if "mget (lb_leases b) peer = Some v" for v w
    using that unfolding mset_key_def
    by (induction "lb_leases b" arbitrary: b) (auto simp: mget_Some_key update_keys)
  show ?case using session k by (auto simp: on_h3_session_state_def lb_inv_leases split: option.splits)
next
  case (endpoints b st)
  then show ?case by (auto simp: on_engine_status_def lb_inv_def Let_def split: option.splits)
qed (auto simp: add_allowed_client_def lb_inv_def)

section \<open>The directory interface\<close>

text \<open>What the transport relies on: a state with an invariant that every step keeps, the peers it
  authorises, the sources each peer may use and the route of an outgoing packet.\<close>

locale peer_directory =
  fixes inv :: "'s \<Rightarrow> bool"
    and step :: "'s \<Rightarrow> 's \<Rightarrow> bool"
    and self :: "'s \<Rightarrow> 'k"
    and allowed :: "'s \<Rightarrow> 'k \<Rightarrow> bool"
    and source :: "'s \<Rightarrow> 'k \<Rightarrow> 'a \<Rightarrow> bool"
    and route :: "'s \<Rightarrow> 'a \<Rightarrow> 'k option"
    and wf :: "'a \<Rightarrow> bool"
  assumes inv_step: "inv s \<Longrightarrow> step s t \<Longrightarrow> inv t"
    and source_allowed: "inv s \<Longrightarrow> source s k a \<Longrightarrow> allowed s k \<and> k \<noteq> self s"
    and source_unique: "inv s \<Longrightarrow> wf a \<Longrightarrow> wf a' \<Longrightarrow> source s k a \<Longrightarrow> source s k a' \<Longrightarrow> a' = a"
    and source_routed: "inv s \<Longrightarrow> wf a \<Longrightarrow> source s k a \<Longrightarrow> route s a \<noteq> None"
    and route_source: "inv s \<Longrightarrow> route s a = Some k \<Longrightarrow> k \<noteq> self s \<Longrightarrow> source s k a"
begin

lemma inv_steps: "step\<^sup>*\<^sup>* s t \<Longrightarrow> inv s \<Longrightarrow> inv t"
  by (induction rule: rtranclp_induct) (auto intro: inv_step)

lemma reply_routed:
  assumes "inv s" "step\<^sup>*\<^sup>* s t" "wf a" "source t k a"
  shows "\<exists>k'. route t a = Some k' \<and> (k' \<noteq> self t \<longrightarrow> source t k' a \<and> allowed t k')"
proof -
  have i: "inv t" using inv_steps assms(1,2) by blast
  then obtain k' where "route t a = Some k'" using source_routed [OF i assms(3,4)] by blast
  then show ?thesis using route_source [OF i] source_allowed [OF i] by blast
qed

end

lemma peer_config_server: "lb_server_pub b = key_zero \<Longrightarrow> peer_config b k = map_option nd_allowed_ips (mget (lb_clients b) k)"
  by (simp add: peer_config_def key_is_zero_def split: option.splits)

lemma client_prefix:
  assumes "lb_inv b" "mget (lb_clients b) k = Some n"
  shows "nd_allowed_ips n = [pfx_of (tc_addr_for_key k)]" "key_ok k" "k \<noteq> key_zero" "nd_key n = k"
    "nd_addresses n = [pfx_of (tc_addr_for_key k)]"
  using assms mget_in_set [OF assms(2)] by (auto simp: lb_inv_def client_ok_def)

lemma source_policy_iff:
  assumes "lb_inv b" "ip_wf a"
  shows "source_policy b (lb_pub b) k a \<longleftrightarrow> k \<in> mkeys (lb_clients b) \<and> k \<noteq> lb_pub b \<and> a = tc_addr_for_key k"
proof (cases "mget (lb_clients b) k")
  case None
  then have "k \<notin> mkeys (lb_clients b)" by (simp only: mget_None_iff simp_thms)
  moreover have "peer_config b k = None"
    using assms(1) None by (simp add: lb_inv_def peer_config_server)
  ultimately show ?thesis by (simp add: source_policy_def)
next
  case (Some n)
  have k: "k \<in> mkeys (lb_clients b)" using Some by (rule mget_Some_key)
  note c = client_prefix [OF assms(1) Some]
  have "peer_config b k = Some [pfx_of (tc_addr_for_key k)]"
    using assms(1) Some c(1) by (simp add: lb_inv_def peer_config_server)
  then have "source_policy b (lb_pub b) k a \<longleftrightarrow> k \<noteq> lb_pub b \<and> pfx_contains (pfx_of (tc_addr_for_key k)) a"
    using c(3) by (simp add: source_policy_def key_is_zero_def eq_commute)
  then show ?thesis
    using pfx_of_tc_addr [OF c(2) _ assms(2)] pfx_of_tc_addr_self [OF c(2)] k by metis
qed

lemma source_policy_allowed: "source_policy b (lb_pub b) k a \<Longrightarrow> peer_policy b (lb_pub b) k \<and> k \<noteq> lb_pub b"
  by (auto simp: source_policy_def peer_policy_def split: if_splits option.splits)

lemma peer_by_ip_server:
  assumes "lb_inv b"
  shows "peer_by_ip b a = Some k \<Longrightarrow> k \<in> mkeys (lb_clients b) \<and> a = tc_addr_for_key k"
    "k \<in> mkeys (lb_clients b) \<Longrightarrow> peer_by_ip b (tc_addr_for_key k) \<noteq> None"
proof -
  have s: "peer_by_ip b a = map_option fst (find (\<lambda>(k, n). tc_addr_for_key k = a) (lb_clients b))" for a
    using assms by (simp add: peer_by_ip_def lb_inv_def key_is_zero_def)
  show "k \<in> mkeys (lb_clients b) \<and> a = tc_addr_for_key k" if f: "peer_by_ip b a = Some k"
  proof -
    obtain e where "find (\<lambda>(k, n). tc_addr_for_key k = a) (lb_clients b) = Some e" "k = fst e"
      using f by (auto simp: s)
    then have "e \<in> set (lb_clients b)" "k = fst e" "tc_addr_for_key (fst e) = a"
      by (auto simp: find_Some_iff dest: sym intro: nth_mem)
    then show ?thesis by blast
  qed
  show "peer_by_ip b (tc_addr_for_key k) \<noteq> None" if m: "k \<in> mkeys (lb_clients b)"
  proof -
    obtain n where "(k, n) \<in> set (lb_clients b)" using m by auto
    then show ?thesis by (auto simp: s find_None_iff)
  qed
qed

lemma tc_addr_wf_client: "lb_inv b \<Longrightarrow> k \<in> mkeys (lb_clients b) \<Longrightarrow> ip_wf (tc_addr_for_key k)"
  by (auto simp: lb_inv_def client_ok_def tc_addr_wf)

interpretation server_directory: peer_directory lb_inv "server_step est hs" lb_pub
  "\<lambda>b. peer_policy b (lb_pub b)" "\<lambda>b. source_policy b (lb_pub b)" peer_by_ip ip_wf
proof
  show "lb_inv t" if "lb_inv s" "server_step est hs s t" for s t
    by (rule lb_inv_step [OF that(2,1)])
  show "peer_policy s (lb_pub s) k \<and> k \<noteq> lb_pub s" if "source_policy s (lb_pub s) k a" for s k a
    by (rule source_policy_allowed [OF that])
  show "a' = a" if "lb_inv s" "ip_wf a" "ip_wf a'" "source_policy s (lb_pub s) k a" "source_policy s (lb_pub s) k a'" for s k a a'
    using that by (simp add: source_policy_iff)
  show "peer_by_ip s a \<noteq> None" if "lb_inv s" "ip_wf a" "source_policy s (lb_pub s) k a" for s k a
    using that source_policy_iff [of s a k] peer_by_ip_server(2) [of s k] by simp
  show "source_policy s (lb_pub s) k a" if "lb_inv s" "peer_by_ip s a = Some k" "k \<noteq> lb_pub s" for s k a
    using that peer_by_ip_server(1) [of s a k] source_policy_iff [of s a k] tc_addr_wf_client [of s k] by simp
qed

section \<open>Correctness\<close>

lemma lb_inv_started:
  assumes "loco_start True True mc ((new_loco_backend priv pub psk nonce dp)\<lparr>lb_dm := dm, lb_allowed := al\<rparr>) = Some (b, es, None)"
  shows "lb_inv b"
proof -
  let ?b = "(new_loco_backend priv pub psk nonce dp)\<lparr>lb_dm := dm, lb_allowed := al\<rparr>"
  obtain nm where nm: "start_netmap mc ?b = Some nm" "b = ?b\<lparr>lb_nm := Some nm\<rparr>"
    using assms by (auto simp: loco_start_def Let_def split: option.splits)
  then have "nm_peers nm = []"
    by (auto simp: start_netmap_def new_loco_backend_def Let_def key_is_zero_def split: option.splits)
  then show ?thesis by (simp add: nm(2) lb_inv_def new_loco_backend_def Let_def h3_max_clients_def)
qed

text \<open>C2. From a started server on, whatever sequence of announcements, session callbacks,
  allow-list additions and endpoint changes arrives: at most 256 identities are retained, exactly
  the retained ones have a lease, their node ids are distinct, each node carries its own key and
  only its own address, and the network map lists all of them in the order of their ids.\<close>

theorem server_table_sound:
  assumes "loco_start True True mc ((new_loco_backend priv pub psk nonce dp)\<lparr>lb_dm := dm, lb_allowed := al\<rparr>) = Some (b0, es, None)"
    "(server_step est hs)\<^sup>*\<^sup>* b0 b"
  shows "length (lb_clients b) \<le> 256 \<and> map_ok (lb_clients b) \<and> mkeys (lb_leases b) = mkeys (lb_clients b)
    \<and> distinct (map (nd_id \<circ> snd) (lb_clients b))
    \<and> (\<forall>(k, n) \<in> set (lb_clients b). nd_key n = k \<and> 2 \<le> nd_id n \<and> nd_id n \<le> lb_next_id b
          \<and> nd_addresses n = [pfx_of (tc_addr_for_key k)] \<and> nd_allowed_ips n = [pfx_of (tc_addr_for_key k)])
    \<and> (\<forall>nm. lb_nm b = Some nm \<longrightarrow> nm_peers nm = sort_key nd_id (map snd (lb_clients b)))"
proof -
  have "lb_inv b" by (rule server_directory.inv_steps [OF assms(2) lb_inv_started [OF assms(1)]])
  then show ?thesis by (auto simp: lb_inv_def client_ok_def h3_max_clients_def)
qed

definition sample_region :: derp_region where
  "sample_region = \<lparr>dr_id = 9, dr_code = ''fra'', dr_name = ''Frankfurt'', dr_latitude = 0, dr_longitude = 0, dr_nodes = [sample_node]\<rparr>"

definition sample_server :: backend where
  "sample_server =
     (new_loco_backend (replicate 32 1) (replicate 32 2) (replicate 32 3) (replicate 32 4) (replicate 32 5))
       \<lparr>lb_dm := Some [(9, sample_region)], lb_allowed := None\<rparr>"

definition sample_started :: backend where
  "sample_started = (case loco_start True True (replicate 32 5) sample_server of Some (b, _) \<Rightarrow> b | None \<Rightarrow> sample_server)"

lemma sample_started_eq:
  "\<exists>es. loco_start True True (replicate 32 5) sample_server = Some (sample_started, es, None)"
proof -
  have "derp_region_id sample_server = Some 9"
    by (simp add: derp_region_id_def sample_server_def sample_region_def)
  then show ?thesis by (simp add: sample_started_def loco_start_def start_netmap_def Let_def)
qed

lemma sample_started_fields:
  "lb_clients sample_started = []" "lb_allowed sample_started = None" "lb_dm sample_started = Some [(9, sample_region)]"
  by (simp_all add: sample_started_def loco_start_def start_netmap_def Let_def derp_region_id_def sample_region_def
      sample_server_def new_loco_backend_def)

lemma sample_inv: "lb_inv sample_started"
  using sample_started_eq lb_inv_started unfolding sample_server_def by blast

definition sample_client :: key32 where "sample_client = replicate 32 7"

definition sample_joined :: backend where
  "sample_joined =
     (case on_meow 4 2 0 0 (\<lambda>ls. ls) (\<lambda>b. b) sample_client (replicate 32 8) sample_started of
        Some (b, _) \<Rightarrow> b | None \<Rightarrow> sample_started)"

lemma sample_join:
  "on_meow 4 2 0 0 (\<lambda>ls. ls) (\<lambda>b. b) sample_client (replicate 32 8) sample_started
     = admit_client 2 0 sample_client (replicate 32 8) sample_started"
  "\<exists>es. admit_client 2 0 sample_client (replicate 32 8) sample_started = Some (sample_joined, es, True)"
proof -
  note c = sample_started_fields
  show e: "on_meow 4 2 0 0 (\<lambda>ls. ls) (\<lambda>b. b) sample_client (replicate 32 8) sample_started
     = admit_client 2 0 sample_client (replicate 32 8) sample_started"
    by (simp add: on_meow_def c h3_max_clients_def)
  show "\<exists>es. admit_client 2 0 sample_client (replicate 32 8) sample_started = Some (sample_joined, es, True)"
    unfolding sample_joined_def e by (simp add: admit_client_def Let_def derp_region_id_def c sample_region_def)
qed

lemma sample_client_ok: "key_ok sample_client" "sample_client \<noteq> key_zero"
  by (simp_all add: sample_client_def key_ok_def key_zero_def)

lemma sample_step: "server_step 4 2 sample_started sample_joined"
proof -
  obtain es where "on_meow 4 2 0 0 (\<lambda>ls. ls) (\<lambda>b. b) sample_client (replicate 32 8) sample_started = Some (sample_joined, es, True)"
    using sample_join by auto
  then show ?thesis by (rule server_step.meow) (auto simp: sample_client_ok)
qed

lemma sample_joined_clients: "mkeys (lb_clients sample_joined) = {sample_client}"
proof -
  obtain es where a: "admit_client 2 0 sample_client (replicate 32 8) sample_started = Some (sample_joined, es, True)"
    using sample_join by blast
  note c = sample_started_fields
  have "lb_clients sample_joined = lb_clients sample_started @ [(sample_client, client_node (lb_next_id sample_joined) sample_client (replicate 32 8)
      (nd_home_derp (client_node (lb_next_id sample_joined) sample_client (replicate 32 8) (the (derp_region_id sample_started)))))]"
    by (rule admit_client_spec(3) [OF lb_inv_table [OF sample_inv] _ sample_client_ok _ a]) (simp_all add: c h3_max_clients_def)
  then show ?thesis by (simp add: c)
qed

theorem server_table_sound_witness:
  "(server_step 4 2)\<^sup>*\<^sup>* sample_started sample_joined \<and> mkeys (lb_leases sample_joined) = {sample_client}"
proof -
  obtain es where "loco_start True True (replicate 32 5) sample_server = Some (sample_started, es, None)"
    using sample_started_eq by blast
  note s = server_table_sound [OF this [unfolded sample_server_def], of 4 2 sample_joined]
  have r: "(server_step 4 2)\<^sup>*\<^sup>* sample_started sample_joined" using sample_step by blast
  show ?thesis using s [OF r] r sample_joined_clients by auto
qed

text \<open>C4. On a sound server the source policy is exact: a packet from address a is accepted from
  peer k exactly when k is a retained client other than the server itself and a is the one
  address derived from k's key; the reply to an accepted source is routed, and only to a peer
  that may use that address.\<close>

theorem source_policy_exact:
  assumes "lb_inv b" "(server_step est hs)\<^sup>*\<^sup>* b c" "ip_wf a"
  shows "(source_policy c (lb_pub c) k a \<longleftrightarrow>
            k \<in> mkeys (lb_clients c) \<and> k \<noteq> lb_pub c \<and> a = tc_addr_for_key k)
    \<and> (source_policy c (lb_pub c) k a \<longrightarrow>
         (\<exists>j. peer_by_ip c a = Some j \<and> (j \<noteq> lb_pub c \<longrightarrow> source_policy c (lb_pub c) j a \<and> peer_policy c (lb_pub c) j)))"
proof -
  have "lb_inv c" by (rule server_directory.inv_steps [OF assms(2,1)])
  then show ?thesis
    using source_policy_iff [OF _ assms(3)] server_directory.reply_routed [OF assms(1,2,3)] by blast
qed

theorem source_policy_exact_witness:
  "source_policy sample_joined (lb_pub sample_joined) sample_client (tc_addr_for_key sample_client) \<longleftrightarrow>
     sample_client \<noteq> lb_pub sample_joined"
proof -
  have r: "(server_step 4 2)\<^sup>*\<^sup>* sample_started sample_joined" using sample_step by blast
  have "ip_wf (tc_addr_for_key sample_client)" using sample_client_ok by (simp add: tc_addr_wf)
  from source_policy_exact [OF sample_inv r this, of sample_client] show ?thesis
    by (simp only: sample_joined_clients simp_thms singleton_iff)
qed



text \<open>C3. The answer to an announcement, on every branch: outside the allow list nothing changes and
  the answer is no; a retained client is answered by whether its discovery key agrees, and
  nothing changes; otherwise, if the answer is yes the client is retained under a fresh id with a
  lease of that moment, the map and the addresses were published, and at most one other identity
  was removed and its transport reset; if the answer is no the table is full and unchanged.\<close>

theorem on_meow_outcome:
  assumes "lb_inv b" "race_ok race" "\<And>c. quiet c (gap c)" "key_ok src" "src \<noteq> key_zero"
    "on_meow est hs now now2 race gap src disco b = Some (b', es, ok)"
  shows "(\<not> allowed_in b src \<longrightarrow> b' = b \<and> es = [] \<and> \<not> ok)
    \<and> (\<forall>n. allowed_in b src \<longrightarrow> mget (lb_clients b) src = Some n \<longrightarrow> b' = b \<and> es = [] \<and> (ok \<longleftrightarrow> nd_disco n = disco))
    \<and> (allowed_in b src \<longrightarrow> src \<notin> mkeys (lb_clients b) \<longrightarrow>
         (if ok then
            (\<exists>n nm tail. mget (lb_clients b') src = Some n \<and> nd_disco n = disco \<and> nd_id n = max (lb_next_id b + 1) 2
               \<and> lb_next_id b' = nd_id n \<and> mget (lb_leases b') src = Some (new_h3_client_lease hs now2)
               \<and> lb_nm b' = Some nm
               \<and> es = tail @ [ESetNetworkMap (nm_self nm) (nm_peers nm), EUpdateIPs nm, EGoAdvertise]
               \<and> (tail = [] \<and> mkeys (lb_clients b') = insert src (mkeys (lb_clients b))
                  \<or> (\<exists>k \<in> mkeys (lb_clients b). tail = [EResetPeer k] \<and> length (lb_clients b) = 256
                        \<and> mkeys (lb_clients b') = insert src (mkeys (lb_clients b) - {k}))))
          else lb_clients b' = lb_clients b \<and> es = [] \<and> length (lb_clients b) = 256))"
  using assms(6)
proof (cases rule: on_meow_cases)
  case full
  have "mget (lb_clients b) src = None" using full(2) by (simp only: mget_None_iff simp_thms)
  moreover have "length (lb_clients b) = 256" using assms(1) full(3) by (simp add: lb_inv_def h3_max_clients_def)
  moreover have "lb_clients b' = lb_clients b" using retire_None(1) [OF assms(1) full(4)] by auto
  ultimately show ?thesis using full by simp
next
  case (known n)
  then show ?thesis by (auto dest: mget_Some_key)
next
  case (replaced c k es')
  note t = replaced_table [OF assms(1-3) replaced(4)] and r = retire_Some(1) [OF assms(1) replaced(4)]
  have s: "src \<notin> mkeys (lb_clients (gap c))" using replaced(2) by (simp only: t(2) mkeys_mdel) blast
  note a = admit_client_spec [OF t(1) s assms(4,5) t(3) replaced(5)]
  obtain n where n: "mget (lb_clients b') src = Some n" "nd_disco n = disco" "nd_id n = lb_next_id b'"
    "mkeys (lb_clients b') = insert src (mkeys (lb_clients (gap c)))"
    using admitted_node [OF t(1) s assms(4,5) t(3) replaced(5)] by blast
  obtain nm where nm: "lb_nm b' = Some nm" "es' = [ESetNetworkMap (nm_self nm) (nm_peers nm), EUpdateIPs nm, EGoAdvertise]"
    using a(6) by blast
  have "mkeys (lb_clients b') = insert src (mkeys (lb_clients b) - {k})"
    by (simp only: n(4) t(2) mkeys_mdel)
  moreover have "length (lb_clients b) = 256" using assms(1) replaced(3) by (simp add: lb_inv_def h3_max_clients_def)
  moreover have "mget (lb_clients b) src = None" using replaced(2) by (simp only: mget_None_iff simp_thms)
  ultimately show ?thesis
    using n(1-3) nm a(2,4,5) r t(4) replaced(1,6) by (intro conjI impI) (simp_all, blast?)
next
  case fresh
  note a = admit_client_spec [OF lb_inv_table [OF assms(1)] fresh(2) assms(4,5) fresh(3,4)]
  obtain n where n: "mget (lb_clients b') src = Some n" "nd_disco n = disco" "nd_id n = lb_next_id b'"
    "mkeys (lb_clients b') = insert src (mkeys (lb_clients b))"
    using admitted_node [OF lb_inv_table [OF assms(1)] fresh(2) assms(4,5) fresh(3,4)] by blast
  moreover have "mget (lb_clients b) src = None" using fresh(2) by (simp only: mget_None_iff simp_thms)
  ultimately show ?thesis
    using a(2,4-6) fresh(1) by (intro conjI impI) (simp_all, blast?)
qed (use assms(1) in \<open>auto dest: mget_Some_key\<close>)

theorem on_meow_outcome_witness:
  "\<exists>n es. on_meow 4 2 0 0 (\<lambda>ls. ls) (\<lambda>b. b) sample_client (replicate 32 8) sample_started = Some (sample_joined, es, True)
     \<and> mget (lb_clients sample_joined) sample_client = Some n \<and> nd_disco n = replicate 32 8"
proof -
  obtain es where e: "on_meow 4 2 0 0 (\<lambda>ls. ls) (\<lambda>b. b) sample_client (replicate 32 8) sample_started = Some (sample_joined, es, True)"
    using sample_join by auto
  have "allowed_in sample_started sample_client" "sample_client \<notin> mkeys (lb_clients sample_started)"
    by (simp_all add: allowed_in_def sample_started_fields)
  with on_meow_outcome [OF sample_inv _ _ sample_client_ok e] e show ?thesis by auto
qed

lemma admit_identity:
  "admit_client hs now src disco b = Some (b', es, ok) \<Longrightarrow> lb_psk b' = lb_psk b \<and> lb_pub b' = lb_pub b"
  by (auto simp: admit_client_def Let_def split: option.splits)

lemma on_meow_identity:
  assumes "lb_inv b" "\<And>c. quiet c (gap c)" "on_meow est hs now now2 race gap src disco b = Some (b', es, ok)"
  shows "lb_psk b' = lb_psk b \<and> lb_pub b' = lb_pub b"
  using assms(3)
proof (cases rule: on_meow_cases)
  case full
  then show ?thesis using retire_None(1) [OF assms(1) full(4)] by auto
next
  case (replaced c k es')
  then show ?thesis
    using admit_identity [OF replaced(5)] assms(2) [of c] retire_Some(2) [OF assms(1) replaced(4)] by (simp add: quiet_def)
next
  case fresh
  then show ?thesis using admit_identity by blast
qed simp_all

text \<open>The bootstrap handshake completes: the announcement a client encodes starts an admission
  worker whenever one is free, and if the admission says yes the worker sends exactly one
  acknowledgement, back to the announced region, which that client, and only with its own secret
  and nonce, accepts.\<close>

theorem meow_handshake:
  assumes "\<And>k m. length (hmac k m) = 32" "lb_inv b" "\<And>c. quiet c (gap c)" "key_ok src" "key_ok disco" "length nonce = 32"
    "pkt = encode_h3_meow hmac (lb_psk b) (lb_pub b) src disco nonce False" "pkt \<noteq> []" "slots < meow_slots"
    "on_meow est hs now now2 race gap src disco b = Some (b', es, True)"
  shows "server_derp_recv hmac b slots region src pkt = (True, Suc slots, Some (region, src, disco, nonce))
    \<and> (\<exists>ack. meow_worker hmac est hs now now2 race gap (region, src, disco, nonce) b = Some (b', es, [(src, region, ack)])
         \<and> parse_h3_meow hmac ack (lb_psk b) (lb_pub b) src True = Some (disco, nonce)
         \<and> parse_h3_meow hmac ack (lb_psk b) (lb_pub b) src False = None)"
proof -
  have p: "parse_h3_meow hmac pkt (lb_psk b) (lb_pub b) src False = Some (disco, nonce)"
    unfolding assms(7) by (rule parse_encode_h3_meow [OF assms(4,5,6) assms(1) assms(8) [unfolded assms(7)]])
  then have m: "is_h3_meow pkt" using parse_h3_meow_magic by blast
  let ?ack = "encode_h3_meow hmac (lb_psk b) (lb_pub b) src disco nonce True"
  have "?ack \<noteq> []"
    using assms(8) unfolding assms(7) encode_h3_meow_nonempty_iff by simp
  then have a: "parse_h3_meow hmac ?ack (lb_psk b) (lb_pub b) src True = Some (disco, nonce)"
    by (intro parse_encode_h3_meow assms(1,4-6))
  have "parse_h3_meow hmac ?ack (lb_psk b) (lb_pub b) src False = None"
  proof (rule ccontr)
    assume "parse_h3_meow hmac ?ack (lb_psk b) (lb_pub b) src False \<noteq> None"
    then have "?ack ! 4 = direction False" using parse_h3_meow_magic by blast
    moreover have "?ack ! 4 = direction True" using parse_h3_meow_magic [OF a] by blast
    ultimately show False by (simp add: direction_def)
  qed
  then show ?thesis
    using p m a assms(9,10) on_meow_identity [OF assms(2,3,10)]
    by (simp add: server_derp_recv_def meow_worker_def)
qed

theorem meow_handshake_witness:
  "snd (snd (server_derp_recv toy_hmac sample_started 0 9 sample_client
      (encode_h3_meow toy_hmac (lb_psk sample_started) (lb_pub sample_started) sample_client (replicate 32 8) (replicate 32 6) False)))
    = Some (9, sample_client, replicate 32 8, replicate 32 6)"
proof -
  obtain es where e: "on_meow 4 2 0 0 (\<lambda>ls. ls) (\<lambda>b. b) sample_client (replicate 32 8) sample_started = Some (sample_joined, es, True)"
    using sample_join by auto
  have i: "lb_psk sample_started = replicate 32 3" "lb_pub sample_started = replicate 32 2"
    by (simp_all add: sample_started_def loco_start_def start_netmap_def Let_def derp_region_id_def sample_region_def
      sample_server_def new_loco_backend_def)
  have n: "encode_h3_meow toy_hmac (lb_psk sample_started) (lb_pub sample_started) sample_client (replicate 32 8) (replicate 32 6) False \<noteq> []"
    by (simp add: encode_h3_meow_nonempty_iff i sample_client_ok) (simp add: key_zero_def)
  have "key_ok (replicate 32 (8 :: byte))" "0 < meow_slots" by (simp_all add: key_ok_def meow_slots_def)
  from meow_handshake [OF toy_hmac_length sample_inv _ sample_client_ok(1) this(1) _ refl n this(2) e]
  show ?thesis by simp
qed

text \<open>C10. Nothing but an authenticated announcement reaches admission: a worker is started only for a
  packet that encodes, under the server's secret and key, the sender it arrived from, and never
  more than 32 at a time; a packet that is neither kind of announcement is left to others.\<close>

theorem derp_recv_authentic:
  "server_derp_recv hmac b slots region src pkt = (handled, slots', job) \<Longrightarrow> slots \<le> 32 \<Longrightarrow>
     slots' \<le> 32 \<and> (handled \<longleftrightarrow> is_h3_meow pkt \<or> is_meow_packet pkt)
     \<and> (case job of None \<Rightarrow> slots' = slots
        | Some (r, k, disco, nonce) \<Rightarrow>
            r = region \<and> k = src \<and> slots' = Suc slots
            \<and> pkt = encode_h3_meow hmac (lb_psk b) (lb_pub b) src disco nonce False
            \<and> lb_psk b \<noteq> key_zero \<and> key_ok src \<and> src \<noteq> key_zero \<and> key_ok disco)"
  by (auto simp: server_derp_recv_def meow_slots_def split: if_splits option.splits
      dest: parse_h3_meow_Some_D)

theorem derp_recv_authentic_witness:
  "server_derp_recv toy_hmac sample_started 0 9 sample_client [1, 2, 3, 4] = (False, 0, None)"
  using derp_recv_authentic [of toy_hmac sample_started 0 9 sample_client "[1, 2, 3, 4]"]
  by (simp add: server_derp_recv_def is_h3_meow_def h3_meow_magic_def is_meow_packet_def meow_magic_def)

text \<open>An engine report leaves the sorted, duplicate-free list of the reported endpoints in the
  backend, and peers are told exactly when that list changed and is not empty; reporting the
  same endpoints again, in any order and multiplicity, is silent.\<close>

theorem on_engine_status_spec:
  assumes "on_engine_status (Some addrs) b = (b', es)" "set addrs' = set addrs"
  shows "sorted_wrt (<) (lb_eps b') \<and> set (lb_eps b') = set addrs
    \<and> es = (if lb_eps b' \<noteq> lb_eps b \<and> addrs \<noteq> [] then [EGoAdvertise] else [])
    \<and> on_engine_status (Some addrs') b' = (b', [])"
proof -
  note sr = strict_sorted_compact [where 'a = addrport]
  have eq: "remdups_adj (sort addrs') = remdups_adj (sort addrs)"
    by (rule strict_sorted_equal) (use assms(2) sr in auto)
  have e: "lb_eps b' = remdups_adj (sort addrs)"
    using assms(1) by (auto simp: on_engine_status_def Let_def split: if_splits)
  have ne: "remdups_adj (sort addrs) = [] \<longleftrightarrow> addrs = []" by (metis remdups_adj_Nil_iff set_empty set_sort)
  have "es = (if lb_eps b' \<noteq> lb_eps b \<and> addrs \<noteq> [] then [EGoAdvertise] else [])"
    using assms(1) e ne by (auto simp: on_engine_status_def Let_def split: if_splits)
  then show ?thesis using e sr eq by (simp add: on_engine_status_def Let_def)
qed

theorem on_engine_status_spec_witness:
  "on_engine_status (Some [(IP4 [10, 0, 0, 1], 80)])
     (fst (on_engine_status (Some [(IP4 [10, 0, 0, 1], 80), (IP4 [10, 0, 0, 1], 80)]) sample_started)) =
   (fst (on_engine_status (Some [(IP4 [10, 0, 0, 1], 80), (IP4 [10, 0, 0, 1], 80)]) sample_started), [])"
  using on_engine_status_spec [of "[(IP4 [10, 0, 0, 1], 80), (IP4 [10, 0, 0, 1], 80)]" sample_started _ _ "[(IP4 [10, 0, 0, 1], 80)]"]
  by (metis (no_types, lifting) list.set(2) insert_absorb2 prod.collapse)

end
