(* ===== verification/DerpMap.thy ===== *)
theory DerpMap
  imports Wire Leases
begin

text \<open>
  Fetching, caching and expanding DERP maps: \<open>FetchDERPMap\<close>, \<open>fetchDERPMap\<close>, \<open>Expand\<close>,
  \<open>Resolve\<close> and \<open>PickBestRegion\<close>, the process-wide memory cache of \<open>tailcat.go\<close> and the disk
  cache of \<open>cmd/tailcat/tailcat.go\<close>. A cache is an interface (the locale \<open>derp_cache\<close>) that both
  caches implement. The JSON decoder, the HTTP exchange, the netcheck report, the random choices
  and the clock are parameters; the payload of a file or of a response is a Go string.
\<close>

type_synonym derp_map = "(int, derp_region) gomap"

definition default_derp_map_url :: string where
  "default_derp_map_url = ''https://tailcat.dev/derpmap.json''"

definition derp_map_cache_max_age :: int where "derp_map_cache_max_age = 3600 * sec_ns"

definition decode_derp_map :: "(string \<Rightarrow> derp_map option) \<Rightarrow> string \<Rightarrow> derp_map option" where
  "decode_derp_map json data = (if data = [] then None else json data)"

section \<open>The cache interface\<close>

text \<open>A cache gives back what was stored last under a URL, with the time of the store; it may
  normalise the ETag.\<close>

locale derp_cache =
  fixes get :: "'c \<Rightarrow> string \<Rightarrow> (string \<times> string \<times> int) option"
    and put :: "int \<Rightarrow> string \<Rightarrow> string \<Rightarrow> string \<Rightarrow> 'c \<Rightarrow> 'c"
    and norm :: "string \<Rightarrow> string"
  assumes get_put: "get (put now url data etag c) url = Some (data, norm etag, now)"
    and get_put_other: "url' \<noteq> url \<Longrightarrow> get (put now url data etag c) url' = get c url'"

section \<open>Fetching\<close>

datatype http_response = HttpFailed | Http nat string "string option"

record http_request =
  rq_url :: string
  rq_mode :: string
  rq_if_none_match :: string

datatype fetch_error = FetchBadRequest | FetchFailed | FetchStatus nat | FetchBody | FetchInvalid string
  | UnknownOption

definition cached_copy ::
  "('c \<Rightarrow> string \<Rightarrow> (string \<times> string \<times> int) option) \<Rightarrow> (string \<Rightarrow> derp_map option) \<Rightarrow> string \<Rightarrow> 'c
     \<Rightarrow> (string \<times> string \<times> int \<times> derp_map) option" where
  "cached_copy get json url c =
     (case get c url of
        None \<Rightarrow> None
      | Some (data, etag, stored_at) \<Rightarrow>
          (case decode_derp_map json data of None \<Rightarrow> None | Some dm \<Rightarrow> Some (data, etag, stored_at, dm)))"

definition stale_or :: "('a \<times> 'b \<times> 'd \<times> derp_map) option \<Rightarrow> fetch_error \<Rightarrow> fetch_error + derp_map" where
  "stale_or cached err = (case cached of Some (data, etag, stored_at, dm) \<Rightarrow> Inr dm | None \<Rightarrow> Inl err)"

text \<open>The part of \<open>fetchDERPMap\<close> after the freshness check.\<close>

definition fetch_fresh ::
  "(int \<Rightarrow> string \<Rightarrow> string \<Rightarrow> string \<Rightarrow> 'c \<Rightarrow> 'c) \<Rightarrow> (string \<Rightarrow> derp_map option) \<Rightarrow> (string \<Rightarrow> bool)
     \<Rightarrow> (http_request \<Rightarrow> http_response) \<Rightarrow> int \<Rightarrow> string \<Rightarrow> string
     \<Rightarrow> (string \<times> string \<times> int \<times> derp_map) option \<Rightarrow> 'c \<Rightarrow> 'c \<times> (fetch_error + derp_map)" where
  "fetch_fresh put json request_ok http now2 url mode cached c =
     (if \<not> request_ok url then (c, Inl FetchBadRequest)
      else
        let etag = (case cached of Some (d, e, t, dm) \<Rightarrow> e | None \<Rightarrow> [])
        in (case http \<lparr>rq_url = url, rq_mode = mode, rq_if_none_match = etag\<rparr> of
              HttpFailed \<Rightarrow> (c, stale_or cached FetchFailed)
            | Http status new_etag body \<Rightarrow>
                if status = 304 \<and> cached \<noteq> None then
                  (case the cached of (data, e, t, dm) \<Rightarrow> (put now2 url data e c, Inr dm))
                else if status \<noteq> 200 then (c, stale_or cached (FetchStatus status))
                else
                  (case body of
                     None \<Rightarrow> (c, stale_or cached FetchBody)
                   | Some b \<Rightarrow>
                       let b = take (8 * 1024 * 1024) b
                       in (case decode_derp_map json b of
                             None \<Rightarrow> (c, stale_or cached (FetchInvalid url))
                           | Some dm \<Rightarrow> (put now2 url b new_etag c, Inr dm)))))"

text \<open>\<open>fetchDERPMap\<close>: \<open>now\<close> is the time of the freshness check and \<open>now2\<close> the time of the store.\<close>

definition fetch_derp_map ::
  "('c \<Rightarrow> string \<Rightarrow> (string \<times> string \<times> int) option) \<Rightarrow> (int \<Rightarrow> string \<Rightarrow> string \<Rightarrow> string \<Rightarrow> 'c \<Rightarrow> 'c)
     \<Rightarrow> (string \<Rightarrow> derp_map option) \<Rightarrow> (string \<Rightarrow> bool) \<Rightarrow> (http_request \<Rightarrow> http_response) \<Rightarrow> int \<Rightarrow> int
     \<Rightarrow> string \<Rightarrow> string \<Rightarrow> 'c \<Rightarrow> 'c \<times> (fetch_error + derp_map)" where
  "fetch_derp_map get put json request_ok http now now2 url mode c =
     (let cached = cached_copy get json url c
      in (case cached of
            Some (data, etag, stored_at, dm) \<Rightarrow>
              if go_sub now stored_at < derp_map_cache_max_age then (c, Inr dm)
              else fetch_fresh put json request_ok http now2 url mode cached c
          | None \<Rightarrow> fetch_fresh put json request_ok http now2 url mode cached c))"

text \<open>What is left for the cache's client to know, from its interface alone.\<close>

context derp_cache
begin

text \<open>After a fetch that reached the server, the same URL is served from the cache for an hour,
  whatever the network does.\<close>

lemma fetch_then_cached:
  assumes "fetch_fresh put json ok http now2 url mode None c = (c', Inr dm)"
    "go_sub now3 now2 < derp_map_cache_max_age"
  shows "fetch_derp_map get put json ok' http' now3 now4 url mode' c' = (c', Inr dm)"
proof -
  obtain data e where p: "c' = put now2 url data e c" "decode_derp_map json data = Some dm"
    using assms(1)
    by (auto simp: fetch_fresh_def Let_def stale_or_def split: if_splits http_response.splits option.splits)
  then have "cached_copy get json url c' = Some (data, norm e, now2, dm)"
    by (simp add: cached_copy_def get_put)
  then show ?thesis using assms(2) by (simp add: fetch_derp_map_def)
qed

text \<open>A fetch never touches another URL's entry.\<close>

lemma fetch_other:
  "url' \<noteq> url \<Longrightarrow> get (fst (fetch_derp_map get put json ok http now now2 url mode c)) url' = get c url'"
  by (auto simp: fetch_derp_map_def fetch_fresh_def Let_def get_put_other
      split: if_splits http_response.splits option.splits)

end

section \<open>The memory cache\<close>

definition mem_get :: "(string, string \<times> string \<times> int) gomap \<Rightarrow> string \<Rightarrow> (string \<times> string \<times> int) option" where
  "mem_get m url = mget m url"

definition mem_put ::
  "int \<Rightarrow> string \<Rightarrow> string \<Rightarrow> string \<Rightarrow> (string, string \<times> string \<times> int) gomap \<Rightarrow> (string, string \<times> string \<times> int) gomap" where
  "mem_put now url data etag m = mset_key url (data, etag, now) m"

interpretation mem_cache: derp_cache mem_get mem_put "\<lambda>e. e"
  by unfold_locales (simp_all add: mem_get_def mem_put_def)

section \<open>The disk cache\<close>

text \<open>A file system maps a path to the contents and the modification time.\<close>

type_synonym fs = "(string, string \<times> int) gomap"

text \<open>\<open>url.QueryEscape\<close>.\<close>

definition upper_hex :: string where "upper_hex = ''0123456789ABCDEF''"

definition query_keep :: "char \<Rightarrow> bool" where
  "query_keep c = (is_alnum c \<or> c \<in> set ''-_.~'')"

definition query_escape_char :: "char \<Rightarrow> string" where
  "query_escape_char c =
     (if query_keep c then [c]
      else if c = CHR '' '' then ''+''
      else [CHR ''%'', upper_hex ! (of_char c div 16), upper_hex ! (of_char c mod 16)])"

definition query_escape :: "string \<Rightarrow> string" where
  "query_escape s = concat (map query_escape_char s)"

definition disk_base :: "string \<Rightarrow> string \<Rightarrow> string" where
  "disk_base dir url = dir @ ''/tailcat/derpmap-'' @ query_escape url"

text \<open>\<open>derpMapCache.paths\<close>; None is a failure of \<open>os.UserCacheDir\<close>.\<close>

definition disk_paths :: "string option \<Rightarrow> string \<Rightarrow> (string \<times> string) option" where
  "disk_paths dir url =
     (case dir of None \<Rightarrow> None | Some d \<Rightarrow> Some (disk_base d url @ ''.json'', disk_base d url @ ''.etag''))"

definition disk_get :: "string option \<Rightarrow> fs \<Rightarrow> string \<Rightarrow> (string \<times> string \<times> int) option" where
  "disk_get dir fs url =
     (case disk_paths dir url of
        None \<Rightarrow> None
      | Some (data_path, etag_path) \<Rightarrow>
          (case mget fs data_path of
             None \<Rightarrow> None
           | Some (data, mtime) \<Rightarrow>
               Some (data, (case mget fs etag_path of Some (v, t) \<Rightarrow> trim_space v | None \<Rightarrow> []), mtime)))"

text \<open>The outcome of the three operations that can fail: making the directory and writing the two
  files. A failed write leaves the file as it was.\<close>

definition disk_put ::
  "string option \<Rightarrow> bool \<Rightarrow> bool \<Rightarrow> bool \<Rightarrow> int \<Rightarrow> string \<Rightarrow> string \<Rightarrow> string \<Rightarrow> fs \<Rightarrow> fs \<times> bool" where
  "disk_put dir mkdir_ok data_ok etag_ok now url data etag fs =
     (case disk_paths dir url of
        None \<Rightarrow> (fs, False)
      | Some (data_path, etag_path) \<Rightarrow>
          if \<not> mkdir_ok then (fs, False)
          else if \<not> data_ok then (fs, False)
          else
            let fs = mset_key data_path (data, now) fs
            in if etag = [] then (mdel etag_path fs, True)
               else if etag_ok then (mset_key etag_path (etag, now) fs, True) else (fs, False))"

lemma upper_hex_inj: "i < 16 \<Longrightarrow> j < 16 \<Longrightarrow> upper_hex ! i = upper_hex ! j \<Longrightarrow> i = j"
proof -
  have "distinct upper_hex" "length upper_hex = 16" by (simp_all add: upper_hex_def)
  then show "i < 16 \<Longrightarrow> j < 16 \<Longrightarrow> upper_hex ! i = upper_hex ! j \<Longrightarrow> i = j"
    by (simp add: nth_eq_iff_index_eq)
qed

lemma of_char_lt [simp]: "(of_char c :: nat) < 256"
  by (rule nat_of_char_less_256)

lemma query_escape_char_inj:
  "query_escape_char c @ xs = query_escape_char d @ ys \<Longrightarrow> c = d \<and> xs = ys"
proof -
  assume a: "query_escape_char c @ xs = query_escape_char d @ ys"
  have k: "\<not> query_keep (CHR ''%'')" "\<not> query_keep (CHR ''+'')" by (simp_all add: query_keep_def is_alnum_def is_lower_def is_upper_def is_digit_def)
  have "c = d" if "\<not> query_keep c" "c \<noteq> CHR '' ''" "\<not> query_keep d" "d \<noteq> CHR '' ''"
  proof -
    have "(of_char c :: nat) div 16 < 16" "(of_char d :: nat) div 16 < 16"
      using of_char_lt [of c] of_char_lt [of d] by linarith+
    then have "(of_char c :: nat) div 16 = of_char d div 16" "(of_char c :: nat) mod 16 = of_char d mod 16"
      using a that by (auto simp: query_escape_char_def intro: upper_hex_inj)
    then have "(of_char c :: nat) = of_char d" by (metis div_mult_mod_eq)
    then show ?thesis by simp
  qed
  then show ?thesis using a k by (auto simp: query_escape_char_def split: if_splits)
qed

lemma query_escape_inj [simp]: "query_escape s = query_escape t \<longleftrightarrow> s = t"
proof
  have ne: "query_escape_char c \<noteq> []" for c by (simp add: query_escape_char_def)
  show "query_escape s = query_escape t \<Longrightarrow> s = t"
  proof (induction s arbitrary: t)
    case Nil
    then show ?case by (cases t) (auto simp: query_escape_def ne)
  next
    case (Cons c s)
    then obtain d t' where "t = d # t'" by (cases t) (auto simp: query_escape_def ne)
    then show ?case using Cons query_escape_char_inj [of c "query_escape s" d "query_escape t'"]
      by (simp add: query_escape_def)
  qed
qed simp

lemma disk_base_inj [simp]: "disk_base d u = disk_base d v \<longleftrightarrow> u = v"
  by (simp add: disk_base_def)

lemma trim_space_Nil [simp]: "trim_space [] = []"
  using trim_space_set [of "[]"] by simp

lemma suffix_neq: "a @ ''.json'' \<noteq> b @ ''.etag''"
proof
  assume "a @ ''.json'' = b @ ''.etag''"
  then have "last (a @ ''.json'') = last (b @ ''.etag'')" by (rule arg_cong)
  then show False by simp
qed

text \<open>When no file operation fails, the disk cache keeps the contract of a cache, with the ETag
  trimmed of white space.\<close>

interpretation disk_cache: derp_cache "disk_get (Some dir)"
  "\<lambda>now url data etag fs. fst (disk_put (Some dir) True True True now url data etag fs)" trim_space
proof
  show "disk_get (Some dir) (fst (disk_put (Some dir) True True True now url data etag c)) url = Some (data, trim_space etag, now)"
    for now url data etag c
    using suffix_neq [of "disk_base dir url" "disk_base dir url"]
    by (simp add: disk_get_def disk_put_def disk_paths_def Let_def trim_space_Nil)
  show "disk_get (Some dir) (fst (disk_put (Some dir) True True True now url data etag c)) url' = disk_get (Some dir) c url'"
    if "url' \<noteq> url" for url url' now data etag c
    using that suffix_neq [of "disk_base dir url" "disk_base dir url'"] suffix_neq [of "disk_base dir url'" "disk_base dir url"]
    by (auto simp: disk_get_def disk_put_def disk_paths_def Let_def split: option.splits)
qed

section \<open>Options\<close>

datatype 'c fetch_option = OptURL string | OptServer | OptCache 'c | OptMap derp_map | OptOther

text \<open>The option loops of \<open>FetchDERPMap\<close>, which does not know a DERP map option, and of \<open>Expand\<close>.\<close>

fun fetch_options :: "'c fetch_option list \<Rightarrow> string \<times> string \<times> 'c option \<Rightarrow> (string \<times> string \<times> 'c option) option" where
  "fetch_options [] (url, mode, cache) = Some (url, mode, cache)"
| "fetch_options (OptURL u # os) (url, mode, cache) = fetch_options os (u, mode, cache)"
| "fetch_options (OptServer # os) (url, mode, cache) = fetch_options os (url, ''server'', cache)"
| "fetch_options (OptCache c # os) (url, mode, cache) = fetch_options os (url, mode, Some c)"
| "fetch_options (OptMap m # os) (url, mode, cache) = None"
| "fetch_options (OptOther # os) (url, mode, cache) = None"

text \<open>\<open>fetch url mode cache w\<close> stands for \<open>fetchDERPMap\<close> on the world of caches.\<close>

definition fetch_derp_map_opts ::
  "(string \<Rightarrow> string \<Rightarrow> 'c option \<Rightarrow> 'w \<Rightarrow> 'w \<times> (fetch_error + derp_map)) \<Rightarrow> 'c fetch_option list \<Rightarrow> 'w
     \<Rightarrow> 'w \<times> (fetch_error + derp_map)" where
  "fetch_derp_map_opts fetch opts w =
     (case fetch_options opts (default_derp_map_url, ''client'', None) of
        None \<Rightarrow> (w, Inl UnknownOption)
      | Some (url, mode, cache) \<Rightarrow> fetch url mode cache w)"

fun expand_options ::
  "'c fetch_option list \<Rightarrow> string \<times> string \<times> derp_map option \<times> 'c option
     \<Rightarrow> (string \<times> string \<times> derp_map option \<times> 'c option) option" where
  "expand_options [] st = Some st"
| "expand_options (OptURL u # os) (url, mode, dm, cache) = expand_options os (u, mode, dm, cache)"
| "expand_options (OptServer # os) (url, mode, dm, cache) = expand_options os (url, ''server'', dm, cache)"
| "expand_options (OptCache c # os) (url, mode, dm, cache) = expand_options os (url, mode, dm, Some c)"
| "expand_options (OptMap m # os) (url, mode, dm, cache) = expand_options os (url, mode, Some m, cache)"
| "expand_options (OptOther # os) st = None"

section \<open>Choosing a region\<close>

text \<open>\<open>PickBestRegion\<close> over the netcheck report: region and latency, in the order of the range loop.\<close>

fun best_latency :: "derp_map \<Rightarrow> (int \<times> int) list \<Rightarrow> int \<times> int \<Rightarrow> int \<times> int" where
  "best_latency dm [] best = best"
| "best_latency dm ((rid, d) # ls) (best, region) =
     (if mget dm rid = None then best_latency dm ls (best, region)
      else if d < best then best_latency dm ls (d, rid)
      else best_latency dm ls (best, region))"

datatype expand_error = ExpandOption | ExpandFetch fetch_error | ExpandNetcheck | ExpandNoRegions
  | ExpandNoSuchRegion int | ExpandNilRegion

definition pick_best_region :: "(int \<times> int) list option \<Rightarrow> derp_map \<Rightarrow> expand_error + int" where
  "pick_best_region report dm =
     (case report of
        None \<Rightarrow> Inl ExpandNetcheck
      | Some latencies \<Rightarrow> Inr (snd (best_latency dm latencies (3600 * sec_ns, 0))))"

text \<open>The js/wasm build cannot probe.\<close>

definition pick_best_region_js :: "derp_map \<Rightarrow> expand_error + int" where
  "pick_best_region_js dm = Inr 0"

definition default_ids :: "derp_region \<Rightarrow> derp_region" where
  "default_ids r =
     (let r = (if dr_id r = 0 then r\<lparr>dr_id := 1\<rparr> else r)
      in r\<lparr>dr_nodes := map (\<lambda>n. if dn_region_id n = 0 then n\<lparr>dn_region_id := dr_id r\<rparr> else n) (dr_nodes r)\<rparr>)"

definition shuffle_regions :: "(int \<Rightarrow> derp_node list \<Rightarrow> derp_node list) \<Rightarrow> derp_map \<Rightarrow> derp_map" where
  "shuffle_regions shuffle dm = map (\<lambda>(k, r). (k, r\<lparr>dr_nodes := shuffle k (dr_nodes r)\<rparr>)) dm"

text \<open>The part of \<open>Expand\<close> after the DERP map is at hand.\<close>

definition expand_from ::
  "(derp_map \<Rightarrow> expand_error + int) \<Rightarrow> (int \<Rightarrow> derp_node list \<Rightarrow> derp_node list) \<Rightarrow> (nat \<Rightarrow> nat) \<Rightarrow> derp_map
     \<Rightarrow> conn_info \<Rightarrow> expand_error + conn_info" where
  "expand_from pick shuffle rnd dm ci =
     (if ci_region_id ci = -1 then
        let dm = shuffle_regions shuffle dm
        in (case pick dm of
              Inl e \<Rightarrow> Inl e
            | Inr region_id \<Rightarrow>
                if region_id \<noteq> 0 then
                  (case mget dm region_id of
                     None \<Rightarrow> Inl ExpandNilRegion
                   | Some r \<Rightarrow> Inr (ci\<lparr>ci_region_id := 0, ci_region := [r]\<rparr>))
                else
                  let ids = sort (map fst dm)
                  in if ids = [] then Inl ExpandNoRegions
                     else
                       (case mget dm (ids ! rnd (length ids)) of
                          None \<Rightarrow> Inl ExpandNilRegion
                        | Some r \<Rightarrow> Inr (ci\<lparr>ci_region_id := 0, ci_region := ci_region ci @ [r]\<rparr>)))
      else
        (case mget dm (ci_region_id ci) of
           None \<Rightarrow> Inl (ExpandNoSuchRegion (ci_region_id ci))
         | Some r \<Rightarrow> Inr (ci\<lparr>ci_region := ci_region ci @ [r]\<rparr>)))"

definition expand ::
  "(string \<Rightarrow> string \<Rightarrow> 'c option \<Rightarrow> 'w \<Rightarrow> 'w \<times> (fetch_error + derp_map)) \<Rightarrow> (derp_map \<Rightarrow> expand_error + int)
     \<Rightarrow> (int \<Rightarrow> derp_node list \<Rightarrow> derp_node list) \<Rightarrow> (nat \<Rightarrow> nat) \<Rightarrow> 'c fetch_option list \<Rightarrow> conn_info \<Rightarrow> 'w
     \<Rightarrow> 'w \<times> (expand_error + conn_info)" where
  "expand fetch pick shuffle rnd opts ci w =
     (case expand_options opts (default_derp_map_url, ''client'', None, None) of
        None \<Rightarrow> (w, Inl ExpandOption)
      | Some (url, mode, dm, cache) \<Rightarrow>
          let ci = ci\<lparr>ci_region := map default_ids (ci_region ci)\<rparr>
          in if ci_region ci \<noteq> [] \<or> ci_region_id ci = 0 then (w, Inr ci)
             else
               (case dm of
                  Some m \<Rightarrow> (w, expand_from pick shuffle rnd m ci)
                | None \<Rightarrow>
                    (case fetch url mode cache w of
                       (w, Inl e) \<Rightarrow> (w, Inl (ExpandFetch e))
                     | (w, Inr m) \<Rightarrow> (w, expand_from pick shuffle rnd m ci))))"

section \<open>Resolving an address\<close>

datatype resolve_error = ResolveParse addr_error | ResolveExpand expand_error | ResolvePanic

definition resolve_addr ::
  "(wire_conn_info \<Rightarrow> bytes option) \<Rightarrow> (bytes \<Rightarrow> wire_conn_info option) \<Rightarrow> (conn_info \<Rightarrow> 'w \<Rightarrow> 'w \<times> (expand_error + conn_info))
     \<Rightarrow> string \<Rightarrow> 'w \<Rightarrow> 'w \<times> (resolve_error + string)" where
  "resolve_addr marshal unmarshal expand_ci a w =
     (case parse_conn_addr unmarshal a of
        Inl e \<Rightarrow> (w, Inl (ResolveParse e))
      | Inr ci \<Rightarrow>
          if ci_region ci \<noteq> [] then (w, Inr a)
          else
            (case expand_ci ci w of
               (w, Inl e) \<Rightarrow> (w, Inl (ResolveExpand e))
             | (w, Inr ci) \<Rightarrow>
                 let ci = ci\<lparr>ci_region := map (\<lambda>r. r\<lparr>dr_nodes := take 2 (dr_nodes r)\<rparr>) (ci_region ci), ci_region_id := 0\<rparr>
                 in (w, case conn_addr marshal ci of None \<Rightarrow> Inl ResolvePanic | Some b \<Rightarrow> Inr b)))"

section \<open>Correctness\<close>

text \<open>The freshness policy: a valid copy younger than an hour is returned without any request; an
  older one is revalidated with its ETag, and then a 304 answer restores it with a new time of
  store, while a failed exchange, an unexpected status, an unreadable or an invalid body leaves
  the cache alone and serves the stale copy; so with a valid copy no fetch of a well-formed URL
  ever fails.\<close>

theorem fetch_policy:
  assumes "cached_copy get json url c = Some (data, etag, t, dm)" "request_ok url"
    "fetch_derp_map get put json request_ok http now now2 url mode c = (c', r)"
  shows "if go_sub now t < derp_map_cache_max_age then c' = c \<and> r = Inr dm
    else (case http \<lparr>rq_url = url, rq_mode = mode, rq_if_none_match = etag\<rparr> of
            HttpFailed \<Rightarrow> c' = c \<and> r = Inr dm
          | Http status new_etag body \<Rightarrow>
              (status = 304 \<longrightarrow> c' = put now2 url data etag c \<and> r = Inr dm)
              \<and> (status \<noteq> 304 \<longrightarrow> status \<noteq> 200 \<or> body = None \<longrightarrow> c' = c \<and> r = Inr dm)
              \<and> (\<forall>b. status = 200 \<longrightarrow> body = Some b \<longrightarrow>
                   (case decode_derp_map json (take 8388608 b) of
                      None \<Rightarrow> c' = c \<and> r = Inr dm
                    | Some m \<Rightarrow> c' = put now2 url (take 8388608 b) new_etag c \<and> r = Inr m)))"
  using assms
  by (auto simp: fetch_derp_map_def fetch_fresh_def stale_or_def Let_def split: http_response.splits option.splits if_splits)

definition sample_json :: "string \<Rightarrow> derp_map option" where
  "sample_json s = (if s = ''{}'' then Some [] else None)"

theorem fetch_policy_witness:
  "fetch_derp_map mem_get mem_put sample_json (\<lambda>u. True) (\<lambda>r. HttpFailed) (7200 * sec_ns) 0 ''u'' ''client''
     [(''u'', ''{}'', ''tag'', 0)] = ([(''u'', ''{}'', ''tag'', 0)], Inr [])"
proof -
  obtain c' r where f: "fetch_derp_map mem_get mem_put sample_json (\<lambda>u. True) (\<lambda>r. HttpFailed) (7200 * sec_ns) 0 ''u'' ''client''
     [(''u'', ''{}'', ''tag'', 0)] = (c', r)" by fastforce
  have "cached_copy mem_get sample_json ''u'' [(''u'', ''{}'', ''tag'', 0)] = Some (''{}'', ''tag'', 0, [])"
    by (simp add: cached_copy_def mem_get_def decode_derp_map_def sample_json_def)
  from fetch_policy [OF this _ f] f show ?thesis by (simp split: if_splits)
qed

text \<open>The disk cache serves a fetched map for an hour, whatever the network does then: after a
  fetch that found nothing stored and got a map, the next fetch of the URL within the hour
  gives the same map from the files alone, and a fetch of any other URL leaves the entry as it
  is.\<close>

theorem fetched_map_is_cached:
  assumes "fetch_fresh (\<lambda>now url data etag fs. fst (disk_put (Some dir) True True True now url data etag fs))
      json ok http now2 url mode None fs = (fs', Inr dm)"
    "go_sub now3 now2 < derp_map_cache_max_age" "url' \<noteq> url"
  shows "fetch_derp_map (disk_get (Some dir))
      (\<lambda>now url data etag fs. fst (disk_put (Some dir) True True True now url data etag fs))
      json ok' http' now3 now4 url mode' fs' = (fs', Inr dm)
    \<and> disk_get (Some dir) (fst (fetch_derp_map (disk_get (Some dir))
        (\<lambda>now url data etag fs. fst (disk_put (Some dir) True True True now url data etag fs))
        json ok' http' now3 now4 url' mode' fs')) url = disk_get (Some dir) fs' url"
  using disk_cache.fetch_then_cached [OF assms(1,2)] disk_cache.fetch_other [OF assms(3) [symmetric]] by blast

theorem fetched_map_is_cached_witness:
  "\<exists>fs. fetch_fresh (\<lambda>now url data etag fs. fst (disk_put (Some ''/c'') True True True now url data etag fs))
      sample_json (\<lambda>u. True) (\<lambda>r. Http 200 ''tag'' (Some ''{}'')) 0 ''u'' ''client'' None [] = (fs, Inr [])
    \<and> fetch_derp_map (disk_get (Some ''/c''))
      (\<lambda>now url data etag fs. fst (disk_put (Some ''/c'') True True True now url data etag fs))
      sample_json (\<lambda>u. True) (\<lambda>r. HttpFailed) sec_ns 0 ''u'' ''client'' fs = (fs, Inr [])"
proof -
  have f: "fetch_fresh (\<lambda>now url data etag fs. fst (disk_put (Some ''/c'') True True True now url data etag fs))
      sample_json (\<lambda>u. True) (\<lambda>r. Http 200 ''tag'' (Some ''{}'')) 0 ''u'' ''client'' None [] =
      (fst (disk_put (Some ''/c'') True True True 0 ''u'' ''{}'' ''tag'' []), Inr [])"
    by (simp add: fetch_fresh_def decode_derp_map_def sample_json_def)
  have "go_sub sec_ns 0 < derp_map_cache_max_age"
    by (simp add: go_sub_def derp_map_cache_max_age_def sec_ns_def)
  from fetched_map_is_cached [OF f this, where url' = "''v''"] f show ?thesis by blast
qed

section \<open>Lemmas on the choice of a region\<close>

lemma best_latency_spec:
  "best_latency dm ls (b, r) = (b', r') \<Longrightarrow>
     b' \<le> b \<and> ((b' = b \<and> r' = r) \<or> (b' < b \<and> (r', b') \<in> set ls \<and> mget dm r' \<noteq> None))
     \<and> (\<forall>(k, d) \<in> set ls. mget dm k \<noteq> None \<longrightarrow> b' \<le> d)"
proof (induction dm ls "(b, r)" arbitrary: b r rule: best_latency.induct)
  case (2 dm rid d ls best region)
  show ?case
  proof (cases "mget dm rid = None")
    case True
    then show ?thesis using 2 by auto
  next
    case f: False
    show ?thesis
    proof (cases "d < best")
      case True
      then have "best_latency dm ls (d, rid) = (b', r')" using 2(4) f by simp
      from 2(2) [OF f True this] True f show ?thesis by auto
    next
      case False
      then have "best_latency dm ls (best, region) = (b', r')" using 2(4) f by simp
      from 2(3) [OF f False this] False f show ?thesis by auto
    qed
  qed
qed auto

lemma shuffle_regions_mget: "mget (shuffle_regions shuffle dm) k = map_option (\<lambda>r. r\<lparr>dr_nodes := shuffle k (dr_nodes r)\<rparr>) (mget dm k)"
  by (induction dm) (auto simp: shuffle_regions_def)

lemma shuffle_regions_keys: "map fst (shuffle_regions shuffle dm) = map fst dm"
  by (induction dm) (auto simp: shuffle_regions_def)

text \<open>The region picked from a latency report is a region of the map whose measured latency is
  below an hour and no higher than that of any other measured region of the map; zero means that
  no region of the map was measured below an hour.\<close>

theorem pick_best_region_minimal:
  assumes "pick_best_region (Some report) dm = Inr region" "mget dm 0 = None"
  shows "(region \<noteq> 0 \<longrightarrow> mget dm region \<noteq> None
       \<and> (\<exists>d. (region, d) \<in> set report \<and> d < 3600 * sec_ns
            \<and> (\<forall>(k, e) \<in> set report. mget dm k \<noteq> None \<longrightarrow> d \<le> e)))
    \<and> (region = 0 \<longleftrightarrow> (\<forall>(k, e) \<in> set report. mget dm k \<noteq> None \<longrightarrow> 3600 * sec_ns \<le> e))"
proof -
  obtain b where b: "best_latency dm report (3600 * sec_ns, 0) = (b, region)"
    using assms(1) by (cases "best_latency dm report (3600 * sec_ns, 0)") (auto simp: pick_best_region_def)
  note s = best_latency_spec [OF b]
  show ?thesis
  proof (cases "region = 0")
    case True
    then have "b = 3600 * sec_ns" using s assms(2) by auto
    then show ?thesis using True s by auto
  next
    case False
    then have m: "b < 3600 * sec_ns" "(region, b) \<in> set report" "mget dm region \<noteq> None" using s by auto
    then have "\<not> (\<forall>(k, e) \<in> set report. mget dm k \<noteq> None \<longrightarrow> 3600 * sec_ns \<le> e)" by force
    then show ?thesis using False m s by blast
  qed
qed

theorem pick_best_region_minimal_witness:
  "pick_best_region (Some [(1, 50), (2, 20), (3, 10)]) [(1, \<lparr>dr_id = 1, dr_code = [], dr_name = [], dr_latitude = 0, dr_longitude = 0, dr_nodes = [sample_node]\<rparr>),
      (2, \<lparr>dr_id = 2, dr_code = [], dr_name = [], dr_latitude = 0, dr_longitude = 0, dr_nodes = [sample_node]\<rparr>)] = Inr 2"
proof -
  have e: "pick_best_region (Some [(1, 50), (2, 20), (3, 10)]) [(1, \<lparr>dr_id = 1, dr_code = [], dr_name = [], dr_latitude = 0, dr_longitude = 0, dr_nodes = [sample_node]\<rparr>),
      (2, \<lparr>dr_id = 2, dr_code = [], dr_name = [], dr_latitude = 0, dr_longitude = 0, dr_nodes = [sample_node]\<rparr>)] = Inr 2"
    by (simp add: pick_best_region_def sec_ns_def)
  from pick_best_region_minimal [OF e] e show ?thesis by simp
qed

section \<open>Expansion and resolution\<close>

definition same_identity :: "conn_info \<Rightarrow> conn_info \<Rightarrow> bool" where
  "same_identity a b =
     (ci_server_public a = ci_server_public b \<and> ci_disco a = ci_disco b \<and> ci_psk a = ci_psk b)"

definition picks_member :: "(derp_map \<Rightarrow> expand_error + int) \<Rightarrow> bool" where
  "picks_member pick =
     (\<forall>dm. (\<forall>r. pick dm = Inr r \<longrightarrow> r \<noteq> 0 \<longrightarrow> mget dm r \<noteq> None) \<and> pick dm \<noteq> Inl ExpandNilRegion)"

lemma picks_member_report: "picks_member (\<lambda>dm. pick_best_region (report dm) dm)"
proof -
  have "mget dm (snd (best_latency dm ls (3600 * sec_ns, 0))) \<noteq> None \<or> snd (best_latency dm ls (3600 * sec_ns, 0)) = 0" for dm ls
    using best_latency_spec [of dm ls "3600 * sec_ns" 0] by (metis prod.collapse)
  then show ?thesis by (auto simp: picks_member_def pick_best_region_def split: option.splits)
qed

lemma picks_member_js: "picks_member pick_best_region_js"
  by (simp add: picks_member_def pick_best_region_js_def)

lemma expand_from_sound:
  assumes "picks_member pick" "\<And>n. 0 < n \<Longrightarrow> rnd n < n"
  shows "expand_from pick shuffle rnd dm ci \<noteq> Inl ExpandNilRegion"
    "expand_from pick shuffle rnd dm ci = Inr ci' \<Longrightarrow> ci_region ci' \<noteq> [] \<and> same_identity ci' ci"
proof -
  have member: "mget m (sort (map fst m) ! rnd (length m)) \<noteq> None" if "m \<noteq> []" for m :: derp_map
  proof -
    have "sort (map fst m) ! rnd (length m) \<in> set (sort (map fst m))"
      using assms(2) [of "length m"] that by (intro nth_mem) simp
    then show ?thesis by (simp add: map_of_eq_None_iff)
  qed
  have empty: "sort (map fst m) = [] \<longleftrightarrow> m = []" for m :: derp_map
    by (metis map_is_Nil_conv set_empty set_sort)
  show "expand_from pick shuffle rnd dm ci \<noteq> Inl ExpandNilRegion"
  proof -
    let ?m = "shuffle_regions shuffle dm"
    have "pick ?m \<noteq> Inl ExpandNilRegion" "pick ?m = Inr r \<Longrightarrow> r \<noteq> 0 \<Longrightarrow> mget ?m r \<noteq> None" for r
      using assms(1) unfolding picks_member_def by blast+
    then show ?thesis
      using member [of ?m] empty [of ?m]
      by (cases "pick ?m") (auto simp: expand_from_def Let_def split: option.splits)
  qed
  show "ci_region ci' \<noteq> [] \<and> same_identity ci' ci" if "expand_from pick shuffle rnd dm ci = Inr ci'"
    using that by (auto simp: expand_from_def Let_def same_identity_def split: sum.splits option.splits if_splits)
qed

lemma expand_sound:
  assumes "picks_member pick" "\<And>n. 0 < n \<Longrightarrow> rnd n < n" "expand fetch pick shuffle rnd opts ci w = (w', r)"
  shows "r \<noteq> Inl ExpandNilRegion"
    "r = Inr ci' \<Longrightarrow> (ci_region ci' \<noteq> [] \<or> ci_region_id ci = 0) \<and> same_identity ci' ci"
    "ci_region ci \<noteq> [] \<or> ci_region_id ci = 0 \<Longrightarrow> w' = w"
    "ci_region ci \<noteq> [] \<Longrightarrow> r = Inr ci' \<Longrightarrow> \<forall>x \<in> set (ci_region ci'). dr_id x \<noteq> 0 \<and> (\<forall>n \<in> set (dr_nodes x). dn_region_id n \<noteq> 0)"
proof -
  let ?ci = "ci\<lparr>ci_region := map default_ids (ci_region ci)\<rparr>"
  have ids: "\<forall>x \<in> set (map default_ids rs). dr_id x \<noteq> 0 \<and> (\<forall>n \<in> set (dr_nodes x). dn_region_id n \<noteq> 0)" for rs
    by (auto simp: default_ids_def Let_def)
  show "r \<noteq> Inl ExpandNilRegion"
    using assms(3) expand_from_sound(1) [OF assms(1,2)]
    by (auto simp: expand_def Let_def split: option.splits prod.splits sum.splits if_splits)
  show "(ci_region ci' \<noteq> [] \<or> ci_region_id ci = 0) \<and> same_identity ci' ci" if "r = Inr ci'"
  proof -
    have "same_identity ?ci ci" by (simp add: same_identity_def)
    moreover have "r = Inr ?ci \<and> (ci_region ?ci \<noteq> [] \<or> ci_region_id ci = 0) \<or> (\<exists>m. r = expand_from pick shuffle rnd m ?ci)"
      using assms(3) that by (auto simp: expand_def Let_def split: option.splits prod.splits sum.splits if_splits intro: sym)
    moreover have "ci_region ci' \<noteq> [] \<and> same_identity ci' ?ci" if "r = expand_from pick shuffle rnd m ?ci" for m
      using expand_from_sound(2) [OF assms(1,2), of shuffle m ?ci ci'] that \<open>r = Inr ci'\<close> by simp
    ultimately show ?thesis using that by (auto simp: same_identity_def)
  qed
  show "w' = w" if "ci_region ci \<noteq> [] \<or> ci_region_id ci = 0"
    using assms(3) that by (auto simp: expand_def Let_def split: option.splits prod.splits if_splits)
  show "\<forall>x \<in> set (ci_region ci'). dr_id x \<noteq> 0 \<and> (\<forall>n \<in> set (dr_nodes x). dn_region_id n \<noteq> 0)"
    if "ci_region ci \<noteq> []" "r = Inr ci'"
    using assms(3) that ids [of "ci_region ci"]
    by (auto simp: expand_def Let_def split: option.splits prod.splits if_splits)
qed

lemma enumerate_Nil_iff: "enumerate n xs = [] \<longleftrightarrow> xs = []"
  by (metis length_0_conv length_enumerate)

text \<open>C18. Resolving makes an address self-contained: the result parses to the same keys and secret
  with at least one region of at most two relay nodes and no region id, and resolving it again
  returns it unchanged without touching the world. An address that already embeds its regions is
  returned as it is.\<close>

theorem resolve_self_contained:
  assumes "resolve_addr marshal unmarshal (expand fetch pick shuffle rnd opts) a w = (w', Inr b)"
    "picks_member pick" "\<And>n. 0 < n \<Longrightarrow> rnd n < n" "parse_conn_addr unmarshal a = Inr ci" "ci_region_id ci \<noteq> 0"
    "\<And>c x. marshal (wire_of c) = Some x \<Longrightarrow> unmarshal x = Some (wire_of c)" "length b \<le> 65536"
  shows "(\<exists>cb. parse_conn_addr unmarshal b = Inr cb \<and> same_identity cb ci \<and> ci_region cb \<noteq> []
       \<and> (ci_region ci = [] \<longrightarrow> ci_region_id cb = 0 \<and> (\<forall>r \<in> set (ci_region cb). length (dr_nodes r) \<le> 2)))
     \<and> resolve_addr marshal unmarshal expand_ci b v = (v, Inr b)"
proof (cases "ci_region ci = []")
  case False
  then have "b = a" using assms(1,4) by (simp add: resolve_addr_def)
  then show ?thesis using False assms(4) by (simp add: resolve_addr_def same_identity_def)
next
  case True
  let ?cut = "\<lambda>c :: conn_info. c\<lparr>ci_region := map (\<lambda>r. r\<lparr>dr_nodes := take 2 (dr_nodes r)\<rparr>) (ci_region c), ci_region_id := 0\<rparr>"
  obtain c where e: "expand fetch pick shuffle rnd opts ci w = (w', Inr c)" and b: "conn_addr marshal (?cut c) = Some b"
    using assms(1,4) True
    by (auto simp: resolve_addr_def Let_def split: prod.splits sum.splits option.splits)
  note x = expand_sound(2) [OF assms(2,3) e refl]
  have ad: "addressable (?cut c)"
    using parse_conn_addr_keys [OF assms(4)] x by (simp add: addressable_def same_identity_def)
  obtain y where y: "marshal (wire_of (?cut c)) = Some y" using b by (auto simp: conn_addr_def split: option.splits)
  have "parse_wire unmarshal b = Inr (wire_of (?cut c))"
    by (rule parse_wire_encode [where marshal = marshal and x = y]) (use ad y assms(6) [OF y] b assms(7) in blast)+
  then have p: "parse_conn_addr unmarshal b = Inr (carried (?cut c))" by (rule parse_conn_addr_wire_of [OF ad])
  have ne: "ci_region (carried (?cut c)) \<noteq> []" using x assms(5) True by (simp add: carried_def enumerate_Nil_iff)
  have "length (dr_nodes r) \<le> 2" if r: "r \<in> set (ci_region (carried (?cut c)))" for r
  proof -
    obtain i r' where "r = carried_region i r'" "r' \<in> set (ci_region (?cut c))"
      using r by (auto simp: carried_def in_set_enumerate_eq)
    then obtain ns where "dr_nodes r = map (carried_node i) (filter (\<lambda>n. \<not> dn_stun_only n) (take 2 ns))"
      by (auto simp: carried_region_def)
    then show ?thesis using length_filter_le [of "\<lambda>n. \<not> dn_stun_only n" "take 2 ns"] by simp
  qed
  moreover have "resolve_addr marshal unmarshal expand_ci b v = (v, Inr b)" using p ne by (simp add: resolve_addr_def)
  moreover have "same_identity (carried (?cut c)) ci" "ci_region_id (carried (?cut c)) = 0"
    using x by (simp_all add: carried_def same_identity_def)
  ultimately show ?thesis using p ne by blast
qed

definition sample_unresolved :: conn_info where
  "sample_unresolved = sample_info\<lparr>ci_region := [], ci_region_id := 9\<rparr>"

definition sample_marshal :: "wire_conn_info \<Rightarrow> bytes option" where
  "sample_marshal w =
     (if w = wire_of sample_unresolved then Some [1] else if w = wire_of sample_info then Some [2] else None)"

definition sample_unmarshal :: "bytes \<Rightarrow> wire_conn_info option" where
  "sample_unmarshal x =
     (if x = [1] then Some (wire_of sample_unresolved) else if x = [2] then Some (wire_of sample_info) else None)"

definition sample_expand :: "conn_info \<Rightarrow> unit \<Rightarrow> unit \<times> (expand_error + conn_info)" where
  "sample_expand =
     expand (\<lambda>url mode cache w. (w, Inr [])) pick_best_region_js (\<lambda>k ns. ns) (\<lambda>n. 0)
       [OptMap [(9, hd (ci_region sample_info))] :: unit fetch_option]"

theorem resolve_self_contained_witness:
  "resolve_addr sample_marshal sample_unmarshal sample_expand (h3_address_prefix @ b64_encode [1]) () =
     ((), Inr (h3_address_prefix @ b64_encode [2]))
   \<and> (\<exists>cb. parse_conn_addr sample_unmarshal (h3_address_prefix @ b64_encode [2]) = Inr cb \<and> ci_region cb \<noteq> [])"
proof -
  let ?a = "h3_address_prefix @ b64_encode [1]" and ?b = "h3_address_prefix @ b64_encode [2]"
  have len: "length ?a \<le> 65536" "length ?b \<le> 65536" by (simp_all add: h3_address_prefix_def)
  have ad: "addressable sample_unresolved" using sample_addressable by (simp add: sample_unresolved_def addressable_def)
  have "parse_wire sample_unmarshal ?a = Inr (wire_of sample_unresolved)"
    using ad by (intro parse_wire_encode [where marshal = sample_marshal and x = "[1]"])
      (simp_all add: sample_marshal_def sample_unmarshal_def conn_addr_def h3_address_prefix_def)
  then have "parse_conn_addr sample_unmarshal ?a = Inr (carried sample_unresolved)" by (rule parse_conn_addr_wire_of [OF ad])
  then have p: "parse_conn_addr sample_unmarshal ?a = Inr sample_unresolved"
    by (simp add: carried_def sample_unresolved_def)
  have cut: "sample_info\<lparr>ci_region := map (\<lambda>r. r\<lparr>dr_nodes := take 2 (dr_nodes r)\<rparr>) (ci_region sample_info), ci_region_id := 0\<rparr> = sample_info"
    by (simp add: sample_info_def)
  have hd: "ci_region sample_info = [hd (ci_region sample_info)]" by (simp add: sample_info_def)
  have "sample_expand sample_unresolved () = ((), Inr (sample_info\<lparr>ci_region_id := 9\<rparr>))"
    using hd by (simp add: sample_expand_def expand_def expand_from_def sample_unresolved_def)
  then have r: "resolve_addr sample_marshal sample_unmarshal sample_expand ?a () = ((), Inr ?b)"
    using p cut by (simp add: resolve_addr_def sample_unresolved_def Let_def conn_addr_def sample_marshal_def)
      (simp add: wire_of_def sample_info_def)
  have m: "sample_marshal (wire_of c) = Some x \<Longrightarrow> sample_unmarshal x = Some (wire_of c)" for c x
    by (auto simp: sample_marshal_def sample_unmarshal_def split: if_splits)
  have id: "ci_region_id sample_unresolved \<noteq> 0" by (simp add: sample_unresolved_def)
  from resolve_self_contained [OF r [unfolded sample_expand_def] picks_member_js _ p id m len(2),
      where expand_ci = sample_expand and v = "()"]
  show ?thesis using r by blast
qed

text \<open>Expansion never yields a null region: whatever the options, the fetch, the latency report
  and the random choices are, a successful expansion keeps the keys and secret and has a region
  unless none was asked for; with regions already present it touches neither the network nor the
  caches and leaves no region or node without a region id.\<close>

theorem expand_never_null:
  assumes "pick = (\<lambda>dm. pick_best_region (report dm) dm) \<or> pick = pick_best_region_js" "\<forall>n > 0. rnd n < n"
    "expand fetch pick shuffle rnd opts ci w = (w', r)"
  shows "r \<noteq> Inl ExpandNilRegion
    \<and> (\<forall>ci'. r = Inr ci' \<longrightarrow> same_identity ci' ci \<and> (ci_region ci' \<noteq> [] \<or> ci_region_id ci = 0))
    \<and> (ci_region ci \<noteq> [] \<longrightarrow> w' = w \<and> (\<forall>ci'. r = Inr ci' \<longrightarrow>
          (\<forall>x \<in> set (ci_region ci'). dr_id x \<noteq> 0 \<and> (\<forall>n \<in> set (dr_nodes x). dn_region_id n \<noteq> 0))))"
proof -
  have p: "picks_member pick" using assms(1) picks_member_report picks_member_js by blast
  have rnd: "0 < n \<Longrightarrow> rnd n < n" for n using assms(2) by blast
  note e = expand_sound [OF p rnd assms(3)]
  show ?thesis using e(1) e(2) e(3) e(4) by blast
qed

theorem expand_never_null_witness:
  "snd (sample_expand sample_unresolved ()) \<noteq> Inl ExpandNilRegion"
proof -
  obtain w' r where e: "sample_expand sample_unresolved () = (w', r)"
    by (cases "sample_expand sample_unresolved ()")
  have "\<forall>n :: nat. n > 0 \<longrightarrow> (\<lambda>n. 0 :: nat) n < n" by simp
  from expand_never_null [OF disjI2 [OF refl] this e [unfolded sample_expand_def]] e show ?thesis by simp
qed

end
