(* ===== verification/Serving.thy ===== *)
theory Serving
  imports Admission DerpMap "HOL-Library.Multiset"
begin

text \<open>
  The server as its embedder sees it: its configuration, \<open>startLocked\<close> and \<open>Close\<close>
  (\<open>tailcat.go\<close>), the packet filter it installs (\<open>buildFilterLocked\<close>), its listeners
  (\<open>listen.go\<close>) and the dispatch of a new flow to a listener or a callback, on the packet path
  (the netstack handlers of \<open>startLocked\<close>) and on the stream path (\<open>h3_streams.go\<close>). A handler
  returned by a callback is opaque.
\<close>

datatype proto = TCP | UDP

type_synonym port_range = "port \<times> port"

definition in_range :: "port \<Rightarrow> port_range \<Rightarrow> bool" where
  "in_range p r = (fst r \<le> p \<and> p \<le> snd r)"

record filter_match =
  fm_proto :: proto
  fm_srcs :: "ipprefix list"
  fm_dsts :: "(ipprefix \<times> port_range) list"

type_synonym filter_config = "filter_match list \<times> ipprefix list"

record listener =
  ln_udp :: bool
  ln_port :: port
  ln_closed :: bool

text \<open>\<open>Server\<close>: a callback that is not set is None, a callback that declines gives None; a listener
  is known by its index in \<open>sv_heap\<close>, which the two port maps point into.\<close>

record 'h server =
  sv_key :: key32
  sv_psk :: key32
  sv_disable_psk :: bool
  sv_region :: "derp_region option"
  sv_region_id :: int
  sv_derp_map_url :: string
  sv_allowed_clients :: "key32 list"
  sv_lb :: "backend option"
  sv_heap :: "listener list"
  sv_tcp_listeners :: "(port, nat) gomap"
  sv_udp_listeners :: "(port, nat) gomap"
  sv_on_tcp :: "(port \<Rightarrow> 'h option) option"
  sv_on_tcp_forward :: "(addrport \<Rightarrow> 'h option) option"
  sv_on_udp :: "(port \<Rightarrow> 'h option) option"
  sv_on_udp_forward :: "(addrport \<Rightarrow> 'h option) option"
  sv_served_tcp :: "port_range list option"
  sv_served_udp :: "port_range list option"
  sv_udp_idle :: int
  sv_filter :: "filter_config option"

definition default_udp_idle_timeout :: int where "default_udp_idle_timeout = 120 * sec_ns"

definition udp_idle_timeout :: "'h server \<Rightarrow> int" where
  "udp_idle_timeout s = (if sv_udp_idle s \<noteq> 0 then sv_udp_idle s else default_udp_idle_timeout)"

section \<open>The packet filter\<close>

definition all_ports :: port_range where "all_ports = (0, 65535)"

definition append_listener_ports :: "port_range list \<Rightarrow> (port, nat) gomap \<Rightarrow> port_range list" where
  "append_listener_ports ranges m = ranges @ map (\<lambda>(p, l). (p, p)) m"

definition forward_match :: "proto \<Rightarrow> filter_match" where
  "forward_match pr = \<lparr>fm_proto = pr, fm_srcs = [all_ipv6], fm_dsts = [(all_ipv6, all_ports)]\<rparr>"

definition build_filter :: "'h server \<Rightarrow> backend \<Rightarrow> filter_config" where
  "build_filter s b =
     (let self_ports = (case sv_served_tcp s of None \<Rightarrow> [all_ports]
                        | Some rs \<Rightarrow> append_listener_ports rs (sv_tcp_listeners s));
          tcp = [\<lparr>fm_proto = TCP, fm_srcs = [all_ipv6], fm_dsts = map (\<lambda>r. (lb_addr_prefix b, r)) self_ports\<rparr>];
          udp_ports = (if sv_on_udp s = None then append_listener_ports [] (sv_udp_listeners s)
                       else case sv_served_udp s of
                              Some rs \<Rightarrow> append_listener_ports rs (sv_udp_listeners s)
                            | None \<Rightarrow> [all_ports]);
          udp = (if sv_on_udp s \<noteq> None \<or> sv_udp_listeners s \<noteq> []
                 then [\<lparr>fm_proto = UDP, fm_srcs = [all_ipv6], fm_dsts = map (\<lambda>r. (lb_addr_prefix b, r)) udp_ports\<rparr>]
                 else []);
          nets = [lb_addr_prefix b] @ (if sv_on_tcp_forward s \<noteq> None \<or> sv_on_udp_forward s \<noteq> None then [all_ipv6] else []);
          tcp_fwd = (if sv_on_tcp_forward s \<noteq> None then [forward_match TCP] else []);
          udp_fwd = (if sv_on_udp_forward s \<noteq> None then [forward_match UDP] else [])
      in (tcp @ udp @ tcp_fwd @ udp_fwd, nets))"

text \<open>What the rules of a filter name: a destination inside the local networks that some rule lists,
  for the protocol, the source and the port.\<close>

definition rules_admit :: "filter_config \<Rightarrow> proto \<Rightarrow> ipaddr \<Rightarrow> addrport \<Rightarrow> bool" where
  "rules_admit cfg pr src dst =
     (list_ex (\<lambda>p. pfx_contains p (fst dst)) (snd cfg)
      \<and> list_ex (\<lambda>m. fm_proto m = pr \<and> list_ex (\<lambda>p. pfx_contains p src) (fm_srcs m)
            \<and> list_ex (\<lambda>(net, r). pfx_contains net (fst dst) \<and> in_range (snd dst) r) (fm_dsts m)) (fst cfg))"

definition install_filter :: "'h server \<Rightarrow> 'h server" where
  "install_filter s = (case sv_lb s of None \<Rightarrow> s | Some b \<Rightarrow> s\<lparr>sv_filter := Some (build_filter s b)\<rparr>)"

definition rebuild_filter :: "'h server \<Rightarrow> 'h server" where
  "rebuild_filter s = install_filter s"

section \<open>Listeners\<close>

datatype listen_error = UnsupportedNetwork | BadAddress | BadPort | NotStarted | InvalidHost | WrongHost
  | NoUnusedPorts | PortInUse

text \<open>\<open>pickUnusedPort\<close>: a scan of the dynamic range from a random start.\<close>

definition dyn_lo :: nat where "dyn_lo = 32768"

definition dyn_n :: nat where "dyn_n = 60999 - 32768 + 1"

definition pick_unused_port :: "nat \<Rightarrow> (port, nat) gomap \<Rightarrow> port option" where
  "pick_unused_port start m =
     map_option (\<lambda>i. of_nat (dyn_lo + (start + i) mod dyn_n))
       (find (\<lambda>i. mget m (of_nat (dyn_lo + (start + i) mod dyn_n)) = None) [0..<dyn_n])"

definition listener_for_port :: "'h server \<Rightarrow> proto \<Rightarrow> port \<Rightarrow> nat option" where
  "listener_for_port s pr p =
     (case pr of UDP \<Rightarrow> mget (sv_udp_listeners s) p | TCP \<Rightarrow> mget (sv_tcp_listeners s) p)"

definition set_listeners :: "proto \<Rightarrow> (port, nat) gomap \<Rightarrow> 'h server \<Rightarrow> 'h server" where
  "set_listeners pr m s = (case pr of UDP \<Rightarrow> s\<lparr>sv_udp_listeners := m\<rparr> | TCP \<Rightarrow> s\<lparr>sv_tcp_listeners := m\<rparr>)"

definition listeners_of :: "proto \<Rightarrow> 'h server \<Rightarrow> (port, nat) gomap" where
  "listeners_of pr s = (case pr of UDP \<Rightarrow> sv_udp_listeners s | TCP \<Rightarrow> sv_tcp_listeners s)"

text \<open>The part of \<open>Listen\<close> under \<open>listenerMu\<close>; the result is the new listener.\<close>

definition bind_port :: "nat \<Rightarrow> proto \<Rightarrow> nat \<Rightarrow> 'h server \<Rightarrow> 'h server \<times> (listen_error + nat)" where
  "bind_port start pr port_num s =
     (let m = listeners_of pr s;
          port = (if port_num = 0 then pick_unused_port start m else Some (of_nat port_num))
      in (case port of
            None \<Rightarrow> (s, Inl NoUnusedPorts)
          | Some p \<Rightarrow>
              if mget m p \<noteq> None then (s, Inl PortInUse)
              else
                let l = length (sv_heap s);
                    s = s\<lparr>sv_heap := sv_heap s @ [\<lparr>ln_udp = (pr = UDP), ln_port = p, ln_closed = False\<rparr>]\<rparr>
                in (install_filter (set_listeners pr (mset_key p l m) s), Inr l)))"

text \<open>\<open>Listen\<close>: \<open>lookup_port\<close> is \<open>net.LookupPort\<close> and \<open>start\<close> the implicit start of the server.\<close>

definition listen_proto :: "string \<Rightarrow> proto option" where
  "listen_proto network =
     (if network = ''tcp'' \<or> network = ''tcp6'' then Some TCP
      else if network = ''udp'' \<or> network = ''udp6'' then Some UDP else None)"

definition listen ::
  "(string \<Rightarrow> string \<Rightarrow> nat option) \<Rightarrow> ('h server \<Rightarrow> 'h server \<times> bool) \<Rightarrow> nat \<Rightarrow> string \<Rightarrow> string \<Rightarrow> 'h server
     \<Rightarrow> 'h server \<times> (listen_error + nat)" where
  "listen lookup_port start rnd network address s =
     (case listen_proto network of
        None \<Rightarrow> (s, Inl UnsupportedNetwork)
      | Some pr \<Rightarrow>
          (case split_host_port address of
             None \<Rightarrow> (s, Inl BadAddress)
           | Some (host, port_str) \<Rightarrow>
               (case lookup_port network port_str of
                  None \<Rightarrow> (s, Inl BadPort)
                | Some port_num \<Rightarrow>
                    (case (if sv_lb s = None then start s else (s, True)) of
                       (s, False) \<Rightarrow> (s, Inl NotStarted)
                     | (s, True) \<Rightarrow>
                         if host = [] then bind_port rnd pr port_num s
                         else
                           (case parse_addr host of
                              None \<Rightarrow> (s, Inl InvalidHost)
                            | Some ip \<Rightarrow>
                                if \<not> is_unspecified ip \<and> Some ip \<noteq> map_option lb_addr (sv_lb s)
                                then (s, Inl WrongHost)
                                else bind_port rnd pr port_num s)))))"

text \<open>\<open>closeLocked\<close>; the result is whether it was still open. \<open>close(closedc)\<close> releases the waiting
  goroutines (see below).\<close>

definition close_locked :: "bool \<Rightarrow> nat \<Rightarrow> 'h server \<Rightarrow> 'h server \<times> bool" where
  "close_locked reinstall l s =
     (let ln = sv_heap s ! l
      in if ln_closed ln then (s, False)
         else
           let s = s\<lparr>sv_heap := (sv_heap s)[l := ln\<lparr>ln_closed := True\<rparr>]\<rparr>;
               s = (if ln_udp ln then s\<lparr>sv_udp_listeners := mdel (ln_port ln) (sv_udp_listeners s)\<rparr>
                    else s\<lparr>sv_tcp_listeners := mdel (ln_port ln) (sv_tcp_listeners s)\<rparr>)
           in (if reinstall then install_filter s else s, True))"

definition listener_close :: "nat \<Rightarrow> 'h server \<Rightarrow> 'h server \<times> bool" where
  "listener_close l s = close_locked True l s"

text \<open>\<open>Server.Close\<close>: every listener, then the backend; the ranges are over the maps as they are
  when the loops start.\<close>

definition close_all :: "nat list \<Rightarrow> 'h server \<Rightarrow> 'h server" where
  "close_all ls s = foldl (\<lambda>s l. fst (close_locked False l s)) s ls"

definition server_close :: "'h server \<Rightarrow> 'h server \<times> bool" where
  "server_close s =
     (if sv_lb s = None then (s, False)
      else (let s = close_all (map snd (sv_tcp_listeners s)) s
            in (close_all (map snd (sv_udp_listeners s)) s, True)))"

text \<open>\<open>listener.Addr\<close>.\<close>

definition listener_addr :: "backend \<Rightarrow> listener \<Rightarrow> proto \<times> ipaddr \<times> port" where
  "listener_addr b ln = (if ln_udp ln then UDP else TCP, lb_addr b, ln_port ln)"

text \<open>\<open>Server.AddAllowedClient\<close>.\<close>

definition server_add_allowed :: "key32 \<Rightarrow> 'h server \<Rightarrow> 'h server" where
  "server_add_allowed k s =
     (case sv_lb s of
        None \<Rightarrow> s\<lparr>sv_allowed_clients := sv_allowed_clients s @ [k]\<rparr>
      | Some b \<Rightarrow> s\<lparr>sv_lb := Some (add_allowed_client k b)\<rparr>)"

section \<open>Dispatch of a new flow\<close>

datatype 'h sink = ToListener nat | ToHandler 'h

definition nat64_prefix :: ipprefix where
  "nat64_prefix = Pfx (IP6 ([0x00, 0x64, 0xff, 0x9b] @ zero_bytes 12) []) 96"

definition nat64_unmap :: "addrport \<Rightarrow> addrport" where
  "nat64_unmap dst =
     (if pfx_contains nat64_prefix (fst dst) then (IP4 (take 4 (drop 12 (as16 (fst dst)))), snd dst) else dst)"

text \<open>\<open>GetTCPHandlerForFlow\<close>: None sends a RST.\<close>

definition tcp_handler_for_flow :: "'h server \<Rightarrow> backend \<Rightarrow> addrport \<Rightarrow> 'h sink option" where
  "tcp_handler_for_flow s b dst =
     (if fst dst = lb_addr b then
        (case listener_for_port s TCP (snd dst) of
           Some l \<Rightarrow> Some (ToListener l)
         | None \<Rightarrow>
             (case sv_on_tcp s of None \<Rightarrow> None | Some f \<Rightarrow> map_option ToHandler (f (snd dst))))
      else
        (case sv_on_tcp_forward s of
           None \<Rightarrow> None
         | Some f \<Rightarrow> map_option ToHandler (f (nat64_unmap dst))))"

text \<open>\<open>GetUDPHandlerForFlow\<close>: None drops the flow; a sink comes with the idle timeout of the
  connection it is given.\<close>

definition udp_handler_for_flow :: "'h server \<Rightarrow> backend \<Rightarrow> addrport \<Rightarrow> ('h sink \<times> int) option" where
  "udp_handler_for_flow s b dst =
     (let h = (if fst dst = lb_addr b then
                 (case listener_for_port s UDP (snd dst) of
                    Some l \<Rightarrow> Some (ToListener l)
                  | None \<Rightarrow> (case sv_on_udp s of None \<Rightarrow> None | Some f \<Rightarrow> map_option ToHandler (f (snd dst))))
               else
                 (case sv_on_udp_forward s of
                    None \<Rightarrow> None
                  | Some f \<Rightarrow> map_option ToHandler (f (nat64_unmap dst))))
      in map_option (\<lambda>k. (k, udp_idle_timeout s)) h)"

text \<open>\<open>h3TCPHandler\<close>: \<open>parse_key\<close> is \<open>NodePublic.UnmarshalText\<close>.\<close>

definition h3_tcp_handler ::
  "(string \<Rightarrow> key32 option) \<Rightarrow> 'h server \<Rightarrow> backend \<Rightarrow> key32 \<Rightarrow> addrport \<Rightarrow> 'h sink option" where
  "h3_tcp_handler parse_key s b peer dst =
     (case parse_key (''nodekey:'' @ hex_node_key peer) of
        None \<Rightarrow> None
      | Some pub \<Rightarrow>
          if peer_config b pub = None then None
          else if fst dst = lb_addr b then
            (case listener_for_port s TCP (snd dst) of
               Some l \<Rightarrow> Some (ToListener l)
             | None \<Rightarrow>
                 let allowed = (case sv_served_tcp s of None \<Rightarrow> True | Some rs \<Rightarrow> list_ex (in_range (snd dst)) rs)
                 in if \<not> allowed then None
                    else (case sv_on_tcp s of None \<Rightarrow> None | Some f \<Rightarrow> map_option ToHandler (f (snd dst))))
          else
            (case sv_on_tcp_forward s of
               None \<Rightarrow> None
             | Some f \<Rightarrow> map_option ToHandler (f (nat64_unmap dst))))"

text \<open>The client's side of the NAT64 mapping, in \<open>DialTCP\<close> and \<open>DialUDP\<close>.\<close>

definition nat64_map :: "addrport \<Rightarrow> addrport" where
  "nat64_map ap =
     (case fst ap of
        IP4 a4 \<Rightarrow> (IP6 (go_copy ([0x00, 0x64, 0xff, 0x9b] @ zero_bytes 12) 12 a4) [], snd ap)
      | _ \<Rightarrow> ap)"

section \<open>Starting\<close>

datatype server_error = AlreadyStarted | NegativeIdle | PskDisabled | NoRegion expand_error | MissingRegionID
  | NetmonError | EngineError | NetstackError | BackendError start_error

text \<open>What the start needs from outside: the fresh keys and nonce, the public key of a private key,
  the expansion of a region id, and the outcomes of the subsystems.\<close>

record 'w start_env =
  se_new_node :: key32
  se_new_psk :: key32
  se_nonce :: bytes
  se_public :: "key32 \<Rightarrow> key32"
  se_disco :: "key32 \<Rightarrow> key32"
  se_mc_disco :: key32
  se_expand :: "conn_info \<Rightarrow> 'w \<Rightarrow> 'w \<times> (expand_error + conn_info)"
  se_netmon_ok :: bool
  se_engine_ok :: bool
  se_netstack_ok :: bool
  se_ns_start_ok :: bool
  se_reconfig_ok :: bool

definition allowed_of :: "key32 list \<Rightarrow> (key32, bool) gomap option" where
  "allowed_of ks = (if ks = [] then None else Some (foldl (\<lambda>m k. mset_key k True m) [] ks))"

definition start_region :: "'w start_env \<Rightarrow> 'h server \<Rightarrow> 'w \<Rightarrow> ('w \<times> (server_error + derp_region)) option" where
  "start_region env s w =
     (case sv_region s of
        Some r \<Rightarrow> Some (w, Inr r)
      | None \<Rightarrow>
          (case se_expand env (zero_conn_info\<lparr>ci_region_id := (if sv_region_id s \<noteq> 0 then sv_region_id s else -1)\<rparr>) w of
             (w, Inl e) \<Rightarrow> Some (w, Inl (NoRegion e))
           | (w, Inr ci) \<Rightarrow> (case ci_region ci of [] \<Rightarrow> None | r # rs \<Rightarrow> Some (w, Inr r))))"

text \<open>\<open>startLocked\<close>: the result is the server, the world, whether the backend that was created was
  closed again, and the error; a panic is None.\<close>

definition start_locked ::
  "'w start_env \<Rightarrow> 'h server \<Rightarrow> 'w \<Rightarrow> ('h server \<times> 'w \<times> bool \<times> server_error option) option" where
  "start_locked env s w =
     (if sv_lb s \<noteq> None then Some (s, w, False, Some AlreadyStarted)
      else if sv_udp_idle s < 0 then Some (s, w, False, Some NegativeIdle)
      else
        let priv = (if key_is_zero (sv_key s) then se_new_node env else sv_key s)
        in if sv_disable_psk s then Some (s, w, False, Some PskDisabled)
           else
             let psk = (if psk_is_zero (sv_psk s) then se_new_psk env else sv_psk s)
             in (case start_region env s w of
                   None \<Rightarrow> None
                 | Some (w, Inl e) \<Rightarrow> Some (s, w, False, Some e)
                 | Some (w, Inr reg) \<Rightarrow>
                     if dr_id reg = 0 then Some (s, w, False, Some MissingRegionID)
                     else
                       let lb = (new_loco_backend priv (se_public env priv) psk (se_nonce env) (se_disco env priv))
                             \<lparr>lb_dm := Some [(dr_id reg, reg)], lb_allowed := allowed_of (sv_allowed_clients s)\<rparr>
                       in if \<not> se_netmon_ok env then Some (s, w, True, Some NetmonError)
                          else if \<not> se_engine_ok env then Some (s, w, True, Some EngineError)
                          else if \<not> se_netstack_ok env then Some (s, w, True, Some NetstackError)
                          else
                            let s' = rebuild_filter (s\<lparr>sv_lb := Some lb\<rparr>)
                            in (case loco_start (se_ns_start_ok env) (se_reconfig_ok env) (se_mc_disco env) lb of
                                  None \<Rightarrow> None
                                | Some (lb', es, None) \<Rightarrow> Some (s'\<lparr>sv_lb := Some lb'\<rparr>, w, False, None)
                                | Some (lb', es, Some e) \<Rightarrow> Some (s'\<lparr>sv_lb := None\<rparr>, w, True, Some (BackendError e)))))"

section \<open>Lemmas on the filter\<close>

definition own_addr :: "backend \<Rightarrow> bool" where
  "own_addr b = (\<exists>pub. key_ok pub \<and> lb_addr b = tc_addr_for_key pub \<and> lb_addr_prefix b = pfx_of (lb_addr b))"

fun tunnel_addr :: "ipaddr \<Rightarrow> bool" where
  "tunnel_addr (IP6 b z) = (length b = 16 \<and> z = [])"
| "tunnel_addr _ = False"

lemma tunnel_addr_all [simp]: "tunnel_addr a \<Longrightarrow> pfx_contains all_ipv6 a"
  by (cases a) (simp_all add: all_ipv6_def)

lemma own_prefix_iff:
  assumes "own_addr b" "tunnel_addr a"
  shows "pfx_contains (lb_addr_prefix b) a \<longleftrightarrow> a = lb_addr b"
proof -
  have "ip_wf a" using assms(2) by (cases a) auto
  then show ?thesis using assms(1) pfx_of_tc_addr pfx_of_tc_addr_self by (auto simp: own_addr_def)
qed

lemma in_all_ports [simp]: "in_range p all_ports"
proof -
  have "p \<le> 0xFFFF" using unsigned_less [of p, where ?'a = nat] by (simp add: word_le_nat_alt)
  then show ?thesis by (simp add: in_range_def all_ports_def)
qed

lemma in_single [simp]: "in_range p (q, q) \<longleftrightarrow> p = q"
  by (auto simp: in_range_def)

lemma in_listener_ports:
  "list_ex (in_range p) (append_listener_ports rs m) \<longleftrightarrow> list_ex (in_range p) rs \<or> p \<in> mkeys m"
  by (force simp: append_listener_ports_def list_ex_iff)

lemma self_dsts:
  "list_ex (\<lambda>(net, r). pfx_contains net a \<and> in_range p r) (map (\<lambda>r. (net', r)) rs) \<longleftrightarrow> pfx_contains net' a \<and> list_ex (in_range p) rs"
  by (auto simp: list_ex_iff)

text \<open>What the configuration promises for a port of the server's own address.\<close>

definition serves_tcp :: "'h server \<Rightarrow> port \<Rightarrow> bool" where
  "serves_tcp s p =
     (case sv_served_tcp s of None \<Rightarrow> True | Some rs \<Rightarrow> list_ex (in_range p) rs \<or> p \<in> mkeys (sv_tcp_listeners s))"

definition serves_udp :: "'h server \<Rightarrow> port \<Rightarrow> bool" where
  "serves_udp s p =
     (if sv_on_udp s = None then p \<in> mkeys (sv_udp_listeners s)
      else case sv_served_udp s of None \<Rightarrow> True | Some rs \<Rightarrow> list_ex (in_range p) rs \<or> p \<in> mkeys (sv_udp_listeners s))"

lemma serves_tcp_ports:
  "list_ex (in_range p) (case sv_served_tcp s of None \<Rightarrow> [all_ports] | Some rs \<Rightarrow> append_listener_ports rs (sv_tcp_listeners s))
     \<longleftrightarrow> serves_tcp s p"
  by (simp add: serves_tcp_def in_listener_ports split: option.splits)

lemma serves_udp_ports:
  "list_ex (in_range p) (if sv_on_udp s = None then append_listener_ports [] (sv_udp_listeners s)
      else case sv_served_udp s of Some rs \<Rightarrow> append_listener_ports rs (sv_udp_listeners s) | None \<Rightarrow> [all_ports])
     \<longleftrightarrow> serves_udp s p"
  by (simp add: serves_udp_def in_listener_ports split: option.splits)

lemma serves_udp_some: "serves_udp s p \<Longrightarrow> sv_on_udp s \<noteq> None \<or> sv_udp_listeners s \<noteq> []"
  by (auto simp: serves_udp_def split: if_splits)

lemma rules_admit_build:
  assumes "own_addr b" "tunnel_addr src" "tunnel_addr a"
  shows "rules_admit (build_filter s b) TCP src (a, p) \<longleftrightarrow> a = lb_addr b \<and> serves_tcp s p \<or> sv_on_tcp_forward s \<noteq> None"
    "rules_admit (build_filter s b) UDP src (a, p) \<longleftrightarrow> a = lb_addr b \<and> serves_udp s p \<or> sv_on_udp_forward s \<noteq> None"
  using tunnel_addr_all [OF assms(2)] tunnel_addr_all [OF assms(3)] own_prefix_iff [OF assms(1,3)] serves_udp_some [of s p]
  by (auto simp: rules_admit_def build_filter_def Let_def self_dsts serves_tcp_ports serves_udp_ports forward_match_def)

text \<open>C17. The packet filter admits exactly what the server is configured to serve: a TCP or UDP packet
  to the server's own address on a served or listened-on port, and packets to any destination
  only for a protocol whose forward callback is set.\<close>

theorem filter_admits_exactly:
  assumes "own_addr b" "tunnel_addr src" "tunnel_addr a"
  shows "rules_admit (build_filter s b) pr src (a, p) \<longleftrightarrow>
     (case pr of
        TCP \<Rightarrow> a = lb_addr b \<and> serves_tcp s p \<or> sv_on_tcp_forward s \<noteq> None
      | UDP \<Rightarrow> a = lb_addr b \<and> serves_udp s p \<or> sv_on_udp_forward s \<noteq> None)"
  using rules_admit_build [OF assms] by (cases pr) simp_all

definition sample_own :: backend where
  "sample_own = new_loco_backend (replicate 32 1) (replicate 32 2) (replicate 32 3) (replicate 32 4) (replicate 32 5)"

lemma sample_own_addr: "own_addr sample_own"
proof -
  have "key_ok (replicate 32 (2 :: byte))" by (simp add: key_ok_def)
  then show ?thesis by (auto simp: own_addr_def sample_own_def new_loco_backend_def Let_def pfx_of_def)
qed

definition sample_conf :: "nat server" where
  "sample_conf =
     \<lparr>sv_key = key_zero, sv_psk = key_zero, sv_disable_psk = False, sv_region = Some sample_region, sv_region_id = 0,
      sv_derp_map_url = [], sv_allowed_clients = [], sv_lb = None, sv_heap = [], sv_tcp_listeners = [],
      sv_udp_listeners = [], sv_on_tcp = Some (\<lambda>p. if p = 80 \<or> p = 22 then Some 1 else None), sv_on_tcp_forward = None,
      sv_on_udp = None, sv_on_udp_forward = None, sv_served_tcp = Some [(80, 80)], sv_served_udp = None,
      sv_udp_idle = 0, sv_filter = None\<rparr>"

theorem filter_admits_exactly_witness:
  "rules_admit (build_filter sample_conf sample_own) TCP (IP6 (zero_bytes 16) []) (lb_addr sample_own, 80)
   \<and> \<not> rules_admit (build_filter sample_conf sample_own) TCP (IP6 (zero_bytes 16) []) (lb_addr sample_own, 81)
   \<and> \<not> rules_admit (build_filter sample_conf sample_own) UDP (IP6 (zero_bytes 16) []) (lb_addr sample_own, 80)"
proof -
  have a: "tunnel_addr (lb_addr sample_own)"
    by (simp add: sample_own_def new_loco_backend_def Let_def tc_addr_bytes)
  have z: "tunnel_addr (IP6 (zero_bytes 16) [])" by simp
  show ?thesis
    using filter_admits_exactly [OF sample_own_addr z a, of sample_conf TCP 80]
      filter_admits_exactly [OF sample_own_addr z a, of sample_conf TCP 81]
      filter_admits_exactly [OF sample_own_addr z a, of sample_conf UDP 80]
    by (simp add: serves_tcp_def serves_udp_def sample_conf_def)
qed

section \<open>The two paths of a TCP flow\<close>

definition packet_path_tcp :: "'h server \<Rightarrow> backend \<Rightarrow> ipaddr \<Rightarrow> addrport \<Rightarrow> 'h sink option" where
  "packet_path_tcp s b src dst =
     (if rules_admit (build_filter s b) TCP src dst then tcp_handler_for_flow s b dst else None)"

definition parses_keys :: "(string \<Rightarrow> key32 option) \<Rightarrow> bool" where
  "parses_keys parse_key = (\<forall>k. key_ok k \<longrightarrow> parse_key (''nodekey:'' @ hex_encode k) = Some k)"

lemma h3_tcp_handler_authorised:
  assumes "parses_keys parse_key" "key_ok peer"
  shows "h3_tcp_handler parse_key s b peer dst =
    (if peer_config b peer = None then None
     else if fst dst = lb_addr b then
       (case listener_for_port s TCP (snd dst) of
          Some l \<Rightarrow> Some (ToListener l)
        | None \<Rightarrow> if serves_tcp s (snd dst) then (case sv_on_tcp s of None \<Rightarrow> None | Some f \<Rightarrow> map_option ToHandler (f (snd dst))) else None)
     else (case sv_on_tcp_forward s of None \<Rightarrow> None | Some f \<Rightarrow> map_option ToHandler (f (nat64_unmap dst))))"
proof -
  have "parse_key (''nodekey:'' @ hex_node_key peer) = Some peer"
    using assms by (simp add: parses_keys_def hex_node_key_eq)
  then show ?thesis
    by (auto simp: h3_tcp_handler_def serves_tcp_def listener_for_port_def Let_def mget_None_iff [THEN iffD1]
        split: option.splits proto.splits dest: mget_Some_key)
qed

text \<open>C7. The stream path enforces the gates of the packet path: a stream of an authorised peer is
  handed to exactly the listener or callback that a packet of the same flow would reach after the
  filter, unless a forward callback has widened the filter over the server's own unserved ports,
  where the stream path is the stricter one; a peer that is not authorised gets nothing.\<close>

theorem stream_path_agrees:
  assumes "parses_keys parse_key" "key_ok peer" "own_addr b" "tunnel_addr src" "tunnel_addr (fst dst)"
  shows "h3_tcp_handler parse_key s b peer dst =
    (if peer_config b peer = None then None
     else if fst dst = lb_addr b \<and> \<not> serves_tcp s (snd dst) then None
     else packet_path_tcp s b src dst)
    \<and> (sv_on_tcp_forward s = None \<longrightarrow> peer_config b peer \<noteq> None \<longrightarrow>
         h3_tcp_handler parse_key s b peer dst = packet_path_tcp s b src dst)
    \<and> (sv_on_tcp_forward s \<noteq> None \<longrightarrow> packet_path_tcp s b src dst = tcp_handler_for_flow s b dst)"
proof -
  obtain a p where d: "dst = (a, p)" by (cases dst)
  have l: "listener_for_port s TCP p = Some l \<Longrightarrow> serves_tcp s p" for l
    by (auto simp: listener_for_port_def serves_tcp_def dest: mget_Some_key split: option.splits)
  note r = rules_admit_build(1) [OF assms(3,4), of a s p]
  have t: "tunnel_addr a" using assms(5) d by simp
  show ?thesis
    unfolding h3_tcp_handler_authorised [OF assms(1,2)] packet_path_tcp_def d fst_conv snd_conv r [OF t]
    using l by (auto simp: tcp_handler_for_flow_def split: option.splits)
qed

definition sample_serving :: backend where
  "sample_serving = sample_own\<lparr>lb_clients := [(sample_client, client_node 2 sample_client (replicate 32 8) 9)]\<rparr>"

theorem stream_path_agrees_witness:
  "h3_tcp_handler (\<lambda>t. hex_decode (drop 8 t)) sample_conf sample_serving sample_client (lb_addr sample_serving, 80)
     = packet_path_tcp sample_conf sample_serving (IP6 (zero_bytes 16) []) (lb_addr sample_serving, 80)
   \<and> packet_path_tcp sample_conf sample_serving (IP6 (zero_bytes 16) []) (lb_addr sample_serving, 80) = Some (ToHandler 1)"
proof -
  let ?dst = "(lb_addr sample_serving, 80)" and ?src = "IP6 (zero_bytes 16) []"
  have k: "parses_keys (\<lambda>t. hex_decode (drop 8 t))" by (simp add: parses_keys_def)
  have o: "own_addr sample_serving" using sample_own_addr by (simp add: own_addr_def sample_serving_def)
  have t: "tunnel_addr (fst ?dst)"
    by (simp add: sample_serving_def sample_own_def new_loco_backend_def Let_def tc_addr_bytes)
  have c: "peer_config sample_serving sample_client \<noteq> None"
    by (simp add: peer_config_def sample_serving_def sample_own_def new_loco_backend_def Let_def key_is_zero_def key_zero_def)
  have z: "tunnel_addr ?src" by simp
  have f: "sv_on_tcp_forward sample_conf = None" by (simp add: sample_conf_def)
  have "packet_path_tcp sample_conf sample_serving ?src ?dst = Some (ToHandler 1)"
    using rules_admit_build(1) [OF o z t [unfolded fst_conv], of sample_conf 80]
    by (simp add: packet_path_tcp_def tcp_handler_for_flow_def serves_tcp_def sample_conf_def listener_for_port_def)
  then show ?thesis
    using stream_path_agrees [OF k sample_client_ok(1) o z t, of sample_conf] c f by blast
qed

text \<open>A target survives the tunnel: the exit server dials exactly the address and port that the
  client asked for, IPv4 targets through the NAT64 prefix included, unless the target itself is
  an IPv6 address inside that prefix.\<close>

theorem nat64_roundtrip:
  assumes "ip_wf (fst ap)"
  shows "(is4 (fst ap) \<longrightarrow> nat64_unmap (nat64_map ap) = ap \<and> tunnel_addr (fst (nat64_map ap)))
    \<and> (\<not> is4 (fst ap) \<longrightarrow> \<not> pfx_contains nat64_prefix (fst ap) \<longrightarrow> nat64_unmap (nat64_map ap) = ap)
    \<and> (is4 (fst ap) \<longrightarrow> is4 (fst bp) \<longrightarrow> ip_wf (fst bp) \<longrightarrow> nat64_map ap = nat64_map bp \<longrightarrow> ap = bp)"
proof -
  have u: "nat64_unmap (nat64_map cp) = cp \<and> tunnel_addr (fst (nat64_map cp))" if c: "is4 (fst cp)" "ip_wf (fst cp)" for cp
  proof -
    obtain a4 p where d: "cp = (IP4 a4, p)" "length a4 = 4" using c by (cases cp; cases "fst cp") auto
    have m: "nat64_map cp = (IP6 ([0x00, 0x64, 0xff, 0x9b] @ zero_bytes 8 @ a4) [], p)"
      using d by (simp add: nat64_map_def go_copy_def numeral_eq_Suc)
    have "pfx_contains nat64_prefix (IP6 ([0x00, 0x64, 0xff, 0x9b] @ zero_bytes 8 @ a4) [])"
      unfolding nat64_prefix_def
      using pfx_contains_bytes [of "[0x00, 0x64, 0xff, 0x9b] @ zero_bytes 12" "[]" 12 "[0x00, 0x64, 0xff, 0x9b] @ zero_bytes 8 @ a4" "[]"] d
      by (simp add: numeral_eq_Suc)
    then show ?thesis using d m by (simp add: nat64_unmap_def numeral_eq_Suc)
  qed
  have "nat64_unmap (nat64_map ap) = ap" if "\<not> is4 (fst ap)" "\<not> pfx_contains nat64_prefix (fst ap)"
    using that by (cases "fst ap") (auto simp: nat64_map_def nat64_unmap_def)
  then show ?thesis using u [of ap] u [of bp] assms by metis
qed

theorem nat64_roundtrip_witness:
  "nat64_map (IP4 [192, 0, 2, 1], 443) = (IP6 [0x00, 0x64, 0xff, 0x9b, 0, 0, 0, 0, 0, 0, 0, 0, 192, 0, 2, 1] [], 443)
   \<and> nat64_unmap (nat64_map (IP4 [192, 0, 2, 1], 443)) = (IP4 [192, 0, 2, 1], 443)"
proof -
  have "nat64_map (IP4 [192, 0, 2, 1], 443) = (IP6 [0x00, 0x64, 0xff, 0x9b, 0, 0, 0, 0, 0, 0, 0, 0, 192, 0, 2, 1] [], 443)"
    by code_simp
  then show ?thesis using nat64_roundtrip [of "(IP4 [192, 0, 2, 1], 443)"] by simp
qed

section \<open>Lemmas on listeners\<close>

lemma pick_unused_port_Some:
  assumes "pick_unused_port start m = Some p"
  shows "mget m p = None \<and> 32768 \<le> unat p \<and> unat p \<le> 60999"
proof -
  obtain i where i: "p = of_nat (dyn_lo + (start + i) mod dyn_n)" "mget m p = None"
    using assms by (auto simp: pick_unused_port_def find_Some_iff)
  have r: "(start + i) mod dyn_n < dyn_n" by (simp add: dyn_n_def)
  then have "unat p = dyn_lo + (start + i) mod dyn_n"
    unfolding i(1) by (simp only: unat_of_nat) (simp add: dyn_lo_def dyn_n_def)
  then show ?thesis using i(2) r by (simp add: dyn_lo_def dyn_n_def)
qed

lemma pick_unused_port_None:
  assumes "pick_unused_port start m = None" "32768 \<le> n" "n \<le> 60999"
  shows "mget m (of_nat n) \<noteq> None"
proof -
  have all: "\<forall>i < dyn_n. mget m (of_nat (dyn_lo + (start + i) mod dyn_n)) \<noteq> None"
    using assms(1) by (simp add: pick_unused_port_def find_None_iff)
  define i where "i = (n - dyn_lo + (dyn_n - start mod dyn_n)) mod dyn_n"
  have "start mod dyn_n < dyn_n" by (simp add: dyn_n_def)
  then have "(start + i) mod dyn_n = (start mod dyn_n + (n - dyn_lo + (dyn_n - start mod dyn_n))) mod dyn_n"
    unfolding i_def by (metis mod_add_left_eq mod_add_right_eq)
  also have "start mod dyn_n + (n - dyn_lo + (dyn_n - start mod dyn_n)) = n - dyn_lo + dyn_n"
    using \<open>start mod dyn_n < dyn_n\<close> by linarith
  also have "(n - dyn_lo + dyn_n) mod dyn_n = n - dyn_lo"
  proof -
    have "n - dyn_lo < dyn_n" using assms(2,3) by (simp add: dyn_lo_def dyn_n_def)
    then show ?thesis by (simp only: mod_add_self2 mod_less)
  qed
  finally have "dyn_lo + (start + i) mod dyn_n = n" using assms(2) by (simp add: dyn_lo_def)
  moreover have "i < dyn_n" by (simp add: i_def dyn_n_def)
  ultimately show ?thesis using all by metis
qed

definition table_ok :: "listener list \<Rightarrow> bool \<Rightarrow> (port, nat) gomap \<Rightarrow> bool" where
  "table_ok heap udp m =
     (map_ok m \<and> (\<forall>(p, l) \<in> set m. l < length heap \<and> heap ! l = \<lparr>ln_udp = udp, ln_port = p, ln_closed = False\<rparr>))"

definition listeners_inv :: "'h server \<Rightarrow> bool" where
  "listeners_inv s =
     (table_ok (sv_heap s) False (sv_tcp_listeners s) \<and> table_ok (sv_heap s) True (sv_udp_listeners s)
      \<and> (\<forall>l < length (sv_heap s). \<not> ln_closed (sv_heap s ! l) \<longrightarrow>
            mget (if ln_udp (sv_heap s ! l) then sv_udp_listeners s else sv_tcp_listeners s) (ln_port (sv_heap s ! l)) = Some l)
      \<and> (\<exists>b. sv_lb s = Some b \<and> sv_filter s = Some (build_filter s b)))"

lemma build_filter_heap [simp]: "build_filter (s\<lparr>sv_heap := h\<rparr>) b = build_filter s b" "build_filter (s\<lparr>sv_filter := f\<rparr>) b = build_filter s b"
  "build_filter (s\<lparr>sv_lb := x\<rparr>) b = build_filter s b"
  by (simp_all add: build_filter_def cong: option.case_cong)

lemma table_ok_get: "table_ok heap udp m \<Longrightarrow> mget m p = Some l \<Longrightarrow> l < length heap \<and> heap ! l = \<lparr>ln_udp = udp, ln_port = p, ln_closed = False\<rparr>"
  by (auto simp: table_ok_def dest: mget_in_set)

lemma table_ok_append: "table_ok heap udp m \<Longrightarrow> table_ok (heap @ [x]) udp m"
  by (auto simp: table_ok_def nth_append)

lemma table_ok_new:
  "table_ok heap udp m \<Longrightarrow> p \<notin> mkeys m \<Longrightarrow>
     table_ok (heap @ [\<lparr>ln_udp = udp, ln_port = p, ln_closed = False\<rparr>]) udp (mset_key p (length heap) m)"
  by (auto simp: table_ok_def set_mset_key_fresh nth_append)

lemma table_ok_close:
  assumes "table_ok heap udp m" "l < length heap" "ln_udp (heap ! l) = udp"
  shows "table_ok (heap[l := (heap ! l)\<lparr>ln_closed := True\<rparr>]) udp (mdel (ln_port (heap ! l)) m)"
  using assms by (auto simp: table_ok_def set_mdel nth_list_update)

lemma table_ok_close_other:
  assumes "table_ok heap udp m" "l < length heap" "ln_udp (heap ! l) \<noteq> udp"
  shows "table_ok (heap[l := (heap ! l)\<lparr>ln_closed := True\<rparr>]) udp m"
  using assms by (auto simp: table_ok_def nth_list_update)

lemma bind_port_inv:
  assumes "listeners_inv s" "bind_port start pr n s = (s', Inr l)"
  shows "listeners_inv s'" "l = length (sv_heap s)" "sv_lb s' = sv_lb s"
    "\<exists>p. sv_heap s' = sv_heap s @ [\<lparr>ln_udp = (pr = UDP), ln_port = p, ln_closed = False\<rparr>]
       \<and> listener_for_port s' pr p = Some l \<and> listener_for_port s pr p = None
       \<and> (if n = 0 then 32768 \<le> unat p \<and> unat p \<le> 60999 else p = of_nat n)
       \<and> (\<forall>pr' q. (pr', q) \<noteq> (pr, p) \<longrightarrow> listener_for_port s' pr' q = listener_for_port s pr' q)"
proof -
  obtain b where b: "sv_lb s = Some b" "sv_filter s = Some (build_filter s b)" using assms(1) by (auto simp: listeners_inv_def)
  obtain p where p: "(if n = 0 then pick_unused_port start (listeners_of pr s) else Some (of_nat n)) = Some p"
    "mget (listeners_of pr s) p = None" "l = length (sv_heap s)"
    "s' = install_filter (set_listeners pr (mset_key p l (listeners_of pr s))
       (s\<lparr>sv_heap := sv_heap s @ [\<lparr>ln_udp = (pr = UDP), ln_port = p, ln_closed = False\<rparr>]\<rparr>))"
    using assms(2) by (auto simp: bind_port_def Let_def split: option.splits if_splits)
  have k: "p \<notin> mkeys (listeners_of pr s)" using p(2) by (simp only: mget_None_iff simp_thms)
  have rng: "if n = 0 then 32768 \<le> unat p \<and> unat p \<le> 60999 else p = of_nat n"
    using p(1) pick_unused_port_Some [of start "listeners_of pr s" p] by (auto split: if_splits)
  show "l = length (sv_heap s)" by (rule p(3))
  show "sv_lb s' = sv_lb s" using p(4) b by (cases pr) (simp_all add: install_filter_def set_listeners_def)
  show "\<exists>p. sv_heap s' = sv_heap s @ [\<lparr>ln_udp = (pr = UDP), ln_port = p, ln_closed = False\<rparr>]
       \<and> listener_for_port s' pr p = Some l \<and> listener_for_port s pr p = None
       \<and> (if n = 0 then 32768 \<le> unat p \<and> unat p \<le> 60999 else p = of_nat n)
       \<and> (\<forall>pr' q. (pr', q) \<noteq> (pr, p) \<longrightarrow> listener_for_port s' pr' q = listener_for_port s pr' q)"
    using p(2,4) b rng
    by (intro exI [of _ p], cases pr)
      (simp_all add: install_filter_def set_listeners_def listeners_of_def listener_for_port_def split: proto.splits)
  show "listeners_inv s'"
  proof (cases pr)
    case UDP
    then show ?thesis
      using assms(1) p k b table_ok_append [of "sv_heap s" False "sv_tcp_listeners s"] table_ok_new [of "sv_heap s" True "sv_udp_listeners s" p]
      by (auto simp: listeners_inv_def install_filter_def set_listeners_def listeners_of_def nth_append less_Suc_eq dest: table_ok_get)
  next
    case TCP
    then show ?thesis
      using assms(1) p k b table_ok_append [of "sv_heap s" True "sv_udp_listeners s"] table_ok_new [of "sv_heap s" False "sv_tcp_listeners s" p]
      by (auto simp: listeners_inv_def install_filter_def set_listeners_def listeners_of_def nth_append less_Suc_eq dest: table_ok_get)
  qed
qed

lemma close_locked_closed: "ln_closed (sv_heap s ! l) \<Longrightarrow> close_locked r l s = (s, False)"
  by (simp add: close_locked_def Let_def)

lemma close_locked_open:
  assumes "listeners_inv s" "l < length (sv_heap s)" "\<not> ln_closed (sv_heap s ! l)" "close_locked True l s = (s', ok)"
  shows "listeners_inv s'" "ok" "sv_heap s' = (sv_heap s)[l := (sv_heap s ! l)\<lparr>ln_closed := True\<rparr>]"
    "listener_for_port s' (if ln_udp (sv_heap s ! l) then UDP else TCP) (ln_port (sv_heap s ! l)) = None"
    "sv_lb s' = sv_lb s"
proof -
  let ?ln = "sv_heap s ! l"
  obtain b where b: "sv_lb s = Some b" "sv_filter s = Some (build_filter s b)" using assms(1) by (auto simp: listeners_inv_def)
  have s': "ok" "s' = install_filter ((if ln_udp ?ln then (s\<lparr>sv_heap := (sv_heap s)[l := ?ln\<lparr>ln_closed := True\<rparr>]\<rparr>)\<lparr>sv_udp_listeners := mdel (ln_port ?ln) (sv_udp_listeners s)\<rparr>
      else (s\<lparr>sv_heap := (sv_heap s)[l := ?ln\<lparr>ln_closed := True\<rparr>]\<rparr>)\<lparr>sv_tcp_listeners := mdel (ln_port ?ln) (sv_tcp_listeners s)\<rparr>))"
    using assms(3,4) by (auto simp: close_locked_def Let_def split: if_splits)
  show "ok" by (rule s'(1))
  show "sv_heap s' = (sv_heap s)[l := (sv_heap s ! l)\<lparr>ln_closed := True\<rparr>]" "sv_lb s' = sv_lb s"
    "listener_for_port s' (if ln_udp ?ln then UDP else TCP) (ln_port ?ln) = None"
    unfolding s'(2) using b by (simp_all add: install_filter_def listener_for_port_def)
  have m: "mget (if ln_udp ?ln then sv_udp_listeners s else sv_tcp_listeners s) (ln_port ?ln) = Some l"
    using assms(1-3) by (simp add: listeners_inv_def)
  have oth: "mget (mdel (ln_port ?ln) t) (ln_port (sv_heap s ! k)) = Some k"
    if "k \<noteq> l" "mget t (ln_port (sv_heap s ! k)) = Some k" "mget t (ln_port ?ln) = Some l" for k t
    using that by auto
  show "listeners_inv s'"
  proof (cases "ln_udp ?ln")
    case True
    then show ?thesis
      unfolding s'(2) using assms(1,2) b m oth table_ok_close [of "sv_heap s" True "sv_udp_listeners s" l]
        table_ok_close_other [of "sv_heap s" False "sv_tcp_listeners s" l]
      by (auto simp: listeners_inv_def install_filter_def nth_list_update)
  next
    case False
    then show ?thesis
      unfolding s'(2) using assms(1,2) b m oth table_ok_close [of "sv_heap s" False "sv_tcp_listeners s" l]
        table_ok_close_other [of "sv_heap s" True "sv_udp_listeners s" l]
      by (auto simp: listeners_inv_def install_filter_def nth_list_update)
  qed
qed

lemma filter_admits_listener:
  assumes "listeners_inv s" "listener_for_port s pr p = Some l" "sv_lb s = Some b" "own_addr b" "tunnel_addr src" "tunnel_addr (lb_addr b)"
  shows "\<exists>cfg. sv_filter s = Some cfg \<and> rules_admit cfg pr src (lb_addr b, p)"
proof -
  have f: "sv_filter s = Some (build_filter s b)" using assms(1,3) by (auto simp: listeners_inv_def)
  have "serves_tcp s p" if "pr = TCP"
    using assms(2) that by (auto simp: listener_for_port_def serves_tcp_def dest: mget_Some_key split: option.splits)
  moreover have "serves_udp s p" if "pr = UDP"
    using assms(2) that by (auto simp: listener_for_port_def serves_udp_def dest: mget_Some_key split: option.splits)
  ultimately show ?thesis using rules_admit_build [OF assms(4-6), of s p] f by (cases pr) auto
qed

text \<open>Listening binds one port and nothing else: the new listener owns a port that was free (a
  dynamic one when none was asked for), every other port keeps its listener, the tables and the
  installed filter stay consistent, and the filter in force admits the traffic of the new
  listener at once.\<close>

theorem listen_binds_port:
  assumes "listeners_inv s" "bind_port start pr n s = (s', Inl e) \<or> bind_port start pr n s = (s', Inr l)"
    "sv_lb s = Some b" "own_addr b" "tunnel_addr src" "tunnel_addr (lb_addr b)"
  shows "listeners_inv s' \<and> (bind_port start pr n s = (s', Inl e) \<longrightarrow> s' = s)
    \<and> (bind_port start pr n s = (s', Inr l) \<longrightarrow>
        (\<exists>p cfg. listener_for_port s pr p = None \<and> listener_for_port s' pr p = Some l
           \<and> (if n = 0 then 32768 \<le> unat p \<and> unat p \<le> 60999 else p = of_nat n)
           \<and> (\<forall>pr' q. (pr', q) \<noteq> (pr, p) \<longrightarrow> listener_for_port s' pr' q = listener_for_port s pr' q)
           \<and> sv_filter s' = Some cfg \<and> rules_admit cfg pr src (lb_addr b, p)))"
proof (cases "snd (bind_port start pr n s)")
  case (Inl e')
  then have "fst (bind_port start pr n s) = s" by (auto simp: bind_port_def Let_def split: option.splits if_splits)
  then show ?thesis using assms(1,2) Inl by auto
next
  case (Inr l')
  then have r: "bind_port start pr n s = (s', Inr l)" using assms(2) by auto
  note i = bind_port_inv [OF assms(1) r]
  obtain p where p: "listener_for_port s' pr p = Some l" "listener_for_port s pr p = None"
    "if n = 0 then 32768 \<le> unat p \<and> unat p \<le> 60999 else p = of_nat n"
    "\<forall>pr' q. (pr', q) \<noteq> (pr, p) \<longrightarrow> listener_for_port s' pr' q = listener_for_port s pr' q"
    using i(4) by blast
  have "sv_lb s' = Some b" using i(3) assms(3) by simp
  then obtain cfg where "sv_filter s' = Some cfg" "rules_admit cfg pr src (lb_addr b, p)"
    using filter_admits_listener [OF i(1) p(1) _ assms(4-6)] by blast
  then show ?thesis using i(1) p r by auto
qed

definition sample_up :: "nat server" where
  "sample_up = rebuild_filter (sample_conf\<lparr>sv_lb := Some sample_own\<rparr>)"

lemma sample_up_inv: "listeners_inv sample_up"
  by (simp add: listeners_inv_def sample_up_def rebuild_filter_def install_filter_def table_ok_def)
    (simp add: sample_conf_def)

lemma sample_own_tunnel: "tunnel_addr (lb_addr sample_own)"
  by (simp add: sample_own_def new_loco_backend_def Let_def tc_addr_bytes)

theorem listen_binds_port_witness:
  "\<exists>s'. bind_port 0 TCP 8080 sample_up = (s', Inr 0) \<and> listeners_inv s' \<and> listener_for_port s' TCP 8080 = Some 0"
proof -
  obtain s' where e: "bind_port 0 TCP 8080 sample_up = (s', Inr 0)"
    by (simp add: bind_port_def sample_up_def rebuild_filter_def install_filter_def sample_conf_def listeners_of_def
        set_listeners_def Let_def)
  have lb: "sv_lb sample_up = Some sample_own"
    by (simp add: sample_up_def rebuild_filter_def install_filter_def)
  have z: "tunnel_addr (IP6 (zero_bytes 16) [])" by simp
  from listen_binds_port [OF sample_up_inv disjI2 [OF e] lb sample_own_addr z sample_own_tunnel] e
  show ?thesis by auto
qed

text \<open>Closing a listener releases exactly its port: it is gone from the tables, the filter in force
  is the one rebuilt without it, no other listener is disturbed, and closing it again reports
  that it was closed and changes nothing.\<close>

theorem close_releases_port:
  assumes "listeners_inv s" "l < length (sv_heap s)" "listener_close l s = (s', ok)"
  shows "listeners_inv s' \<and> (ok \<longleftrightarrow> \<not> ln_closed (sv_heap s ! l)) \<and> ln_closed (sv_heap s' ! l)
    \<and> listener_close l s' = (s', False)
    \<and> (ok \<longrightarrow> listener_for_port s' (if ln_udp (sv_heap s ! l) then UDP else TCP) (ln_port (sv_heap s ! l)) = None)
    \<and> (\<forall>k < length (sv_heap s). k \<noteq> l \<longrightarrow> sv_heap s' ! k = sv_heap s ! k)"
proof (cases "ln_closed (sv_heap s ! l)")
  case True
  then have "s' = s" "\<not> ok" using assms(3) by (simp_all add: listener_close_def close_locked_closed)
  then show ?thesis using assms(1) True by (simp add: listener_close_def close_locked_closed)
next
  case False
  note c = close_locked_open [OF assms(1,2) False assms(3) [unfolded listener_close_def]]
  have "ln_closed (sv_heap s' ! l)" using c(3) assms(2) by simp
  moreover from this have "listener_close l s' = (s', False)" by (simp add: listener_close_def close_locked_closed)
  ultimately show ?thesis using c False by (simp add: nth_list_update)
qed

theorem close_releases_port_witness:
  "\<exists>s' s''. bind_port 0 TCP 8080 sample_up = (s', Inr 0) \<and> listener_close 0 s' = (s'', True)
     \<and> listener_for_port s'' TCP 8080 = None"
proof -
  obtain s' where e: "bind_port 0 TCP 8080 sample_up = (s', Inr 0)"
    by (simp add: bind_port_def sample_up_def rebuild_filter_def install_filter_def sample_conf_def listeners_of_def
        set_listeners_def Let_def)
  obtain p where h: "sv_heap s' = [\<lparr>ln_udp = False, ln_port = p, ln_closed = False\<rparr>]" "p = of_nat 8080"
    using bind_port_inv(4) [OF sample_up_inv e]
    by (auto simp: sample_up_def rebuild_filter_def install_filter_def sample_conf_def)
  obtain s'' ok where c: "listener_close 0 s' = (s'', ok)" by fastforce
  from close_releases_port [OF bind_port_inv(1) [OF sample_up_inv e] _ c] show ?thesis using h e c by auto
qed

section \<open>Lemmas on starting and closing\<close>

lemma loco_start_no_panic:
  "lb_dm b = Some ((k, r) # rs) \<Longrightarrow> loco_start ns_ok rc_ok mc b \<noteq> None"
  by (simp add: loco_start_def start_netmap_def derp_region_id_def Let_def)

lemma allowed_of_iff: "(case allowed_of ks of None \<Rightarrow> True | Some m \<Rightarrow> mget m k = Some True) \<longleftrightarrow> ks = [] \<or> k \<in> set ks"
proof -
  have "mget (foldl (\<lambda>m k. mset_key k True m) m ks) k = (if k \<in> set ks then Some True else mget m k)" for m
    by (induction ks arbitrary: m) auto
  then show ?thesis by (simp add: allowed_of_def)
qed

lemma sv_lb_same: "sv_lb s = None \<Longrightarrow> s\<lparr>sv_lb := None, sv_filter := f\<rparr> = s\<lparr>sv_filter := f\<rparr>"
  by (cases s) simp

text \<open>An expansion that behaves as \<open>expand_never_null\<close> says.\<close>

definition expands_region :: "'w start_env \<Rightarrow> bool" where
  "expands_region env =
     (\<forall>ci w w' ci'. ci_region_id ci \<noteq> 0 \<longrightarrow> se_expand env ci w = (w', Inr ci') \<longrightarrow> ci_region ci' \<noteq> [])"

lemma expands_region_expand:
  "picks_member pick \<Longrightarrow> (\<And>n. 0 < n \<Longrightarrow> rnd n < n) \<Longrightarrow> se_expand env = expand fetch pick shuffle rnd opts \<Longrightarrow> expands_region env"
  unfolding expands_region_def by (metis expand_sound(2))

lemma start_region_no_panic:
  assumes "expands_region env"
  shows "start_region env s w \<noteq> None"
proof (cases "sv_region s")
  case None
  let ?ci = "zero_conn_info\<lparr>ci_region_id := (if sv_region_id s \<noteq> 0 then sv_region_id s else -1)\<rparr>"
  have nz: "ci_region_id ?ci \<noteq> 0" by simp
  obtain w' r where r: "se_expand env ?ci w = (w', r)" by (cases "se_expand env ?ci w")
  show ?thesis
  proof (cases r)
    case (Inr ci')
    then have "ci_region ci' \<noteq> []" using assms r nz unfolding expands_region_def by blast
    then show ?thesis using r Inr None by (auto simp: start_region_def simp del: conn_info.update_convs split: list.splits)
  qed (use r None in \<open>simp add: start_region_def\<close>)
qed (simp add: start_region_def)

text \<open>The backend a start creates, and what a successful start leaves.\<close>

definition start_priv :: "'w start_env \<Rightarrow> 'h server \<Rightarrow> key32" where
  "start_priv env s = (if key_is_zero (sv_key s) then se_new_node env else sv_key s)"

definition start_psk :: "'w start_env \<Rightarrow> 'h server \<Rightarrow> key32" where
  "start_psk env s = (if psk_is_zero (sv_psk s) then se_new_psk env else sv_psk s)"

definition start_backend :: "'w start_env \<Rightarrow> 'h server \<Rightarrow> derp_region \<Rightarrow> backend" where
  "start_backend env s g =
     (new_loco_backend (start_priv env s) (se_public env (start_priv env s)) (start_psk env s) (se_nonce env)
        (se_disco env (start_priv env s)))
       \<lparr>lb_dm := Some [(dr_id g, g)], lb_allowed := allowed_of (sv_allowed_clients s)\<rparr>"

lemma start_backend_fields [simp]:
  "lb_pub (start_backend env s g) = se_public env (start_priv env s)"
  "lb_psk (start_backend env s g) = start_psk env s"
  "lb_disco_public (start_backend env s g) = se_disco env (start_priv env s)"
  "lb_allowed (start_backend env s g) = allowed_of (sv_allowed_clients s)"
  "lb_dm (start_backend env s g) = Some [(dr_id g, g)]"
  "lb_addr (start_backend env s g) = tc_addr_for_key (se_public env (start_priv env s))"
  "lb_addr_prefix (start_backend env s g) = pfx_of (lb_addr (start_backend env s g))"
  "lb_clients (start_backend env s g) = []" "lb_server_pub (start_backend env s g) = key_zero"
  by (simp_all add: start_backend_def new_loco_backend_def Let_def pfx_of_def)

text \<open>After the checks and with the region at hand, only the subsystems can fail.\<close>

lemma start_locked_region:
  assumes "start_region env s w = Some (w1, Inr g)" "dr_id g \<noteq> 0" "sv_lb s = None" "\<not> sv_udp_idle s < 0" "\<not> sv_disable_psk s"
  shows "start_locked env s w =
       (if \<not> se_netmon_ok env then Some (s, w1, True, Some NetmonError)
        else if \<not> se_engine_ok env then Some (s, w1, True, Some EngineError)
        else if \<not> se_netstack_ok env then Some (s, w1, True, Some NetstackError)
        else
          let lb = start_backend env s g; f = Some (build_filter s lb)
          in if \<not> se_ns_start_ok env then Some (s\<lparr>sv_filter := f\<rparr>, w1, True, Some (BackendError StartNetstack))
             else if \<not> se_reconfig_ok env then Some (s\<lparr>sv_filter := f\<rparr>, w1, True, Some (BackendError StartReconfig))
             else Some (s\<lparr>sv_lb := Some (fst (the (loco_start True True (se_mc_disco env) lb))), sv_filter := f\<rparr>, w1, False, None))"
proof -
  have dm: "lb_dm (start_backend env s g) = Some [(dr_id g, g)]" by simp
  have l: "loco_start ns rc mc (start_backend env s g) \<noteq> None" for ns rc mc by (rule loco_start_no_panic [OF dm])
  have e: "loco_start ns rc mc b = Some (b', es, x) \<Longrightarrow>
      x = (if \<not> ns then Some StartNetstack else if \<not> rc then Some StartReconfig else None)" for ns rc mc b b' es x
    by (auto simp: loco_start_def Let_def split: if_splits option.splits)
  obtain b' es x where b: "loco_start (se_ns_start_ok env) (se_reconfig_ok env) (se_mc_disco env) (start_backend env s g) = Some (b', es, x)"
    using l [of "se_ns_start_ok env" "se_reconfig_ok env" "se_mc_disco env"] by auto
  have bf: "build_filter (s\<lparr>sv_lb := y\<rparr>) b = build_filter s b" for y b by (simp add: build_filter_def cong: option.case_cong)
  let ?lb = "start_backend env s g"
  have st: "start_locked env s w =
       (if \<not> se_netmon_ok env then Some (s, w1, True, Some NetmonError)
        else if \<not> se_engine_ok env then Some (s, w1, True, Some EngineError)
        else if \<not> se_netstack_ok env then Some (s, w1, True, Some NetstackError)
        else (case loco_start (se_ns_start_ok env) (se_reconfig_ok env) (se_mc_disco env) ?lb of
                None \<Rightarrow> None
              | Some (lb', es, None) \<Rightarrow> Some ((rebuild_filter (s\<lparr>sv_lb := Some ?lb\<rparr>))\<lparr>sv_lb := Some lb'\<rparr>, w1, False, None)
              | Some (lb', es, Some e) \<Rightarrow> Some ((rebuild_filter (s\<lparr>sv_lb := Some ?lb\<rparr>))\<lparr>sv_lb := None\<rparr>, w1, True, Some (BackendError e))))"
    using assms unfolding start_locked_def start_priv_def start_psk_def start_backend_def Let_def by simp
  show ?thesis
    unfolding st using e [OF b] b assms(3)
    by (cases "se_ns_start_ok env"; cases "se_reconfig_ok env")
      (simp_all add: rebuild_filter_def install_filter_def bf sv_lb_same)
qed

definition started_backend :: "'w start_env \<Rightarrow> 'h server \<Rightarrow> derp_region \<Rightarrow> backend" where
  "started_backend env s g = fst (the (loco_start True True (se_mc_disco env) (start_backend env s g)))"

lemma started_backend:
  "lb_inv (started_backend env s g) \<and> (\<exists>nm. started_backend env s g = (start_backend env s g)\<lparr>lb_nm := Some nm\<rparr>)"
proof -
  have "lb_dm (start_backend env s g) = Some [(dr_id g, g)]" by simp
  from loco_start_no_panic [OF this]
  have "loco_start True True (se_mc_disco env) (start_backend env s g) \<noteq> None" .
  then obtain b es e where l: "loco_start True True (se_mc_disco env) (start_backend env s g) = Some (b, es, e)" by auto
  have gen: "loco_start True True mc x = Some (b, es, e) \<Longrightarrow> e = None \<and> (\<exists>nm. b = x\<lparr>lb_nm := Some nm\<rparr>)" for mc x
    by (auto simp: loco_start_def Let_def split: option.splits)
  from gen [OF l] obtain nm where nm: "e = None" "b = (start_backend env s g)\<lparr>lb_nm := Some nm\<rparr>" by blast
  then have "lb_inv b" using lb_inv_started l unfolding start_backend_def by blast
  then show ?thesis unfolding started_backend_def l option.sel fst_conv using nm(2) by blast
qed

lemma start_locked_early:
  assumes "start_region env s w = Some (w1, x)"
    "sv_lb s \<noteq> None \<or> sv_udp_idle s < 0 \<or> sv_disable_psk s \<or> (\<exists>e. x = Inl e) \<or> (\<exists>g. x = Inr g \<and> dr_id g = 0)"
  shows "\<exists>w2 e. start_locked env s w = Some (s, w2, False, Some e) \<and> (e = AlreadyStarted \<longleftrightarrow> sv_lb s \<noteq> None)
        \<and> e \<notin> {NetmonError, EngineError, NetstackError} \<and> (\<forall>y. e \<noteq> BackendError y)"
proof -
  have nr: "x = Inl e \<Longrightarrow> \<exists>y. e = NoRegion y" for e
    using assms(1) by (auto simp: start_region_def split: option.splits prod.splits sum.splits list.splits)
  show ?thesis
  proof (cases "sv_lb s \<noteq> None \<or> sv_udp_idle s < 0 \<or> sv_disable_psk s")
    case True
    then show ?thesis by (auto simp: start_locked_def)
  next
    case False
    then show ?thesis using assms nr by (cases x) (auto simp: start_locked_def Let_def)
  qed
qed

text \<open>A successful start, read backwards.\<close>

lemma start_locked_running:
  assumes "start_locked env s w = Some (s', w', closed, None)"
  obtains g where "start_region env s w = Some (w', Inr g)" "dr_id g \<noteq> 0" "sv_lb s = None" "\<not> closed"
    "s' = s\<lparr>sv_lb := Some (started_backend env s g), sv_filter := Some (build_filter s (start_backend env s g))\<rparr>"
proof -
  have "start_region env s w \<noteq> None"
  proof
    assume "start_region env s w = None"
    then have "start_locked env s w \<noteq> Some (s', w', closed, None)"
      unfolding start_locked_def Let_def by (simp only: option.case) simp
    then show False using assms by blast
  qed
  then obtain w1 x where r: "start_region env s w = Some (w1, x)" by auto
  have n: "\<not> (sv_lb s \<noteq> None \<or> sv_udp_idle s < 0 \<or> sv_disable_psk s \<or> (\<exists>e. x = Inl e) \<or> (\<exists>g. x = Inr g \<and> dr_id g = 0))"
  proof
    assume "sv_lb s \<noteq> None \<or> sv_udp_idle s < 0 \<or> sv_disable_psk s \<or> (\<exists>e. x = Inl e) \<or> (\<exists>g. x = Inr g \<and> dr_id g = 0)"
    from start_locked_early [OF r this] assms show False by auto
  qed
  then obtain g where g: "x = Inr g" "dr_id g \<noteq> 0" by (cases x) auto
  note st = start_locked_region [OF r [unfolded g(1)] g(2)]
  show thesis
    by (rule that) (use n r g assms st in \<open>auto simp: Let_def started_backend_def split: if_splits\<close>)
qed


definition sample_env :: "unit start_env" where
  "sample_env =
     \<lparr>se_new_node = replicate 32 1, se_new_psk = replicate 32 3, se_nonce = replicate 32 4, se_public = (\<lambda>k. replicate 32 2),
      se_disco = (\<lambda>k. replicate 32 5), se_mc_disco = replicate 32 5, se_expand = sample_expand, se_netmon_ok = True,
      se_engine_ok = True, se_netstack_ok = True, se_ns_start_ok = True, se_reconfig_ok = True\<rparr>"


lemma close_locked_fields:
  "sv_lb (fst (close_locked r l s)) = sv_lb s \<and> length (sv_heap (fst (close_locked r l s))) = length (sv_heap s)"
  by (auto simp: close_locked_def Let_def install_filter_def split: option.splits)

lemma close_locked_heap:
  "sv_heap (fst (close_locked False l s)) = (if ln_closed (sv_heap s ! l) then sv_heap s else (sv_heap s)[l := (sv_heap s ! l)\<lparr>ln_closed := True\<rparr>])"
  by (auto simp: close_locked_def Let_def)

lemma close_locked_tables:
  "\<not> ln_closed (sv_heap s ! l) \<Longrightarrow> ln_udp (sv_heap s ! l) = udp \<Longrightarrow>
     (if udp then sv_udp_listeners else sv_tcp_listeners) (fst (close_locked False l s)) =
       mdel (ln_port (sv_heap s ! l)) ((if udp then sv_udp_listeners else sv_tcp_listeners) s)
     \<and> (if udp then sv_tcp_listeners else sv_udp_listeners) (fst (close_locked False l s)) = (if udp then sv_tcp_listeners else sv_udp_listeners) s"
  by (auto simp: close_locked_def Let_def)

text \<open>Closing all listeners of one table empties it and leaves the other one alone.\<close>

lemma close_all_table:
  assumes "table_ok (sv_heap s) udp ((if udp then sv_udp_listeners else sv_tcp_listeners) s)"
    "table_ok (sv_heap s) (\<not> udp) ((if udp then sv_tcp_listeners else sv_udp_listeners) s)"
    "(if udp then sv_udp_listeners else sv_tcp_listeners) s = m"
  shows "(if udp then sv_udp_listeners else sv_tcp_listeners) (close_all (map snd m) s) = []
    \<and> (if udp then sv_tcp_listeners else sv_udp_listeners) (close_all (map snd m) s) = (if udp then sv_tcp_listeners else sv_udp_listeners) s
    \<and> table_ok (sv_heap (close_all (map snd m) s)) (\<not> udp) ((if udp then sv_tcp_listeners else sv_udp_listeners) s)
    \<and> length (sv_heap (close_all (map snd m) s)) = length (sv_heap s)
    \<and> (\<forall>k < length (sv_heap s). sv_heap (close_all (map snd m) s) ! k =
          (if k \<in> snd ` set m then (sv_heap s ! k)\<lparr>ln_closed := True\<rparr> else sv_heap s ! k))"
  using assms
proof (induction m arbitrary: s)
  case Nil
  then show ?case by (simp add: close_all_def)
next
  case (Cons e m)
  obtain p l where e: "e = (p, l)" by (cases e)
  have l: "l < length (sv_heap s)" "sv_heap s ! l = \<lparr>ln_udp = udp, ln_port = p, ln_closed = False\<rparr>"
    and pm: "p \<notin> mkeys m"
    using Cons.prems(1,3) e by (auto simp: table_ok_def)
  let ?s = "fst (close_locked False l s)"
  have h: "sv_heap ?s = (sv_heap s)[l := (sv_heap s ! l)\<lparr>ln_closed := True\<rparr>]" using l by (simp add: close_locked_heap)
  have del: "mdel p ((p, l) # m) = m" using pm by (auto simp: mdel_def filter_id_conv rev_image_eqI)
  have tabs: "(if udp then sv_udp_listeners else sv_tcp_listeners) ?s = m"
    "(if udp then sv_tcp_listeners else sv_udp_listeners) ?s = (if udp then sv_tcp_listeners else sv_udp_listeners) s"
    using close_locked_tables [of s l udp] l Cons.prems(3) e del by simp_all
  have "table_ok (sv_heap ?s) udp ((if udp then sv_udp_listeners else sv_tcp_listeners) ?s)"
    using table_ok_close [OF Cons.prems(1) l(1)] l h tabs(1) del Cons.prems(3) e by simp
  moreover have "table_ok (sv_heap ?s) (\<not> udp) ((if udp then sv_tcp_listeners else sv_udp_listeners) ?s)"
    using table_ok_close_other [OF Cons.prems(2) l(1)] l h tabs(2) by simp
  ultimately have ih: "(if udp then sv_udp_listeners else sv_tcp_listeners) (close_all (map snd m) ?s) = []"
    "(if udp then sv_tcp_listeners else sv_udp_listeners) (close_all (map snd m) ?s) = (if udp then sv_tcp_listeners else sv_udp_listeners) s"
    "table_ok (sv_heap (close_all (map snd m) ?s)) (\<not> udp) ((if udp then sv_tcp_listeners else sv_udp_listeners) s)"
    "length (sv_heap (close_all (map snd m) ?s)) = length (sv_heap s)"
    "\<forall>k < length (sv_heap s). sv_heap (close_all (map snd m) ?s) ! k =
          (if k \<in> snd ` set m then (sv_heap ?s ! k)\<lparr>ln_closed := True\<rparr> else sv_heap ?s ! k)"
    using Cons.IH [OF _ _ tabs(1)] tabs(2) close_locked_fields [of False l s] by simp_all
  have c: "close_all (map snd (e # m)) s = close_all (map snd m) ?s" by (simp add: close_all_def e)
  have "sv_heap (close_all (map snd m) ?s) ! k =
      (if k \<in> snd ` set (e # m) then (sv_heap s ! k)\<lparr>ln_closed := True\<rparr> else sv_heap s ! k)" if "k < length (sv_heap s)" for k
    using ih(5) that h l e by (auto simp: nth_list_update)
  then show ?case using ih(1-4) unfolding c by blast
qed

text \<open>C22. Closing a started server closes every listener: none is left open, no port of either
  protocol has a listener any more, and a server that was never started is left alone.\<close>

theorem server_close_all:
  assumes "listeners_inv s" "server_close s = (s', ok)"
  shows "ok \<and> (\<forall>l < length (sv_heap s'). ln_closed (sv_heap s' ! l)) \<and> length (sv_heap s') = length (sv_heap s)
    \<and> (\<forall>pr p. listener_for_port s' pr p = None) \<and> server_close (s\<lparr>sv_lb := None\<rparr>) = (s\<lparr>sv_lb := None\<rparr>, False)"
proof -
  let ?t = "close_all (map snd (sv_tcp_listeners s)) s"
  have t: "sv_tcp_listeners ?t = []" "sv_udp_listeners ?t = sv_udp_listeners s"
    "table_ok (sv_heap ?t) True (sv_udp_listeners s)" "length (sv_heap ?t) = length (sv_heap s)"
    "\<forall>k < length (sv_heap s). sv_heap ?t ! k = (if k \<in> snd ` set (sv_tcp_listeners s) then (sv_heap s ! k)\<lparr>ln_closed := True\<rparr> else sv_heap s ! k)"
    using close_all_table [of s False "sv_tcp_listeners s"] assms(1) by (simp_all add: listeners_inv_def)
  have s': "s' = close_all (map snd (sv_udp_listeners ?t)) ?t" "ok"
    using assms by (auto simp: server_close_def listeners_inv_def Let_def)
  have e: "table_ok (sv_heap ?t) False []" by (simp add: table_ok_def)
  have u: "sv_udp_listeners s' = []" "sv_tcp_listeners s' = []" "length (sv_heap s') = length (sv_heap s)"
    "\<forall>k < length (sv_heap s). sv_heap s' ! k = (if k \<in> snd ` set (sv_udp_listeners s) then (sv_heap ?t ! k)\<lparr>ln_closed := True\<rparr> else sv_heap ?t ! k)"
    using close_all_table [of ?t True "sv_udp_listeners s"] t(1,3-5) e by (simp_all add: s'(1) t(2))
  have "ln_closed (sv_heap s' ! l)" if l: "l < length (sv_heap s)" for l
  proof (cases "ln_closed (sv_heap s ! l)")
    case True
    then show ?thesis using l t(5) u(4) by simp
  next
    case False
    then have m: "mget (if ln_udp (sv_heap s ! l) then sv_udp_listeners s else sv_tcp_listeners s) (ln_port (sv_heap s ! l)) = Some l"
      using assms(1) l by (simp add: listeners_inv_def)
    then have "l \<in> snd ` set (sv_udp_listeners s) \<or> l \<in> snd ` set (sv_tcp_listeners s)"
      by (auto dest!: mget_in_set split: if_splits intro: rev_image_eqI)
    then show ?thesis using l t(5) u(4) by auto
  qed
  then show ?thesis using s'(2) u by (auto simp: listener_for_port_def server_close_def split: proto.splits)
qed

theorem server_close_all_witness:
  "\<exists>s' s''. bind_port 0 TCP 8080 sample_up = (s', Inr 0) \<and> server_close s' = (s'', True) \<and> listener_for_port s'' TCP 8080 = None"
proof -
  obtain s' where e: "bind_port 0 TCP 8080 sample_up = (s', Inr 0)"
    by (simp add: bind_port_def sample_up_def rebuild_filter_def install_filter_def sample_conf_def listeners_of_def
        set_listeners_def Let_def)
  obtain s'' ok where c: "server_close s' = (s'', ok)" by fastforce
  from server_close_all [OF bind_port_inv(1) [OF sample_up_inv e] c] show ?thesis using e c by auto
qed

section \<open>Handing a connection to Accept\<close>

text \<open>\<open>listener.handle\<close> and \<open>Accept\<close> meet on an unbuffered channel: \<open>rv_pending\<close> are the connections
  whose \<open>handle\<close> call is blocked in its select, \<open>rv_accepted\<close> those an \<open>Accept\<close> call returned and
  \<open>rv_dropped\<close> those closed because the listener was; \<open>rv_arrived\<close> is the history of all calls.
  When both arms of a select are ready either may be taken.\<close>

record 'c rendezvous =
  rv_arrived :: "'c list"
  rv_pending :: "'c list"
  rv_accepted :: "'c list"
  rv_dropped :: "'c list"
  rv_closed :: bool

definition rv_start :: "'c rendezvous" where
  "rv_start = \<lparr>rv_arrived = [], rv_pending = [], rv_accepted = [], rv_dropped = [], rv_closed = False\<rparr>"

inductive rv_step :: "'c rendezvous \<Rightarrow> 'c rendezvous \<Rightarrow> bool" where
  handle: "rv_step s (s\<lparr>rv_arrived := c # rv_arrived s, rv_pending := c # rv_pending s\<rparr>)"
| accept: "rv_pending s = xs @ c # ys \<Longrightarrow> rv_step s (s\<lparr>rv_pending := xs @ ys, rv_accepted := c # rv_accepted s\<rparr>)"
| drop: "rv_closed s \<Longrightarrow> rv_pending s = xs @ c # ys \<Longrightarrow> rv_step s (s\<lparr>rv_pending := xs @ ys, rv_dropped := c # rv_dropped s\<rparr>)"
| close: "rv_step s (s\<lparr>rv_closed := True\<rparr>)"

inductive_cases rv_stepE: "rv_step s t"

definition rv_inv :: "'c rendezvous \<Rightarrow> bool" where
  "rv_inv s =
     (mset (rv_arrived s) = mset (rv_pending s) + mset (rv_accepted s) + mset (rv_dropped s)
      \<and> (\<not> rv_closed s \<longrightarrow> rv_dropped s = []))"

lemma rv_inv_steps: "rv_step\<^sup>*\<^sup>* s t \<Longrightarrow> rv_inv s \<Longrightarrow> rv_inv t"
proof (induction rule: rtranclp_induct)
  case (step t u)
  then show ?case by (auto simp: rv_inv_def elim!: rv_stepE)
qed

text \<open>C21. No connection is lost or served twice: whatever the interleaving of arrivals, accepts and
  the close, every connection handed to a listener is exactly one of waiting, accepted and
  closed; none is closed while the listener is open, and once it is closed every waiting one can
  be released.\<close>

theorem handoff_exactly_once:
  assumes "rv_step\<^sup>*\<^sup>* rv_start s"
  shows "mset (rv_arrived s) = mset (rv_pending s) + mset (rv_accepted s) + mset (rv_dropped s)
    \<and> (\<not> rv_closed s \<longrightarrow> rv_dropped s = [])
    \<and> (rv_closed s \<longrightarrow> (\<exists>t. rv_step\<^sup>*\<^sup>* s t \<and> rv_pending t = [] \<and> rv_accepted t = rv_accepted s))"
proof -
  have i: "rv_inv s" using rv_inv_steps [OF assms] by (simp add: rv_inv_def rv_start_def)
  have "\<exists>t. rv_step\<^sup>*\<^sup>* u t \<and> rv_pending t = [] \<and> rv_accepted t = rv_accepted u" if "rv_closed u" for u :: "'a rendezvous"
    using that
  proof (induction "rv_pending u" arbitrary: u)
    case Nil
    then show ?case by auto
  next
    case (Cons c cs)
    let ?v = "u\<lparr>rv_pending := cs, rv_dropped := c # rv_dropped u\<rparr>"
    have st: "rv_step u ?v" using rv_step.drop [of u "[]" c cs] Cons by simp
    obtain t where "rv_step\<^sup>*\<^sup>* ?v t" "rv_pending t = []" "rv_accepted t = rv_accepted u"
      using Cons(1) [of ?v] Cons(3) by auto
    then show ?case using st by (meson converse_rtranclp_into_rtranclp)
  qed
  then show ?thesis using i by (simp add: rv_inv_def)
qed

theorem handoff_exactly_once_witness:
  "\<exists>s. rv_step\<^sup>*\<^sup>* rv_start s \<and> rv_accepted s = [7 :: nat] \<and> mset (rv_arrived s) = {#7#}"
proof -
  let ?a = "rv_start\<lparr>rv_arrived := [7 :: nat], rv_pending := [7]\<rparr>"
  let ?b = "?a\<lparr>rv_pending := [], rv_accepted := [7]\<rparr>"
  have "rv_step rv_start ?a" using rv_step.handle [of rv_start 7] by (simp add: rv_start_def)
  moreover have "rv_step ?a ?b" using rv_step.accept [of ?a "[]" 7 "[]"] by (simp add: rv_start_def)
  ultimately have r: "rv_step\<^sup>*\<^sup>* rv_start ?b" by (meson rtranclp.rtrancl_refl rtranclp.rtrancl_into_rtrancl)
  from handoff_exactly_once [OF r] r show ?thesis by (intro exI [of _ ?b]) (simp add: rv_start_def)
qed

end
