(* ===== verification/ClientSide.thy ===== *)
theory ClientSide
  imports Serving
begin

text \<open>
  The client (\<open>Client\<close> in \<open>tailcat.go\<close>): its lazy start, the reception of the server's
  acknowledgement, the ping loop, and the dial methods. The engine, the DERP map expansion and
  the outcome of sending a packet are parameters; the events the ping loop selects on are a list
  in the order in which they are taken.
\<close>

record client =
  cl_server :: string
  cl_conf_key :: key32
  cl_derp_map_url :: string
  cl_lb :: "backend option"
  cl_ci :: conn_info
  cl_meowed :: bool
  cl_server_addr :: ipaddr
  cl_key :: key32
  cl_started :: bool
  cl_up :: bool

definition new_client :: "string \<Rightarrow> client" where
  "new_client server =
     \<lparr>cl_server = server, cl_conf_key = key_zero, cl_derp_map_url = [], cl_lb = None, cl_ci = zero_conn_info,
      cl_meowed = False, cl_server_addr = NoIP, cl_key = key_zero, cl_started = False, cl_up = False\<rparr>"

text \<open>\<open>nodeKeyLocked\<close>: \<open>fresh\<close> is the key \<open>key.NewNode\<close> would return.\<close>

definition node_key_locked :: "key32 \<Rightarrow> client \<Rightarrow> client \<times> key32" where
  "node_key_locked fresh c =
     (let c = (if key_is_zero (cl_key c)
               then (if \<not> key_is_zero (cl_conf_key c) then c\<lparr>cl_key := cl_conf_key c\<rparr> else c\<lparr>cl_key := fresh\<rparr>)
               else c)
      in (c, cl_key c))"

definition client_public_key :: "(key32 \<Rightarrow> key32) \<Rightarrow> key32 \<Rightarrow> client \<Rightarrow> client \<times> key32" where
  "client_public_key pub fresh c = (case node_key_locked fresh c of (c, k) \<Rightarrow> (c, pub k))"

datatype client_error = ClParse addr_error | ClLegacy | ClNetmon | ClEngine | ClNetstack | ClExpand expand_error
  | ClNoRegions | ClBackend start_error | ClTimeout bool

record 'w client_env =
  ce_fresh_key :: key32
  ce_nonce :: bytes
  ce_public :: "key32 \<Rightarrow> key32"
  ce_disco :: "key32 \<Rightarrow> key32"
  ce_mc_disco :: key32
  ce_unmarshal :: "bytes \<Rightarrow> wire_conn_info option"
  ce_expand :: "conn_info \<Rightarrow> 'w \<Rightarrow> 'w \<times> (expand_error + conn_info)"
  ce_netmon_ok :: bool
  ce_engine_ok :: bool
  ce_netstack_ok :: bool
  ce_ns_start_ok :: bool
  ce_reconfig_ok :: bool

text \<open>\<open>initLocked\<close>; a backend created by a failing call is closed and forgotten.\<close>

definition init_locked :: "'w client_env \<Rightarrow> client \<Rightarrow> client \<times> client_error option" where
  "init_locked env c =
     (if cl_lb c \<noteq> None then (c, None)
      else
        (case parse_conn_addr (ce_unmarshal env) (cl_server c) of
           Inl e \<Rightarrow> (c, Some (ClParse e))
         | Inr ci \<Rightarrow>
             if key_is_zero (ci_disco ci) then (c, Some ClLegacy)
             else
               (case node_key_locked (ce_fresh_key env) c of
                  (c, priv) \<Rightarrow>
                    let lb = (new_loco_backend priv (ce_public env priv) (ci_psk ci) (ce_nonce env) (ce_disco env priv))
                          \<lparr>lb_dm := Some [], lb_server_pub := ci_server_public ci, lb_server_disco := ci_disco ci\<rparr>
                    in if \<not> ce_netmon_ok env then (c, Some ClNetmon)
                       else if \<not> ce_engine_ok env then (c, Some ClEngine)
                       else if \<not> ce_netstack_ok env then (c, Some ClNetstack)
                       else (c\<lparr>cl_ci := ci, cl_lb := Some lb, cl_server_addr := tc_addr_for_key (ci_server_public ci),
                               cl_meowed := False\<rparr>, None))))"

text \<open>\<open>ensureStarted\<close>; None is a panic.\<close>

definition ensure_started ::
  "'w client_env \<Rightarrow> client \<Rightarrow> 'w \<Rightarrow> (client \<times> 'w \<times> client_error option) option" where
  "ensure_started env c w =
     (if cl_started c then Some (c, w, None)
      else
        (case init_locked env c of
           (c, Some e) \<Rightarrow> Some (c, w, Some e)
         | (c, None) \<Rightarrow>
             (case ce_expand env (cl_ci c) w of
                (w, Inl e) \<Rightarrow> Some (c, w, Some (ClExpand e))
              | (w, Inr ci) \<Rightarrow>
                  let c = c\<lparr>cl_ci := ci\<rparr>
                  in if ci_region ci = [] then Some (c, w, Some ClNoRegions)
                     else
                       (case cl_lb c of
                          None \<Rightarrow> None
                        | Some lb \<Rightarrow>
                            let lb = lb\<lparr>lb_dm := Some (foldl (\<lambda>m r. mset_key (dr_id r) r m)
                                         (case lb_dm lb of None \<Rightarrow> [] | Some m \<Rightarrow> m) (ci_region ci))\<rparr>
                            in (case loco_start (ce_ns_start_ok env) (ce_reconfig_ok env) (ce_mc_disco env) lb of
                                  None \<Rightarrow> None
                                | Some (lb, es, Some e) \<Rightarrow> Some (c\<lparr>cl_lb := Some lb\<rparr>, w, Some (ClBackend e))
                                | Some (lb, es, None) \<Rightarrow> Some (c\<lparr>cl_lb := Some lb, cl_started := True\<rparr>, w, None))))))"

section \<open>Receiving the acknowledgement\<close>

text \<open>The client's \<open>onDERPRecv\<close>: whether the packet is consumed and whether it is the
  acknowledgement that opens \<open>meowWait\<close>.\<close>

definition client_derp_recv :: "(bytes \<Rightarrow> bytes \<Rightarrow> bytes) \<Rightarrow> backend \<Rightarrow> key32 \<Rightarrow> bytes \<Rightarrow> bool \<times> bool" where
  "client_derp_recv hmac b src pkt =
     (if \<not> is_h3_meow pkt then (is_meow_packet pkt, False)
      else if src \<noteq> lb_server_pub b then (True, False)
      else
        (case parse_h3_meow hmac pkt (lb_psk b) (lb_server_pub b) (lb_pub b) True of
           None \<Rightarrow> (True, False)
         | Some (disco, nonce) \<Rightarrow> (True, disco = lb_disco_public b \<and> nonce = lb_nonce b)))"

text \<open>The announcement \<open>ping\<close> sends.\<close>

definition client_announcement :: "(bytes \<Rightarrow> bytes \<Rightarrow> bytes) \<Rightarrow> backend \<Rightarrow> bytes" where
  "client_announcement hmac b =
     encode_h3_meow hmac (lb_psk b) (lb_server_pub b) (lb_pub b) (lb_disco_public b) (lb_nonce b) False"

section \<open>The ping loop\<close>

datatype send_result = Sent | NotSent | SendFailed

datatype ping_event = Meowed | CtxDone | Tick send_result

text \<open>\<open>ping\<close> after its first send: the result, whether the error carries a last send error, and the
  number of packets handed to the relay client; None is a loop that is still waiting.\<close>

fun ping_loop :: "bool \<Rightarrow> nat \<Rightarrow> ping_event list \<Rightarrow> (client_error option \<times> nat) option" where
  "ping_loop failed sent [] = None"
| "ping_loop failed sent (Meowed # es) = Some (None, sent)"
| "ping_loop failed sent (CtxDone # es) = Some (Some (ClTimeout failed), sent)"
| "ping_loop failed sent (Tick r # es) = ping_loop (r \<noteq> Sent) (Suc sent) es"

definition ping :: "send_result \<Rightarrow> ping_event list \<Rightarrow> (client_error option \<times> nat) option" where
  "ping first events = ping_loop (first \<noteq> Sent) 1 events"

definition client_ping ::
  "'w client_env \<Rightarrow> send_result \<Rightarrow> ping_event list \<Rightarrow> client \<Rightarrow> 'w \<Rightarrow> (client \<times> 'w \<times> client_error option) option" where
  "client_ping env first events c w =
     (case ensure_started env c w of
        None \<Rightarrow> None
      | Some (c, w, Some e) \<Rightarrow> Some (c, w, Some e)
      | Some (c, w, None) \<Rightarrow>
          (case ping first events of
             None \<Rightarrow> None
           | Some (None, n) \<Rightarrow> Some (c\<lparr>cl_up := True\<rparr>, w, None)
           | Some (Some e, n) \<Rightarrow> Some (c, w, Some e)))"

definition client_up ::
  "'w client_env \<Rightarrow> send_result \<Rightarrow> ping_event list \<Rightarrow> client \<Rightarrow> 'w \<Rightarrow> (client \<times> 'w \<times> client_error option) option" where
  "client_up env first events c w =
     (if cl_up c then Some (c, w, None) else client_ping env first events c w)"

section \<open>Dialling\<close>

text \<open>The dial methods bring the client up and hand the transport a target; \<open>DialTCPPort\<close> resolves
  through the dialer, the others go to the backend's address.\<close>

datatype dial_target = DialUser string string | DialStream key32 addrport | DialBind ipaddr addrport

definition after_up ::
  "(client \<times> 'w \<times> client_error option) option \<Rightarrow> (client \<Rightarrow> dial_target) \<Rightarrow> (client \<times> 'w \<times> (client_error + dial_target)) option" where
  "after_up r f =
     (case r of None \<Rightarrow> None | Some (c, w, Some e) \<Rightarrow> Some (c, w, Inl e) | Some (c, w, None) \<Rightarrow> Some (c, w, Inr (f c)))"

definition client_dial where
  "client_dial env first events network addr c w = after_up (client_up env first events c w) (\<lambda>c. DialUser network addr)"

definition dial_tcp_port where
  "dial_tcp_port env first events (p :: port) c w =
     after_up (client_up env first events c w)
       (\<lambda>c. DialUser ''tcp'' (join_host_port (ip_string (cl_server_addr c)) (itoa (unat p))))"

definition dial_tcp where
  "dial_tcp env first events ap c w =
     after_up (client_up env first events c w) (\<lambda>c. DialStream (lb_server_pub (the (cl_lb c))) (nat64_map ap))"

definition dial_udp_port where
  "dial_udp_port env first events (p :: port) c w =
     after_up (client_up env first events c w) (\<lambda>c. DialBind (lb_addr (the (cl_lb c))) (cl_server_addr c, p))"

definition dial_udp where
  "dial_udp env first events ap c w =
     after_up (client_up env first events c w) (\<lambda>c. DialBind (lb_addr (the (cl_lb c))) (nat64_map ap))"

text \<open>\<open>DiscoPing\<close> after the client is up: the first peer of the network map, pinged through the
  tunnel at its first address and then by magicsock, whose answer or the context ends the call.\<close>

datatype disco_result = DiscoNoPeer | DiscoPong "ipaddr option" | DiscoErr string | DiscoCtx

definition disco_ping :: "backend \<Rightarrow> (tnode \<Rightarrow> string option) \<Rightarrow> disco_result" where
  "disco_ping b answer =
     (case lb_nm b of
        None \<Rightarrow> DiscoNoPeer
      | Some nm \<Rightarrow>
          (case nm_peers nm of
             [] \<Rightarrow> DiscoNoPeer
           | peer # ps \<Rightarrow>
               let tsmp = (case nd_addresses peer of [] \<Rightarrow> None | p # _ \<Rightarrow> Some (pfx_addr p))
               in (case answer peer of
                     None \<Rightarrow> DiscoCtx
                   | Some err \<Rightarrow> if err \<noteq> [] then DiscoErr err else DiscoPong tsmp)))"

section \<open>Correctness\<close>

text \<open>A client counts exactly one packet as its acknowledgement: the server's encoding, under the
  connection secret, of the client's own node key, discovery key and lifetime nonce in the reply
  direction, arriving from the server.\<close>

theorem client_ack_exact:
  assumes "\<And>k m. length (hmac k m) = 32" "key_ok (lb_pub b)" "key_ok (lb_disco_public b)" "length (lb_nonce b) = 32"
  shows "snd (client_derp_recv hmac b src pkt) \<longleftrightarrow>
     src = lb_server_pub b \<and> pkt \<noteq> []
     \<and> pkt = encode_h3_meow hmac (lb_psk b) (lb_server_pub b) (lb_pub b) (lb_disco_public b) (lb_nonce b) True"
proof
  assume "snd (client_derp_recv hmac b src pkt)"
  then have "src = lb_server_pub b"
    "parse_h3_meow hmac pkt (lb_psk b) (lb_server_pub b) (lb_pub b) True = Some (lb_disco_public b, lb_nonce b)"
    by (auto simp: client_derp_recv_def split: if_splits option.splits)
  then show "src = lb_server_pub b \<and> pkt \<noteq> []
     \<and> pkt = encode_h3_meow hmac (lb_psk b) (lb_server_pub b) (lb_pub b) (lb_disco_public b) (lb_nonce b) True"
    using parse_h3_meow_Some_D [of hmac pkt "lb_psk b" "lb_server_pub b" "lb_pub b" True "lb_disco_public b" "lb_nonce b"] by auto
next
  assume a: "src = lb_server_pub b \<and> pkt \<noteq> []
     \<and> pkt = encode_h3_meow hmac (lb_psk b) (lb_server_pub b) (lb_pub b) (lb_disco_public b) (lb_nonce b) True"
  then have e: "pkt = encode_h3_meow hmac (lb_psk b) (lb_server_pub b) (lb_pub b) (lb_disco_public b) (lb_nonce b) True"
    and ne: "encode_h3_meow hmac (lb_psk b) (lb_server_pub b) (lb_pub b) (lb_disco_public b) (lb_nonce b) True \<noteq> []"
    by (blast, metis)
  have p: "parse_h3_meow hmac pkt (lb_psk b) (lb_server_pub b) (lb_pub b) True = Some (lb_disco_public b, lb_nonce b)"
    unfolding e by (intro parse_encode_h3_meow assms ne)
  then show "snd (client_derp_recv hmac b src pkt)"
    using a parse_h3_meow_magic [OF p] by (simp add: client_derp_recv_def)
qed

definition sample_client_lb :: backend where
  "sample_client_lb =
     (new_loco_backend (replicate 32 6) (replicate 32 7) (replicate 32 3) (replicate 32 9) (replicate 32 8))
       \<lparr>lb_dm := Some [(9, sample_region)], lb_server_pub := replicate 32 2, lb_server_disco := replicate 32 5\<rparr>"

lemma sample_client_lb_fields:
  "lb_pub sample_client_lb = replicate 32 7" "lb_psk sample_client_lb = replicate 32 3" "lb_nonce sample_client_lb = replicate 32 9"
  "lb_disco_public sample_client_lb = replicate 32 8" "lb_server_pub sample_client_lb = replicate 32 2"
  by (simp_all add: sample_client_lb_def new_loco_backend_def Let_def)

theorem client_ack_exact_witness:
  "snd (client_derp_recv toy_hmac sample_client_lb (replicate 32 2)
      (encode_h3_meow toy_hmac (replicate 32 3) (replicate 32 2) (replicate 32 7) (replicate 32 8) (replicate 32 9) True))
   \<and> \<not> snd (client_derp_recv toy_hmac sample_client_lb (replicate 32 1)
      (encode_h3_meow toy_hmac (replicate 32 3) (replicate 32 2) (replicate 32 7) (replicate 32 8) (replicate 32 9) True))"
proof -
  have k: "key_ok (lb_pub sample_client_lb)" "key_ok (lb_disco_public sample_client_lb)" "length (lb_nonce sample_client_lb) = 32"
    by (simp_all add: sample_client_lb_fields key_ok_def)
  have "encode_h3_meow toy_hmac (replicate 32 3) (replicate 32 2) (replicate 32 7) (replicate 32 8) (replicate 32 9) True \<noteq> []"
    by (simp add: encode_h3_meow_nonempty_iff key_zero_def)
  then show ?thesis
    by (simp add: client_ack_exact [OF toy_hmac_length k] sample_client_lb_fields)
qed

text \<open>C40. The ping loop returns as soon as the acknowledgement or the end of its context is taken and
  sends one more packet for every tick before that; it succeeds exactly when the acknowledgement
  came first, and the error of a timeout mentions a send failure exactly when the last send
  failed.\<close>

theorem ping_outcome:
  assumes "\<forall>e \<in> set ticks. \<exists>r. e = Tick r" "stop = Meowed \<or> stop = CtxDone"
  shows "ping first (ticks @ stop # rest) =
     Some (if stop = Meowed then None else Some (ClTimeout (last (Tick first # ticks) \<noteq> Tick Sent)), Suc (length ticks))"
proof -
  have "ping_loop f n (ticks @ stop # rest) =
      Some (if stop = Meowed then None
            else Some (ClTimeout (if ticks = [] then f else last ticks \<noteq> Tick Sent)), n + length ticks)" for f n
    using assms
  proof (induction ticks arbitrary: f n)
    case Nil
    then show ?case by auto
  next
    case (Cons e es)
    then obtain r where "e = Tick r" by auto
    then show ?case using Cons by (auto simp: last_ConsR)
  qed
  then show ?thesis by (auto simp: ping_def last_ConsR)
qed

theorem ping_outcome_witness:
  "ping Sent [Tick SendFailed, Tick NotSent, CtxDone] = Some (Some (ClTimeout True), 3)
   \<and> ping SendFailed [Tick Sent, Meowed] = Some (None, 2)"
  using ping_outcome [of "[Tick SendFailed, Tick NotSent]" CtxDone Sent "[]"]
    ping_outcome [of "[Tick Sent]" Meowed SendFailed "[]"] by simp

lemma regions_map_nonempty: "m \<noteq> [] \<or> rs \<noteq> [] \<Longrightarrow> foldl (\<lambda>m r. mset_key (dr_id r) r m) m rs \<noteq> []"
  by (induction rs arbitrary: m) simp_all

lemma init_locked_cases:
  assumes "init_locked env c = (c', e)"
  shows "cl_started c' = cl_started c" "cl_key c \<noteq> key_zero \<Longrightarrow> cl_key c' = cl_key c" "e \<noteq> Some ClLegacy"
    "e = None \<Longrightarrow> cl_lb c' \<noteq> None" "cl_conf_key c' = cl_conf_key c" "cl_up c' = cl_up c"
    "e = None \<Longrightarrow> cl_lb c = None \<Longrightarrow> \<exists>ci b. parse_conn_addr (ce_unmarshal env) (cl_server c) = Inr ci \<and> cl_ci c' = ci
       \<and> cl_lb c' = Some b \<and> lb_server_pub b = ci_server_public ci \<and> lb_psk b = ci_psk ci \<and> lb_nonce b = ce_nonce env
       \<and> lb_pub b = ce_public env (cl_key c') \<and> cl_server_addr c' = tc_addr_for_key (ci_server_public ci)"
proof -
  obtain c2 priv where n: "node_key_locked (ce_fresh_key env) c = (c2, priv)" by (cases "node_key_locked (ce_fresh_key env) c")
  have c2: "cl_started c2 = cl_started c" "cl_key c \<noteq> key_zero \<Longrightarrow> cl_key c2 = cl_key c" "cl_conf_key c2 = cl_conf_key c"
    "cl_up c2 = cl_up c" "priv = cl_key c2" "cl_lb c2 = cl_lb c"
    using n by (auto simp: node_key_locked_def Let_def key_is_zero_def split: if_splits)
  have cs: "cl_lb c \<noteq> None \<and> c' = c \<and> e = None
     \<or> (\<exists>x. cl_lb c = None \<and> parse_conn_addr (ce_unmarshal env) (cl_server c) = Inl x \<and> c' = c \<and> e = Some (ClParse x))
     \<or> (\<exists>ci. cl_lb c = None \<and> parse_conn_addr (ce_unmarshal env) (cl_server c) = Inr ci \<and>
          (c' = c2 \<and> e \<in> {Some ClNetmon, Some ClEngine, Some ClNetstack}
           \<or> e = None \<and> c' = c2\<lparr>cl_ci := ci,
               cl_lb := Some ((new_loco_backend priv (ce_public env priv) (ci_psk ci) (ce_nonce env) (ce_disco env priv))
                  \<lparr>lb_dm := Some [], lb_server_pub := ci_server_public ci, lb_server_disco := ci_disco ci\<rparr>),
               cl_server_addr := tc_addr_for_key (ci_server_public ci), cl_meowed := False\<rparr>))"
  proof (cases "cl_lb c")
    case (Some b)
    then show ?thesis using assms by (simp add: init_locked_def)
  next
    case None
    show ?thesis
    proof (cases "parse_conn_addr (ce_unmarshal env) (cl_server c)")
      case (Inl x)
      then show ?thesis using assms None by (simp add: init_locked_def)
    next
      case (Inr ci)
      have "\<not> key_is_zero (ci_disco ci)"
        using parse_conn_addr_keys [OF Inr] by (simp add: addressable_def key_is_zero_def)
      then show ?thesis using assms None Inr n by (auto simp: init_locked_def Let_def split: if_splits)
    qed
  qed
  show "cl_started c' = cl_started c" using cs c2(1) by auto
  show "cl_conf_key c' = cl_conf_key c" using cs c2(3) by auto
  show "cl_up c' = cl_up c" using cs c2(4) by auto
  show "e \<noteq> Some ClLegacy" using cs by auto
  show "cl_lb c' \<noteq> None" if "e = None" using cs that by auto
  show "cl_key c' = cl_key c" if "cl_key c \<noteq> key_zero" using cs c2(2) [OF that] by auto
  show "\<exists>ci b. parse_conn_addr (ce_unmarshal env) (cl_server c) = Inr ci \<and> cl_ci c' = ci
       \<and> cl_lb c' = Some b \<and> lb_server_pub b = ci_server_public ci \<and> lb_psk b = ci_psk ci \<and> lb_nonce b = ce_nonce env
       \<and> lb_pub b = ce_public env (cl_key c') \<and> cl_server_addr c' = tc_addr_for_key (ci_server_public ci)"
    if "e = None" "cl_lb c = None"
    using cs that c2 by (auto simp: new_loco_backend_def Let_def)
qed

text \<open>Bringing a client up never panics and can be retried: a failing attempt leaves it not
  started, a started client is not started again, the node identity never changes once it is
  chosen, and the check for a legacy address can never fire, because no address without a
  discovery key parses.\<close>

theorem client_start_retryable:
  "\<exists>c' w' e. ensure_started env c w = Some (c', w', e)
     \<and> (e = None \<longleftrightarrow> cl_started c') \<and> (cl_started c \<longrightarrow> c' = c \<and> w' = w)
     \<and> (cl_key c \<noteq> key_zero \<longrightarrow> cl_key c' = cl_key c) \<and> e \<noteq> Some ClLegacy
     \<and> ensure_started env (fst (node_key_locked fresh c')) w' \<noteq> None"
proof -
  have main: "\<exists>c' w' e. ensure_started env c w = Some (c', w', e)
     \<and> (e = None \<longleftrightarrow> cl_started c') \<and> (cl_started c \<longrightarrow> c' = c \<and> w' = w)
     \<and> (cl_key c \<noteq> key_zero \<longrightarrow> cl_key c' = cl_key c) \<and> e \<noteq> Some ClLegacy" for c w
  proof (cases "cl_started c")
    case True
    then show ?thesis by (simp add: ensure_started_def)
  next
    case False
    obtain c1 e1 where i: "init_locked env c = (c1, e1)" by (cases "init_locked env c")
    note ic = init_locked_cases [OF i]
    show ?thesis
    proof (cases e1)
      case (Some e)
      then show ?thesis using False i ic by (auto simp: ensure_started_def)
    next
      case None
      then obtain lb where lb: "cl_lb c1 = Some lb" using ic(4) by auto
      obtain w2 x where x: "ce_expand env (cl_ci c1) w = (w2, x)" by (cases "ce_expand env (cl_ci c1) w")
      show ?thesis
      proof (cases x)
        case (Inl e)
        then show ?thesis using False i ic None x by (simp add: ensure_started_def)
      next
        case (Inr ci)
        show ?thesis
        proof (cases "ci_region ci = []")
          case True
          then show ?thesis using False i ic None x Inr by (simp add: ensure_started_def Let_def)
        next
          case ne: False
          define m where "m = foldl (\<lambda>m r. mset_key (dr_id r) r m) (case lb_dm lb of None \<Rightarrow> [] | Some m \<Rightarrow> m) (ci_region ci)"
          have "m \<noteq> []" unfolding m_def using ne by (simp add: regions_map_nonempty)
          then obtain k r rs where m: "m = (k, r) # rs" by (cases m) auto
          have "loco_start (ce_ns_start_ok env) (ce_reconfig_ok env) (ce_mc_disco env) (lb\<lparr>lb_dm := Some m\<rparr>) \<noteq> None"
            by (rule loco_start_no_panic) (simp add: m)
          then obtain lb' es e where "loco_start (ce_ns_start_ok env) (ce_reconfig_ok env) (ce_mc_disco env) (lb\<lparr>lb_dm := Some m\<rparr>) = Some (lb', es, e)"
            by (cases "loco_start (ce_ns_start_ok env) (ce_reconfig_ok env) (ce_mc_disco env) (lb\<lparr>lb_dm := Some m\<rparr>)") auto
          then show ?thesis using False i ic None x Inr ne lb
            by (cases e) (simp_all add: ensure_started_def Let_def m_def [symmetric])
        qed
      qed
    qed
  qed
  obtain c' w' e where f: "ensure_started env c w = Some (c', w', e)
     \<and> (e = None \<longleftrightarrow> cl_started c') \<and> (cl_started c \<longrightarrow> c' = c \<and> w' = w)
     \<and> (cl_key c \<noteq> key_zero \<longrightarrow> cl_key c' = cl_key c) \<and> e \<noteq> Some ClLegacy" using main by blast
  have "ensure_started env (fst (node_key_locked fresh c')) w' \<noteq> None"
    using main [of "fst (node_key_locked fresh c')" w'] by auto
  then show ?thesis using f by blast
qed

definition sample_client_env :: "unit client_env" where
  "sample_client_env =
     \<lparr>ce_fresh_key = replicate 32 1, ce_nonce = replicate 32 9, ce_public = (\<lambda>k. k), ce_disco = (\<lambda>k. k),
      ce_mc_disco = replicate 32 8, ce_unmarshal = (\<lambda>_. None), ce_expand = (\<lambda>ci w. (w, Inr ci)), ce_netmon_ok = True,
      ce_engine_ok = True, ce_netstack_ok = True, ce_ns_start_ok = True, ce_reconfig_ok = True\<rparr>"

theorem client_start_retryable_witness:
  "\<exists>c' e. ensure_started sample_client_env ((new_client ''bad'')\<lparr>cl_key := replicate 32 7\<rparr>) () = Some (c', (), e)
     \<and> cl_key c' = replicate 32 7 \<and> (e = None \<longleftrightarrow> cl_started c')"
proof -
  have "replicate 32 (7 :: byte) \<noteq> key_zero" by (simp add: key_zero_def)
  then show ?thesis
    using client_start_retryable [of sample_client_env "(new_client ''bad'')\<lparr>cl_key := replicate 32 7\<rparr>" "()" key_zero] by auto
qed

text \<open>A client talks to its server and to nobody else: every packet is routed to the server, and
  only packets of the server, from any tunnel address, pass its source policy.\<close>

theorem client_policy:
  assumes "lb_server_pub b \<noteq> key_zero" "lb_server_pub b \<noteq> lb_pub b" "key_ok (lb_server_pub b)"
  shows "peer_by_ip b dst = Some (lb_server_pub b)
    \<and> (peer_policy b (lb_pub b) k \<longleftrightarrow> k = lb_server_pub b)
    \<and> (tunnel_addr a \<longrightarrow> (source_policy b (lb_pub b) k a \<longleftrightarrow> k = lb_server_pub b))"
  using assms tunnel_addr_all [of a]
  by (auto simp: peer_by_ip_def peer_policy_def source_policy_def peer_config_def key_is_zero_def)

theorem client_policy_witness:
  "peer_by_ip sample_client_lb (IP4 [8, 8, 8, 8]) = Some (replicate 32 2)
   \<and> \<not> peer_policy sample_client_lb (lb_pub sample_client_lb) (replicate 32 4)"
proof -
  have "replicate 32 (2 :: byte) \<noteq> replicate 32 4" "replicate 32 (2 :: byte) \<noteq> replicate 32 7" by simp_all
  then show ?thesis
    using client_policy [of sample_client_lb "IP4 [8, 8, 8, 8]" "replicate 32 4"]
    by (simp add: sample_client_lb_fields key_zero_def key_ok_def)
qed

end
