(* ===== verification/Proxy.thy ===== *)
theory Proxy
  imports ClientSide
begin

text \<open>
  Connections after they are established (the last part of \<open>tailcat.go\<close>): the idle timeout of UDP
  flows (\<open>idlePacketConn\<close>) with its timer and its check goroutines, \<open>ProxyConns\<close> with its
  half-closes and its draining close, \<open>ProxyPacketConns\<close>, and the two \<open>DrainTCP\<close> loops. Times are
  nanoseconds; what the operating system or gVisor answers is a parameter of each step.
\<close>

section \<open>Idle UDP flows\<close>

text \<open>\<open>ic_timer\<close> is when the timer is set to fire, if it is set; \<open>ic_checks\<close> is the number of
  \<open>checkIdle\<close> calls that have fired and not yet taken the lock; \<open>ic_closes\<close> counts the calls of the
  underlying connection's \<open>Close\<close>.\<close>

record idle_conn =
  ic_timeout :: int
  ic_timer :: "int option"
  ic_deadline :: int
  ic_closed :: bool
  ic_checks :: nat
  ic_closes :: nat

definition new_idle_conn :: "int \<Rightarrow> int \<Rightarrow> idle_conn" where
  "new_idle_conn now timeout =
     \<lparr>ic_timeout = timeout, ic_timer = Some (now + timeout), ic_deadline = now + timeout, ic_closed = False,
      ic_checks = 0, ic_closes = 0\<rparr>"

definition check_idle :: "int \<Rightarrow> idle_conn \<Rightarrow> idle_conn" where
  "check_idle now c =
     (if ic_closed c then c
      else let remaining = ic_deadline c - now
           in if remaining > 0 then c\<lparr>ic_timer := Some (now + remaining)\<rparr>
              else c\<lparr>ic_closed := True, ic_closes := Suc (ic_closes c)\<rparr>)"

definition touch :: "int \<Rightarrow> idle_conn \<Rightarrow> idle_conn" where
  "touch now c =
     (if ic_closed c then c
      else c\<lparr>ic_deadline := now + ic_timeout c, ic_timer := Some (now + ic_timeout c)\<rparr>)"

text \<open>The four transfer methods take the answer of the underlying connection: a result and whether
  the error is nil.\<close>

definition idle_read :: "int \<Rightarrow> nat \<times> bool \<Rightarrow> idle_conn \<Rightarrow> idle_conn \<times> nat \<times> bool" where
  "idle_read now r c = (if snd r then touch now c else c, r)"

definition idle_read_from :: "int \<Rightarrow> (nat \<times> 'a) \<times> bool \<Rightarrow> idle_conn \<Rightarrow> idle_conn \<times> (nat \<times> 'a) \<times> bool" where
  "idle_read_from now r c = (if snd r then touch now c else c, r)"

definition idle_write :: "int \<Rightarrow> nat \<times> bool \<Rightarrow> idle_conn \<Rightarrow> idle_conn \<times> nat \<times> bool" where
  "idle_write now r c = (if snd r then touch now c else c, r)"

definition idle_write_to :: "int \<Rightarrow> nat \<times> bool \<Rightarrow> idle_conn \<Rightarrow> idle_conn \<times> nat \<times> bool" where
  "idle_write_to now r c = (if snd r then touch now c else c, r)"

text \<open>\<open>Close\<close>; the result is None for \<open>net.ErrClosed\<close> and otherwise the underlying answer.\<close>

definition idle_close :: "bool \<Rightarrow> idle_conn \<Rightarrow> idle_conn \<times> bool option" where
  "idle_close res c =
     (if ic_closed c then (c, None)
      else (c\<lparr>ic_closed := True, ic_timer := None, ic_closes := Suc (ic_closes c)\<rparr>, Some res))"

text \<open>What can happen to a flow, each at its time: a transfer of one of the four kinds, the timer
  firing (which starts a \<open>checkIdle\<close> goroutine), such a goroutine taking the lock, and a
  \<open>Close\<close>. An event that is not possible changes nothing.\<close>

datatype transfer = ReadT | ReadFromT | WriteT | WriteToT

datatype idle_event = Transfer transfer bool | Fire | Check | CloseCall

fun idle_step :: "int \<Rightarrow> idle_event \<Rightarrow> idle_conn \<Rightarrow> idle_conn" where
  "idle_step now (Transfer k ok) c =
     (case k of
        ReadT \<Rightarrow> fst (idle_read now (0, ok) c)
      | ReadFromT \<Rightarrow> fst (idle_read_from now ((0, ()), ok) c)
      | WriteT \<Rightarrow> fst (idle_write now (0, ok) c)
      | WriteToT \<Rightarrow> fst (idle_write_to now (0, ok) c))"
| "idle_step now Fire c =
     (case ic_timer c of
        Some t \<Rightarrow> if t \<le> now then c\<lparr>ic_timer := None, ic_checks := Suc (ic_checks c)\<rparr> else c
      | None \<Rightarrow> c)"
| "idle_step now Check c =
     (if ic_checks c = 0 then c else check_idle now (c\<lparr>ic_checks := ic_checks c - 1\<rparr>))"
| "idle_step now CloseCall c = fst (idle_close True c)"

definition idle_run :: "(int \<times> idle_event) list \<Rightarrow> idle_conn \<Rightarrow> idle_conn" where
  "idle_run es c = foldl (\<lambda>c (now, e). idle_step now e c) c es"

text \<open>When the flow was last used, according to its history.\<close>

definition last_use :: "int \<Rightarrow> (int \<times> idle_event) list \<Rightarrow> int" where
  "last_use t0 es = last (t0 # map fst (filter (\<lambda>(t, e). \<exists>k. e = Transfer k True) es))"

lemma idle_run_simps [simp]:
  "idle_run [] c = c" "idle_run (es @ [(now, e)]) c = idle_step now e (idle_run es c)"
  by (simp_all add: idle_run_def)

declare idle_step.simps(1) [simp del]

lemma idle_transfer [simp]: "idle_step now (Transfer k ok) c = (if ok then touch now c else c)"
  by (cases k) (simp_all add: idle_step.simps(1) idle_read_def idle_read_from_def idle_write_def idle_write_to_def)

lemma last_use_snoc:
  "last_use t0 (es @ [(t, e)]) = (if \<exists>k. e = Transfer k True then t else last_use t0 es)"
  by (simp add: last_use_def)

lemma last_use_Nil [simp]: "last_use t0 [] = t0"
  by (simp add: last_use_def)

text \<open>The invariant of a flow that was created with a timeout and then run: while it is open its
  deadline is the timeout after its last use, and the timer is set for it unless a check is on
  its way.\<close>

definition idle_inv :: "int \<Rightarrow> int \<Rightarrow> idle_conn \<Rightarrow> bool" where
  "idle_inv timeout used c =
     (ic_timeout c = timeout \<and> ic_closes c = (if ic_closed c then 1 else 0)
      \<and> (\<not> ic_closed c \<longrightarrow> ic_deadline c = used + timeout
           \<and> (ic_timer c = Some (ic_deadline c) \<or> ic_timer c = None \<and> ic_checks c > 0)))"

lemma idle_inv_step:
  "idle_inv timeout used c \<Longrightarrow> idle_inv timeout (if \<exists>k. e = Transfer k True then now else used) (idle_step now e c)"
  by (cases e) (auto simp: idle_inv_def touch_def check_idle_def idle_close_def Let_def split: option.splits)

lemma idle_inv_run: "idle_inv timeout (last_use t0 es) (idle_run es (new_idle_conn t0 timeout))"
proof (induction es rule: rev_induct)
  case Nil
  then show ?case by (simp add: idle_inv_def new_idle_conn_def)
next
  case (snoc te es)
  obtain t e where "te = (t, e)" by (cases te)
  then show ?case using idle_inv_step [OF snoc, of e t] by (simp add: last_use_snoc)
qed

text \<open>C35. An idle flow is closed by its timer never early and never twice: after any history of
  transfers, timer firings, checks and closes, a step that closes the flow is an explicit close or
  a check at least the timeout after its last successful transfer; failed transfers do not
  count, and the underlying connection is closed exactly once, when the flow is.\<close>

theorem idle_never_early:
  assumes "c = idle_run es (new_idle_conn t0 timeout)" "\<not> ic_closed c"
  shows "(ic_closed (idle_step now e c) \<longleftrightarrow> e = CloseCall \<or> e = Check \<and> ic_checks c > 0 \<and> last_use t0 es + timeout \<le> now)
    \<and> ic_closes (idle_step now e c) = (if ic_closed (idle_step now e c) then 1 else 0)
    \<and> ic_closes (idle_run later (idle_step now e c)) \<le> 1"
proof -
  have i: "idle_inv timeout (last_use t0 es) c" using idle_inv_run [of timeout t0 es] assms(1) by simp
  have later: "\<exists>used. idle_inv timeout used (idle_run later d)" if d: "idle_inv timeout used d" for d used
  proof (induction later rule: rev_induct)
    case Nil
    then show ?case using d by auto
  next
    case (snoc te es)
    then show ?case by (cases te) (auto dest: idle_inv_step)
  qed
  from later [OF idle_inv_step [OF i, of e now]] have "ic_closes (idle_run later (idle_step now e c)) \<le> 1"
    by (auto simp: idle_inv_def)
  moreover have "ic_closes (idle_step now e c) = (if ic_closed (idle_step now e c) then 1 else 0)"
    using idle_inv_step [OF i, of e now] by (simp add: idle_inv_def)
  moreover have "ic_closed (idle_step now e c) \<longleftrightarrow> e = CloseCall \<or> e = Check \<and> ic_checks c > 0 \<and> last_use t0 es + timeout \<le> now"
    using i assms(2) by (cases e) (auto simp: idle_inv_def touch_def check_idle_def idle_close_def Let_def split: option.splits)
  ultimately show ?thesis by blast
qed

theorem idle_never_early_witness:
  "\<not> ic_closed (idle_run [(100, Transfer WriteT True), (120, Fire), (121, Check)] (new_idle_conn 0 120))"
proof -
  have o: "\<not> ic_closed (idle_run [(100, Transfer WriteT True), (120, Fire)] (new_idle_conn 0 120))"
    by (simp add: idle_run_def new_idle_conn_def touch_def)
  have "idle_run [(100, Transfer WriteT True), (120, Fire), (121, Check)] (new_idle_conn 0 120)
      = idle_step 121 Check (idle_run [(100, Transfer WriteT True), (120, Fire)] (new_idle_conn 0 120))"
    by (simp add: idle_run_def)
  then show ?thesis using idle_never_early [OF refl o, of 121 Check] by (simp add: last_use_def)
qed

text \<open>An idle flow does not stay open: whatever its history, once the timeout has passed since its
  last successful transfer, the timer is due or a check is waiting, and its firing followed by
  one check closes the flow; a flow that is closed stays so.\<close>

theorem idle_eventually_closes:
  assumes "last_use t0 es + timeout \<le> now" "now \<le> later"
  shows "ic_closed (idle_run (es @ [(now, Fire), (later, Check)]) (new_idle_conn t0 timeout))
    \<and> (ic_closed c \<longrightarrow> ic_closed (idle_run es c))"
proof -
  let ?c = "idle_run es (new_idle_conn t0 timeout)"
  have i: "idle_inv timeout (last_use t0 es) ?c" by (rule idle_inv_run)
  have "ic_closed (idle_step later Check (idle_step now Fire ?c))"
    using i assms by (auto simp: idle_inv_def check_idle_def Let_def split: option.splits)
  moreover have "idle_run (es @ [(now, Fire), (later, Check)]) (new_idle_conn t0 timeout)
      = idle_step later Check (idle_step now Fire ?c)"
    using idle_run_simps(2) [of "es @ [(now, Fire)]" later Check] by simp
  moreover have stay: "ic_closed d \<Longrightarrow> ic_closed (idle_step t e d)" for t e d
    by (cases e) (auto simp: touch_def check_idle_def idle_close_def split: option.splits)
  have "ic_closed c \<Longrightarrow> ic_closed (idle_run es c)"
    by (induction es rule: rev_induct) (auto simp: stay)
  ultimately show ?thesis by simp
qed

theorem idle_eventually_closes_witness:
  "ic_closed (idle_run [(100, Transfer ReadFromT True), (110, Transfer ReadT False), (220, Fire), (221, Check)] (new_idle_conn 0 120))"
  using idle_eventually_closes [of 0 "[(100, Transfer ReadFromT True), (110, Transfer ReadT False)]" 120 220 221 "new_idle_conn 0 120"]
  by (simp add: last_use_def)

text \<open>A flow of a started server has a positive timeout.\<close>

lemma udp_idle_timeout_positive: "0 \<le> sv_udp_idle s \<Longrightarrow> 0 < udp_idle_timeout s"
  by (simp add: udp_idle_timeout_def default_udp_idle_timeout_def sec_ns_def)

section \<open>Proxying streams\<close>

text \<open>The states of a gVisor TCP endpoint.\<close>

datatype ep_state = StInitial | StBound | StListen | StConnecting | StError | StEstablished | StSynSent | StSynRecv
  | StFinWait1 | StFinWait2 | StTimeWait | StClose | StCloseWait | StLastAck | StClosing

datatype wake = HangUp | TimerFired

text \<open>\<open>closeProxyConnTimeout\<close> on a gVisor connection: each round of its loop reads the state and, if
  it waits, is woken. The result is the number of times it called \<open>Close\<close> and whether the timer had
  fired; None is a loop that is still waiting. Any other connection is closed at once.\<close>

fun close_loop :: "(ep_state \<times> wake) list \<Rightarrow> (nat \<times> bool) option" where
  "close_loop [] = None"
| "close_loop ((st, w) # rounds) =
     (if st \<noteq> StClosing \<and> st \<noteq> StLastAck then Some (1, False)
      else (case w of HangUp \<Rightarrow> close_loop rounds | TimerFired \<Rightarrow> Some (1, True)))"

definition close_proxy_conn_timeout :: "bool \<Rightarrow> (ep_state \<times> wake) list \<Rightarrow> (nat \<times> bool) option" where
  "close_proxy_conn_timeout gonet rounds = (if gonet then close_loop rounds else Some (1, False))"

text \<open>\<open>ProxyConns\<close>: the two copies (named by their destination), the write shutdown each makes when
  its source is exhausted, and the closes after both are done. \<open>half\<close> says which connections
  support \<open>CloseWrite\<close>; the log is what was done to the connections, latest first.\<close>

datatype side = A | B

datatype conn_op = CloseWrite side | CloseConn side

record proxy =
  px_done :: "side list"
  px_log :: "conn_op list"
  px_closed :: "side list"

definition proxy_start :: proxy where
  "proxy_start = \<lparr>px_done = [], px_log = [], px_closed = []\<rparr>"

definition copy_end :: "(side \<Rightarrow> bool) \<Rightarrow> side \<Rightarrow> conn_op" where
  "copy_end half dst = (if half dst then CloseWrite dst else CloseConn dst)"

inductive proxy_step :: "(side \<Rightarrow> bool) \<Rightarrow> proxy \<Rightarrow> proxy \<Rightarrow> bool" for half where
  copied: "dst \<notin> set (px_done s) \<Longrightarrow>
     proxy_step half s (s\<lparr>px_done := dst # px_done s, px_log := copy_end half dst # px_log s\<rparr>)"
| closed: "A \<in> set (px_done s) \<Longrightarrow> B \<in> set (px_done s) \<Longrightarrow> c \<notin> set (px_closed s) \<Longrightarrow>
     proxy_step half s (s\<lparr>px_closed := c # px_closed s, px_log := CloseConn c # px_log s\<rparr>)"

inductive_cases proxy_stepE: "proxy_step half s t"

definition proxy_returned :: "proxy \<Rightarrow> bool" where
  "proxy_returned s = (A \<in> set (px_closed s) \<and> B \<in> set (px_closed s))"

definition proxy_inv :: "(side \<Rightarrow> bool) \<Rightarrow> proxy \<Rightarrow> bool" where
  "proxy_inv half s =
     (distinct (px_done s) \<and> distinct (px_closed s)
      \<and> (px_closed s \<noteq> [] \<longrightarrow> A \<in> set (px_done s) \<and> B \<in> set (px_done s))
      \<and> px_log s = map CloseConn (px_closed s) @ map (copy_end half) (px_done s))"

lemma proxy_inv_steps: "(proxy_step half)\<^sup>*\<^sup>* s t \<Longrightarrow> proxy_inv half s \<Longrightarrow> proxy_inv half t"
proof (induction rule: rtranclp_induct)
  case (step t u)
  then have "proxy_inv half t" by simp
  moreover have "px_closed t = []" if "dst \<notin> set (px_done t)" for dst
    using that \<open>proxy_inv half t\<close> by (cases dst) (auto simp: proxy_inv_def)
  ultimately show ?case using step(2) by (auto simp: proxy_inv_def elim!: proxy_stepE)
qed

lemma both_sides: "distinct xs \<Longrightarrow> A \<in> set xs \<Longrightarrow> B \<in> set xs \<Longrightarrow> xs = [A, B] \<or> xs = [B, A]"
proof -
  assume d: "distinct xs" and ab: "A \<in> set xs" "B \<in> set xs"
  have u: "UNIV = {A, B}" by (auto intro: side.exhaust)
  then have "set xs \<subseteq> {A, B}" by blast
  then have "set xs = {A, B}" using ab by blast
  then have "length xs = 2" using d distinct_card [OF d] by simp
  then obtain x y where "xs = [x, y]" by (auto simp: length_Suc_conv numeral_2_eq_2)
  then show ?thesis using ab by auto
qed

lemma proxy_progress:
  assumes "proxy_inv half s" "\<not> proxy_returned s"
  shows "\<exists>t. proxy_step half s t"
proof (cases "A \<in> set (px_done s) \<and> B \<in> set (px_done s)")
  case True
  then obtain c where "c \<notin> set (px_closed s)" using assms(2) by (auto simp: proxy_returned_def)
  then show ?thesis using True proxy_step.closed by blast
next
  case False
  then show ?thesis using proxy_step.copied by blast
qed



text \<open>The draining close ends in one \<open>Close\<close>, and at the latest when its timer fires.\<close>

lemma close_loop_once: "close_loop rounds = Some (n, late) \<Longrightarrow> n = 1"
  by (induction rounds rule: close_loop.induct) (auto split: if_splits wake.splits)

lemma close_loop_ends: "(st, TimerFired) \<in> set rounds \<Longrightarrow> close_loop rounds \<noteq> None"
  by (induction rounds rule: close_loop.induct) (auto split: wake.splits)

section \<open>Proxying datagrams\<close>

definition max_udp_payload :: nat where "max_udp_payload = 65507"

text \<open>One direction of \<open>ProxyPacketConns\<close>: what each read of the source and each write to the
  destination answered; the result is the datagrams that were written and whether the loop ended.\<close>

datatype read_result = Datagram bytes | ReadFailed

fun pump :: "(read_result \<times> bool) list \<Rightarrow> bytes list \<times> bool" where
  "pump [] = ([], False)"
| "pump ((ReadFailed, ok) # rs) = ([], True)"
| "pump ((Datagram d, ok) # rs) =
     (let buf = take 65535 d
      in if ok then (case pump rs of (ds, e) \<Rightarrow> (buf # ds, e)) else ([], True))"

text \<open>A pump writes the datagrams up to the first failure, each whole.\<close>

lemma pump_whole:
  assumes "\<forall>(r, ok) \<in> set rs. \<forall>d. r = Datagram d \<longrightarrow> length d \<le> 65535"
  shows "pump rs = (map (\<lambda>(r, ok). case r of Datagram d \<Rightarrow> d | ReadFailed \<Rightarrow> []) (takeWhile (\<lambda>(r, ok). r \<noteq> ReadFailed \<and> ok) rs),
    \<exists>(r, ok) \<in> set rs. r = ReadFailed \<or> \<not> ok)"
  using assms by (induction rs rule: pump.induct) (auto simp: Let_def split: prod.splits)

text \<open>The whole call: the sockets are closed when the first pump has ended, which makes the other
  one's next read fail.\<close>

definition proxy_packet_conns ::
  "(read_result \<times> bool) list \<Rightarrow> (read_result \<times> bool) list \<Rightarrow> (bytes list \<times> bytes list) option" where
  "proxy_packet_conns ab ba =
     (case (pump ab, pump ba) of
        ((x, True), (y, e)) \<Rightarrow> Some (x, fst (pump (ba @ [(ReadFailed, True)])))
      | ((x, False), (y, True)) \<Rightarrow> Some (fst (pump (ab @ [(ReadFailed, True)])), y)
      | _ \<Rightarrow> None)"

section \<open>Draining before an exit\<close>

text \<open>\<open>Server.DrainTCP\<close>: the backend's answer if there is a backend, then for every endpoint whether it
  closed before the context ended. The result says whether the error is nil.\<close>

fun wait_endpoints :: "bool list \<Rightarrow> bool" where
  "wait_endpoints [] = True"
| "wait_endpoints (closed_first # eps) = (if closed_first then wait_endpoints eps else False)"

definition server_drain :: "bool option \<Rightarrow> bool list \<Rightarrow> bool" where
  "server_drain streams eps = (case streams of Some False \<Rightarrow> False | _ \<Rightarrow> wait_endpoints eps)"

text \<open>\<open>Client.DrainTCP\<close>: each round inspects the endpoints (None is one without a state) and then the
  context or a timer ends the select. None is a loop that is still polling.\<close>

definition busy_state :: "ep_state \<Rightarrow> bool" where
  "busy_state st = (st \<in> {StSynSent, StSynRecv, StEstablished, StFinWait1, StClosing, StCloseWait, StLastAck})"

fun drain_rounds :: "(ep_state option list \<times> bool) list \<Rightarrow> bool option" where
  "drain_rounds [] = None"
| "drain_rounds ((eps, ctx_done) # rounds) =
     (let busy = list_ex (\<lambda>ep. case ep of None \<Rightarrow> False | Some st \<Rightarrow> busy_state st) eps
      in if \<not> busy then Some (\<not> ctx_done)
         else if ctx_done then Some False
         else drain_rounds rounds)"

definition client_drain :: "bool option \<Rightarrow> (ep_state option list \<times> bool) list \<Rightarrow> bool option" where
  "client_drain streams rounds = (case streams of Some False \<Rightarrow> Some False | _ \<Rightarrow> drain_rounds rounds)"

text \<open>A drained client has nothing left to send: \<open>DrainTCP\<close> reports success exactly when some
  inspection found every TCP endpoint quiet while the context was still alive, all earlier ones
  having found a busy one; it returns as soon as the context ends.\<close>

theorem client_drain_quiet:
  assumes "streams \<noteq> Some False"
  shows "(client_drain streams rounds = Some True \<longleftrightarrow>
      (\<exists>before eps after. rounds = before @ (eps, False) # after
         \<and> (\<forall>st. Some st \<in> set eps \<longrightarrow> \<not> busy_state st)
         \<and> (\<forall>(es, d) \<in> set before. \<not> d \<and> (\<exists>st. Some st \<in> set es \<and> busy_state st))))
    \<and> ((eps, True) \<in> set rounds \<longrightarrow> client_drain streams rounds \<noteq> None)"
proof -
  have busy: "list_ex (\<lambda>ep. case ep of None \<Rightarrow> False | Some st \<Rightarrow> busy_state st) es \<longleftrightarrow> (\<exists>st. Some st \<in> set es \<and> busy_state st)" for es
    by (force simp: list_ex_iff split: option.splits)
  have e: "client_drain streams r = drain_rounds r" for r
    using assms by (auto simp: client_drain_def split: option.splits bool.splits)
  have "drain_rounds rounds = Some True \<longleftrightarrow>
      (\<exists>before eps after. rounds = before @ (eps, False) # after
         \<and> (\<forall>st. Some st \<in> set eps \<longrightarrow> \<not> busy_state st)
         \<and> (\<forall>(es, d) \<in> set before. \<not> d \<and> (\<exists>st. Some st \<in> set es \<and> busy_state st)))"
  proof (induction rounds)
    case Nil
    then show ?case by simp
  next
    case (Cons r rs)
    obtain es d where r: "r = (es, d)" by (cases r)
    show ?case
    proof (cases "\<exists>st. Some st \<in> set es \<and> busy_state st")
      case True
      have "(\<exists>before eps after. r # rs = before @ (eps, False) # after
         \<and> (\<forall>st. Some st \<in> set eps \<longrightarrow> \<not> busy_state st)
         \<and> (\<forall>(es, d) \<in> set before. \<not> d \<and> (\<exists>st. Some st \<in> set es \<and> busy_state st)))
        \<longleftrightarrow> \<not> d \<and> (\<exists>before eps after. rs = before @ (eps, False) # after
         \<and> (\<forall>st. Some st \<in> set eps \<longrightarrow> \<not> busy_state st)
         \<and> (\<forall>(es, d) \<in> set before. \<not> d \<and> (\<exists>st. Some st \<in> set es \<and> busy_state st)))"
        (is "?L \<longleftrightarrow> _ \<and> ?R")
      proof
        assume ?L
        then obtain before eps after where b: "r # rs = before @ (eps, False) # after"
          "\<forall>st. Some st \<in> set eps \<longrightarrow> \<not> busy_state st"
          "\<forall>(es, d) \<in> set before. \<not> d \<and> (\<exists>st. Some st \<in> set es \<and> busy_state st)" by blast
        with True r obtain bs where "before = r # bs" by (cases before) auto
        with b r show "\<not> d \<and> ?R" by auto
      next
        assume "\<not> d \<and> ?R"
        then obtain before eps after where b: "rs = before @ (eps, False) # after" "\<not> d"
          "\<forall>st. Some st \<in> set eps \<longrightarrow> \<not> busy_state st"
          "\<forall>(es, d) \<in> set before. \<not> d \<and> (\<exists>st. Some st \<in> set es \<and> busy_state st)" by blast
        then have "r # rs = (r # before) @ (eps, False) # after" "\<forall>(es, d) \<in> set (r # before). \<not> d \<and> (\<exists>st. Some st \<in> set es \<and> busy_state st)"
          using r True by auto
        with b(3) show ?L by blast
      qed
      then show ?thesis using True Cons r by (simp add: busy)
    next
      case False
      then have d: "drain_rounds (r # rs) = Some True \<longleftrightarrow> \<not> d" using r by (simp add: busy)
      have first: "\<not> d" if "\<exists>before eps after. r # rs = before @ (eps, False) # after
         \<and> (\<forall>(es, d) \<in> set before. \<not> d \<and> (\<exists>st. Some st \<in> set es \<and> busy_state st))"
        using that False r by (fastforce simp: Cons_eq_append_conv)
      have "r # rs = [] @ (es, False) # rs" if "\<not> d" using r that by simp
      then show ?thesis unfolding d using first False by (metis (no_types, lifting) empty_iff list.set(1))
    qed
  qed
  moreover have "drain_rounds rounds \<noteq> None" if "(eps, True) \<in> set rounds"
    using that by (induction rounds rule: drain_rounds.induct) (auto simp: Let_def)
  ultimately show ?thesis by (simp only: e) blast
qed

theorem client_drain_quiet_witness:
  "client_drain None [([Some StLastAck], False), ([Some StTimeWait, None], False)] = Some True"
proof -
  let ?rs = "[([Some StLastAck], False), ([Some StTimeWait, None], False)]"
  have "?rs = [([Some StLastAck], False)] @ ([Some StTimeWait, None], False) # []
      \<and> (\<forall>st. Some st \<in> set [Some StTimeWait, None] \<longrightarrow> \<not> busy_state st)
      \<and> (\<forall>(es, d) \<in> set [([Some StLastAck], False)]. \<not> d \<and> (\<exists>st. Some st \<in> set es \<and> busy_state st))"
    by (simp add: busy_state_def)
  then have "\<exists>before eps after. ?rs = before @ (eps, False) # after
         \<and> (\<forall>st. Some st \<in> set eps \<longrightarrow> \<not> busy_state st)
         \<and> (\<forall>(es, d) \<in> set before. \<not> d \<and> (\<exists>st. Some st \<in> set es \<and> busy_state st))" by blast
  moreover have "(None :: bool option) \<noteq> Some False" by simp
  ultimately show ?thesis using client_drain_quiet [of None ?rs "[]"] by blast
qed

end
