(* ===== verification/GoPath.thy ===== *)
theory GoPath imports GoNet begin

text \<open>
  Go's \<open>path\<close> package, as far as the file service uses it: cleaning, joining and splitting
  slash-separated paths.
\<close>

section \<open>Operations\<close>

definition path_step :: "bool \<Rightarrow> string list \<Rightarrow> string \<Rightarrow> string list" where
  "path_step rooted out c =
     (if c = [] \<or> c = ''.'' then out
      else if c = ''..'' then
        (if out \<noteq> [] \<and> last out \<noteq> ''..'' then butlast out
         else if rooted then out else out @ [''..''])
      else out @ [c])"

definition path_comps :: "string \<Rightarrow> string list" where
  "path_comps p = foldl (path_step (prefix ''/'' p)) [] (split_on CHR ''/'' p)"

text \<open>\<open>path.Clean\<close>.\<close>

definition path_clean :: "string \<Rightarrow> string" where
  "path_clean p =
     (if p = [] then ''.''
      else let out = path_comps p
           in if prefix ''/'' p then ''/'' @ join ''/'' out
              else if out = [] then ''.'' else join ''/'' out)"

text \<open>\<open>path.Split\<close>: the directory with its slash, and the rest.\<close>

definition path_split :: "string \<Rightarrow> string \<times> string" where
  "path_split p =
     (case last_index_char CHR ''/'' p of
        None \<Rightarrow> ([], p)
      | Some i \<Rightarrow> (take (Suc i) p, drop (Suc i) p))"

definition path_dir :: "string \<Rightarrow> string" where
  "path_dir p = path_clean (fst (path_split p))"

definition path_base :: "string \<Rightarrow> string" where
  "path_base p =
     (if p = [] then ''.''
      else let s = rev (dropWhile (\<lambda>c. c = CHR ''/'') (rev p));
               b = snd (path_split s)
           in if b = [] then ''/'' else b)"

definition path_ext :: "string \<Rightarrow> string" where
  "path_ext p =
     (let b = snd (path_split p)
      in (case last_index_char CHR ''.'' b of None \<Rightarrow> [] | Some i \<Rightarrow> drop i b))"

definition path_join :: "string list \<Rightarrow> string" where
  "path_join ps =
     (let ne = filter (\<lambda>p. p \<noteq> []) ps
      in if ne = [] then [] else path_clean (join ''/'' ne))"

section \<open>Components\<close>

text \<open>A component that names an entry of its directory.\<close>

definition plain_comp :: "string \<Rightarrow> bool" where
  "plain_comp c = (c \<noteq> [] \<and> c \<noteq> ''.'' \<and> c \<noteq> ''..'' \<and> CHR ''/'' \<notin> set c)"

lemma path_step_plain:
  "list_all plain_comp out \<Longrightarrow> CHR ''/'' \<notin> set c \<Longrightarrow> list_all plain_comp (path_step True out c)"
  by (auto simp: path_step_def plain_comp_def list_all_iff dest: in_set_butlastD)

lemma path_steps_plain:
  "list_all plain_comp out \<Longrightarrow> list_all (\<lambda>c. CHR ''/'' \<notin> set c) cs
     \<Longrightarrow> list_all plain_comp (foldl (path_step True) out cs)"
  by (induction cs arbitrary: out) (simp_all add: path_step_plain)

lemma path_comps_plain:
  assumes "prefix ''/'' p"
  shows "list_all plain_comp (path_comps p)"
proof -
  have "list_all (\<lambda>c. CHR ''/'' \<notin> set c) (split_on CHR ''/'' p)"
    by (simp add: list_all_iff split_on_no_sep)
  then show ?thesis using assms by (simp add: path_comps_def path_steps_plain)
qed

lemma path_steps_id:
  "list_all plain_comp cs \<Longrightarrow> foldl (path_step rooted) out cs = out @ cs"
proof (induction cs arbitrary: out)
  case (Cons c cs)
  then have "path_step rooted out c = out @ [c]" by (simp add: path_step_def plain_comp_def)
  then show ?case using Cons by simp
qed simp

lemma plain_no_sep: "list_all plain_comp cs \<Longrightarrow> \<forall>x \<in> set cs. CHR ''/'' \<notin> set x"
  by (simp add: list_all_iff plain_comp_def)

lemma path_split_plain: "CHR ''/'' \<notin> set p \<Longrightarrow> path_split p = ([], p)"
  by (simp add: path_split_def last_index_char_None_iff [THEN iffD2])

lemma path_base_plain: "CHR ''/'' \<notin> set p \<Longrightarrow> p \<noteq> [] \<Longrightarrow> path_base p = p"
proof -
  assume p: "CHR ''/'' \<notin> set p" "p \<noteq> []"
  then have "dropWhile (\<lambda>c. c = CHR ''/'') (rev p) = rev p"
    by (cases "rev p") (auto simp: dropWhile_eq_self_iff)
  then show ?thesis using p by (simp add: path_base_def path_split_plain)
qed

lemma path_dir_plain: "CHR ''/'' \<notin> set p \<Longrightarrow> path_dir p = ''.''"
  by (simp add: path_dir_def path_split_plain path_clean_def)

text \<open>The extension and what is before it make up the name.\<close>

lemma path_ext_suffix: "CHR ''/'' \<notin> set p \<Longrightarrow> \<exists>stem. p = stem @ path_ext p"
  by (auto simp: path_ext_def path_split_plain split: option.splits)
     (metis append_take_drop_id)

lemma trim_suffix_ext: "CHR ''/'' \<notin> set p \<Longrightarrow> trim_suffix p (path_ext p) @ path_ext p = p"
  using path_ext_suffix [of p] by (auto simp: trim_suffix_def) (metis cut_suffix_append option.simps(5))

end
