(* ===== verification/Files.thy ===== *)
theory Files
  imports GoPath Keys
begin

text \<open>
  The rooted SFTP file service (\<open>tailcat_files.go\<close>, \<open>tailcat_sftp.go\<close>): the four serving modes, the
  request handlers of one session with the paths it has created, the visibility policy of the
  drop boxes, and the paging of listings. The directory the service is rooted at is a
  parameter: a state with the operations of \<open>os.Root\<close>. The locale \<open>rooted_dir\<close> states what a drop
  box relies on, and a plain tree of files and directories implements it.
\<close>

section \<open>The directory\<close>

datatype fs_error = ErrExist | ErrNotExist | ErrOther

record open_flags =
  of_rdwr :: bool
  of_append :: bool
  of_create :: bool
  of_trunc :: bool
  of_excl :: bool

record ('fs, 'h, 'i) root_ops =
  ro_open :: "string \<Rightarrow> 'fs \<Rightarrow> fs_error + 'h"
  ro_open_file :: "string \<Rightarrow> open_flags \<Rightarrow> nat \<Rightarrow> 'fs \<Rightarrow> 'fs \<times> (fs_error + 'h)"
  ro_mkdir :: "string \<Rightarrow> nat \<Rightarrow> 'fs \<Rightarrow> 'fs \<times> fs_error option"
  ro_rename :: "string \<Rightarrow> string \<Rightarrow> 'fs \<Rightarrow> 'fs \<times> fs_error option"
  ro_remove :: "string \<Rightarrow> 'fs \<Rightarrow> 'fs \<times> fs_error option"
  ro_link :: "string \<Rightarrow> string \<Rightarrow> 'fs \<Rightarrow> 'fs \<times> fs_error option"
  ro_symlink :: "string \<Rightarrow> string \<Rightarrow> 'fs \<Rightarrow> 'fs \<times> fs_error option"
  ro_chmod :: "string \<Rightarrow> nat \<Rightarrow> 'fs \<Rightarrow> 'fs \<times> fs_error option"
  ro_chtimes :: "string \<Rightarrow> int \<Rightarrow> int \<Rightarrow> 'fs \<Rightarrow> 'fs \<times> fs_error option"
  ro_truncate :: "'h \<Rightarrow> int \<Rightarrow> 'fs \<Rightarrow> 'fs \<times> fs_error option"
  ro_write :: "'h \<Rightarrow> nat \<Rightarrow> bytes \<Rightarrow> 'fs \<Rightarrow> 'fs \<times> fs_error option"
  ro_readdir :: "'h \<Rightarrow> 'fs \<Rightarrow> fs_error + 'i list"
  ro_stat :: "string \<Rightarrow> 'fs \<Rightarrow> fs_error + 'i"
  ro_lstat :: "string \<Rightarrow> 'fs \<Rightarrow> fs_error + 'i"
  ro_readlink :: "string \<Rightarrow> 'fs \<Rightarrow> fs_error + string"
  ro_is_dir :: "'i \<Rightarrow> bool"

section \<open>The service\<close>

datatype file_serve_mode = FileServeRO | FileServeRW | FileServeWO | FileServeWOPlus

record file_service =
  fs_dir :: string
  fs_mode :: file_serve_mode

record rooted_files =
  rf_mode :: file_serve_mode
  rf_wrote :: "(string, string) gomap"

datatype sftp_error = PermissionDenied | NoSuchFile | OpUnsupported | FromFs fs_error | NoRandom

definition fs_result :: "fs_error option \<Rightarrow> sftp_error option" where
  "fs_result = map_option FromFs"

definition lift_fs :: "fs_error + 'a \<Rightarrow> sftp_error + 'a" where
  "lift_fs r = (case r of Inl e \<Rightarrow> Inl (FromFs e) | Inr x \<Rightarrow> Inr x)"

definition rel_path :: "string \<Rightarrow> string" where
  "rel_path request_path =
     (let p = trim_prefix (path_clean request_path) ''/'' in if p = [] then ''.'' else p)"

definition mark_own :: "string \<Rightarrow> string \<Rightarrow> rooted_files \<Rightarrow> rooted_files" where
  "mark_own requested actual h = h\<lparr>rf_wrote := mset_key requested actual (rf_wrote h)\<rparr>"

definition own_path :: "rooted_files \<Rightarrow> string \<Rightarrow> string option" where
  "own_path h p = mget (rf_wrote h) p"

definition write_only :: "rooted_files \<Rightarrow> bool" where
  "write_only h = (rf_mode h = FileServeWO \<or> rf_mode h = FileServeWOPlus)"

definition file_read :: "('fs, 'h, 'i) root_ops \<Rightarrow> rooted_files \<Rightarrow> string \<Rightarrow> 'fs \<Rightarrow> sftp_error + 'h" where
  "file_read ops h filepath fs =
     (if write_only h then Inl PermissionDenied else lift_fs (ro_open ops (rel_path filepath) fs))"

text \<open>\<open>uniqueUploadPath\<close>: \<open>stamp\<close> is the formatted time and \<open>random\<close> the eight bytes of the random
  source, or None if it fails.\<close>

definition unique_upload_path :: "string \<Rightarrow> bytes option \<Rightarrow> string \<Rightarrow> sftp_error + string" where
  "unique_upload_path stamp random requested =
     (case random of
        None \<Rightarrow> Inl NoRandom
      | Some bs \<Rightarrow>
          let base = path_base requested;
              ext = path_ext base;
              stem = trim_suffix base ext;
              unique_base = stem @ ''.'' @ stamp @ ''.'' @ hex_encode bs @ ext
          in Inr (if path_dir requested \<noteq> ''.'' then path_join [path_dir requested, unique_base] else unique_base))"

record pflags =
  pf_read :: bool
  pf_write :: bool
  pf_append :: bool
  pf_creat :: bool
  pf_trunc :: bool
  pf_excl :: bool

definition excl_flags :: open_flags where
  "excl_flags = \<lparr>of_rdwr = False, of_append = False, of_create = True, of_trunc = False, of_excl = True\<rparr>"

definition rw_flags :: "pflags \<Rightarrow> open_flags" where
  "rw_flags pf =
     \<lparr>of_rdwr = (pf_read pf \<and> pf_write pf), of_append = pf_append pf, of_create = pf_creat pf,
      of_trunc = pf_trunc pf, of_excl = pf_excl pf\<rparr>"

definition file_mode :: nat where "file_mode = 0x1A4"

text \<open>The part of \<open>Filewrite\<close> after the drop box's checks.\<close>

definition drop_create ::
  "('fs, 'h, 'i) root_ops \<Rightarrow> string \<Rightarrow> bytes option \<Rightarrow> rooted_files \<Rightarrow> string \<Rightarrow> 'fs
     \<Rightarrow> 'fs \<times> rooted_files \<times> (sftp_error + 'h)" where
  "drop_create ops stamp random h requested fs =
     (case (if rf_mode h = FileServeWO then unique_upload_path stamp random requested else Inr requested) of
        Inl e \<Rightarrow> (fs, h, Inl e)
      | Inr actual \<Rightarrow>
          (case ro_open_file ops actual excl_flags file_mode fs of
             (fs, Inr f) \<Rightarrow> (fs, mark_own requested actual h, Inr f)
           | (fs, Inl e) \<Rightarrow>
               if rf_mode h = FileServeWOPlus \<and> e = ErrExist then
                 (case unique_upload_path stamp random requested of
                    Inl e \<Rightarrow> (fs, h, Inl e)
                  | Inr actual \<Rightarrow>
                      (case ro_open_file ops actual excl_flags file_mode fs of
                         (fs, Inr f) \<Rightarrow> (fs, mark_own requested actual h, Inr f)
                       | (fs, Inl e) \<Rightarrow> (fs, h, Inl (FromFs e))))
               else (fs, h, Inl (FromFs e))))"

definition file_write ::
  "('fs, 'h, 'i) root_ops \<Rightarrow> string \<Rightarrow> bytes option \<Rightarrow> rooted_files \<Rightarrow> pflags \<Rightarrow> string \<Rightarrow> 'fs
     \<Rightarrow> 'fs \<times> rooted_files \<times> (sftp_error + 'h)" where
  "file_write ops stamp random h pf filepath fs =
     (if rf_mode h = FileServeRO then (fs, h, Inl PermissionDenied)
      else if write_only h then
        (if pf_read pf \<or> \<not> pf_write pf \<or> \<not> pf_creat pf then (fs, h, Inl PermissionDenied)
         else
           let requested = rel_path filepath
           in if rf_mode h = FileServeWO \<and> (requested = ''.'' \<or> contains_char CHR ''/'' requested)
              then (fs, h, Inl PermissionDenied)
              else drop_create ops stamp random h requested fs)
      else
        (case ro_open_file ops (rel_path filepath) (rw_flags pf) file_mode fs of
           (fs, r) \<Rightarrow> (fs, h, lift_fs r)))"

text \<open>\<open>setstat\<close>: an attribute is None when its flag is not set. The mode is cut to its permission
  bits; the size is converted to a signed 64-bit integer.\<close>

record setstat_attrs =
  sa_mode :: "u32 option"
  sa_times :: "(u32 \<times> u32) option"
  sa_size :: "u64 option"

definition set_mode :: "('fs, 'h, 'i) root_ops \<Rightarrow> setstat_attrs \<Rightarrow> string \<Rightarrow> 'fs \<Rightarrow> 'fs \<times> fs_error option" where
  "set_mode ops a p fs =
     (case sa_mode a of None \<Rightarrow> (fs, None) | Some m \<Rightarrow> ro_chmod ops p (unat (m AND 0x1FF)) fs)"

definition set_times :: "('fs, 'h, 'i) root_ops \<Rightarrow> setstat_attrs \<Rightarrow> string \<Rightarrow> 'fs \<Rightarrow> 'fs \<times> fs_error option" where
  "set_times ops a p fs =
     (case sa_times a of None \<Rightarrow> (fs, None) | Some (at, mt) \<Rightarrow> ro_chtimes ops p (uint at) (uint mt) fs)"

definition set_size :: "('fs, 'h, 'i) root_ops \<Rightarrow> setstat_attrs \<Rightarrow> string \<Rightarrow> 'fs \<Rightarrow> 'fs \<times> fs_error option" where
  "set_size ops a p fs =
     (case sa_size a of
        None \<Rightarrow> (fs, None)
      | Some n \<Rightarrow>
          (case ro_open_file ops p (excl_flags\<lparr>of_create := False, of_excl := False\<rparr>) 0 fs of
             (fs, Inl e) \<Rightarrow> (fs, Some e)
           | (fs, Inr f) \<Rightarrow> ro_truncate ops f (sint n) fs))"

definition setstat :: "('fs, 'h, 'i) root_ops \<Rightarrow> setstat_attrs \<Rightarrow> string \<Rightarrow> 'fs \<Rightarrow> 'fs \<times> sftp_error option" where
  "setstat ops a p fs =
     (case set_mode ops a p fs of
        (fs, Some e) \<Rightarrow> (fs, Some (FromFs e))
      | (fs, None) \<Rightarrow>
          (case set_times ops a p fs of
             (fs, Some e) \<Rightarrow> (fs, Some (FromFs e))
           | (fs, None) \<Rightarrow> (case set_size ops a p fs of (fs, e) \<Rightarrow> (fs, fs_result e))))"

definition file_cmd ::
  "('fs, 'h, 'i) root_ops \<Rightarrow> rooted_files \<Rightarrow> string \<Rightarrow> string \<Rightarrow> string \<Rightarrow> setstat_attrs \<Rightarrow> 'fs
     \<Rightarrow> 'fs \<times> rooted_files \<times> sftp_error option" where
  "file_cmd ops h meth filepath target attrs fs =
     (let p = rel_path filepath;
          keep = (\<lambda>(fs, e). (fs, h, fs_result e))
      in if rf_mode h = FileServeRO then (fs, h, Some PermissionDenied)
         else if write_only h then
           (if meth = ''Mkdir'' then
              (if rf_mode h = FileServeWO then (fs, h, Some PermissionDenied)
               else (case ro_mkdir ops p 0x1ED fs of
                       (fs, Some e) \<Rightarrow> (fs, h, Some (FromFs e))
                     | (fs, None) \<Rightarrow> (fs, mark_own p p h, None)))
            else if meth = ''Setstat'' then
              (case own_path h p of
                 None \<Rightarrow> (fs, h, Some PermissionDenied)
               | Some actual \<Rightarrow> (case setstat ops attrs actual fs of (fs, e) \<Rightarrow> (fs, h, e)))
            else (fs, h, Some PermissionDenied))
         else if meth = ''Setstat'' then (case setstat ops attrs p fs of (fs, e) \<Rightarrow> (fs, h, e))
         else if meth = ''Rename'' then keep (ro_rename ops p (rel_path target) fs)
         else if meth = ''Rmdir'' \<or> meth = ''Remove'' then keep (ro_remove ops p fs)
         else if meth = ''Mkdir'' then keep (ro_mkdir ops p 0x1ED fs)
         else if meth = ''Link'' then keep (ro_link ops p (rel_path target) fs)
         else if meth = ''Symlink'' then keep (ro_symlink ops p (rel_path target) fs)
         else (fs, h, Some OpUnsupported))"

definition file_stat ::
  "('fs, 'h, 'i) root_ops \<Rightarrow> rooted_files \<Rightarrow> string \<Rightarrow> (string \<Rightarrow> 'fs \<Rightarrow> fs_error + 'i) \<Rightarrow> 'fs \<Rightarrow> sftp_error + 'i" where
  "file_stat ops h p statf fs =
     (if \<not> write_only h then lift_fs (statf p fs)
      else
        (case own_path h p of
           Some actual \<Rightarrow> lift_fs (statf actual fs)
         | None \<Rightarrow>
             if rf_mode h = FileServeWO \<and> p \<noteq> ''.'' then Inl NoSuchFile
             else
               (case statf p fs of
                  Inl e \<Rightarrow> Inl NoSuchFile
                | Inr fi \<Rightarrow> if ro_is_dir ops fi then Inr fi else Inl NoSuchFile)))"

definition file_list ::
  "('fs, 'h, 'i) root_ops \<Rightarrow> rooted_files \<Rightarrow> string \<Rightarrow> string \<Rightarrow> 'fs \<Rightarrow> sftp_error + 'i list" where
  "file_list ops h meth filepath fs =
     (let p = rel_path filepath
      in if meth = ''List'' then
           (if write_only h then Inl PermissionDenied
            else
              (case ro_open ops p fs of
                 Inl e \<Rightarrow> Inl (FromFs e)
               | Inr f \<Rightarrow> lift_fs (ro_readdir ops f fs)))
         else if meth = ''Stat'' then
           (case file_stat ops h p (ro_stat ops) fs of Inl e \<Rightarrow> Inl e | Inr fi \<Rightarrow> Inr [fi])
         else Inl OpUnsupported)"

definition file_lstat :: "('fs, 'h, 'i) root_ops \<Rightarrow> rooted_files \<Rightarrow> string \<Rightarrow> 'fs \<Rightarrow> sftp_error + 'i list" where
  "file_lstat ops h filepath fs =
     (case file_stat ops h (rel_path filepath) (ro_lstat ops) fs of Inl e \<Rightarrow> Inl e | Inr fi \<Rightarrow> Inr [fi])"

definition file_readlink :: "('fs, 'h, 'i) root_ops \<Rightarrow> rooted_files \<Rightarrow> string \<Rightarrow> 'fs \<Rightarrow> sftp_error + string" where
  "file_readlink ops h request_path fs =
     (if write_only h then Inl PermissionDenied else lift_fs (ro_readlink ops (rel_path request_path) fs))"

text \<open>\<open>listerAt.ListAt\<close>: the entries copied into a buffer of \<open>len\<close> and whether the error is
  \<open>io.EOF\<close>; the offset is not negative.\<close>

definition list_at :: "'i list \<Rightarrow> nat \<Rightarrow> nat \<Rightarrow> 'i list \<times> bool" where
  "list_at l len off =
     (if length l \<le> off then ([], True)
      else let got = take len (drop off l) in (got, length got < len))"

section \<open>A session\<close>

text \<open>What a client can ask for in one session, and the handler each request reaches. The library
  keeps the files it was handed for writing and writes to them for the client.\<close>

datatype request = Get string | Put pflags string | WriteAt nat nat bytes | Cmd string string string setstat_attrs
  | ListReq string string | Lstat string | Readlink string

datatype ('h, 'i) reply = Failed sftp_error | Opened 'h | Entries "'i list" | LinkTo string | Done

type_synonym ('fs, 'h) session = "'fs \<times> rooted_files \<times> 'h list"

definition reply_of :: "('a \<Rightarrow> ('h, 'i) reply) \<Rightarrow> sftp_error + 'a \<Rightarrow> ('h, 'i) reply" where
  "reply_of f r = (case r of Inl e \<Rightarrow> Failed e | Inr x \<Rightarrow> f x)"

definition done_or :: "sftp_error option \<Rightarrow> ('h, 'i) reply" where
  "done_or e = (case e of None \<Rightarrow> Done | Some e \<Rightarrow> Failed e)"

definition opened_by :: "sftp_error + 'h \<Rightarrow> 'h list" where
  "opened_by r = (case r of Inl e \<Rightarrow> [] | Inr f \<Rightarrow> [f])"

lemma opened_by_simps [simp]: "opened_by (Inl e) = []" "opened_by (Inr f) = [f]"
  by (simp_all add: opened_by_def)

fun serve ::
  "('fs, 'h, 'i) root_ops \<Rightarrow> string \<Rightarrow> bytes option \<Rightarrow> request \<Rightarrow> ('fs, 'h) session
     \<Rightarrow> ('fs, 'h) session \<times> ('h, 'i) reply" where
  "serve ops stamp random (Get p) (fs, h, hs) = ((fs, h, hs), reply_of Opened (file_read ops h p fs))"
| "serve ops stamp random (Put pf p) (fs, h, hs) =
     (case file_write ops stamp random h pf p fs of
        (fs, h, r) \<Rightarrow> ((fs, h, hs @ opened_by r), reply_of Opened r))"
| "serve ops stamp random (WriteAt i off d) (fs, h, hs) =
     (if i < length hs then (case ro_write ops (hs ! i) off d fs of (fs, e) \<Rightarrow> ((fs, h, hs), done_or (fs_result e)))
      else ((fs, h, hs), Failed OpUnsupported))"
| "serve ops stamp random (Cmd m p t a) (fs, h, hs) =
     (case file_cmd ops h m p t a fs of (fs, h, e) \<Rightarrow> ((fs, h, hs), done_or e))"
| "serve ops stamp random (ListReq m p) (fs, h, hs) = ((fs, h, hs), reply_of Entries (file_list ops h m p fs))"
| "serve ops stamp random (Lstat p) (fs, h, hs) = ((fs, h, hs), reply_of Entries (file_lstat ops h p fs))"
| "serve ops stamp random (Readlink p) (fs, h, hs) = ((fs, h, hs), reply_of LinkTo (file_readlink ops h p fs))"

fun serve_all ::
  "('fs, 'h, 'i) root_ops \<Rightarrow> (string \<times> bytes option \<times> request) list \<Rightarrow> ('fs, 'h) session \<Rightarrow> ('fs, 'h) session" where
  "serve_all ops [] s = s"
| "serve_all ops ((stamp, random, r) # rs) s = serve_all ops rs (fst (serve ops stamp random r s))"

definition new_session :: "file_serve_mode \<Rightarrow> rooted_files" where
  "new_session m = \<lparr>rf_mode = m, rf_wrote = []\<rparr>"

section \<open>Paths stay inside\<close>

lemma trim_root: "trim_prefix (''/'' @ p) ''/'' = p"
  unfolding trim_prefix_def by (simp only: cut_prefix_append option.case)

text \<open>The path a request is resolved to never leaves the served directory: it is the directory
  itself, or names an entry by components none of which is empty, a dot or a double dot; and
  resolving it again changes nothing.\<close>

theorem rel_path_inside:
  assumes "prefix ''/'' request_path"
  shows "(rel_path request_path = ''.'' \<or> list_all plain_comp (split_on CHR ''/'' (rel_path request_path)))
    \<and> rel_path (''/'' @ rel_path request_path) = rel_path request_path"
proof -
  let ?out = "path_comps request_path"
  have ne: "request_path \<noteq> []" using assms by auto
  have plain: "list_all plain_comp ?out" by (rule path_comps_plain [OF assms])
  have join_ne: "join ''/'' ?out = [] \<longleftrightarrow> ?out = []"
  proof (cases ?out)
    case (Cons c cs)
    then have "c \<noteq> []" using plain by (simp add: plain_comp_def)
    then show ?thesis using Cons by (cases cs) auto
  qed simp
  have rel: "rel_path request_path = (if ?out = [] then ''.'' else join ''/'' ?out)"
  proof -
    have "path_clean request_path = ''/'' @ join ''/'' ?out" using assms ne by (simp add: path_clean_def Let_def)
    then have "trim_prefix (path_clean request_path) ''/'' = join ''/'' ?out" by (simp only: trim_root)
    then show ?thesis using join_ne by (simp add: rel_path_def Let_def)
  qed
  have split: "split_on CHR ''/'' (join ''/'' ?out) = ?out" if "?out \<noteq> []"
    using split_on_join [OF that plain_no_sep [OF plain]] .
  have "rel_path (''/'' @ join ''/'' ?out) = join ''/'' ?out" if o: "?out \<noteq> []"
  proof -
    have "path_comps (''/'' @ join ''/'' ?out) = ?out"
      using split [OF o] path_steps_id [OF plain, of True "[]"] by (simp add: path_comps_def path_step_def)
    then have "path_clean (''/'' @ join ''/'' ?out) = ''/'' @ join ''/'' ?out" by (simp add: path_clean_def Let_def)
    then have "trim_prefix (path_clean (''/'' @ join ''/'' ?out)) ''/'' = join ''/'' ?out" by (simp only: trim_root)
    moreover have "join ''/'' ?out \<noteq> []" using join_ne o by simp
    ultimately show ?thesis by (simp add: rel_path_def Let_def)
  qed
  moreover have "rel_path (''/'' @ ''.'') = ''.''" by code_simp
  ultimately show ?thesis using rel split plain by auto
qed

theorem rel_path_inside_witness:
  "rel_path ''/../../a/./b//..'' = ''a'' \<and> list_all plain_comp (split_on CHR ''/'' (rel_path ''/../../a/./b//..''))"
proof -
  have "prefix ''/'' ''/../../a/./b//..''" by simp
  moreover have "rel_path ''/../../a/./b//..'' = ''a''" by code_simp
  ultimately show ?thesis using rel_path_inside [of "''/../../a/./b//..''"] by simp
qed

section \<open>Reading services\<close>

text \<open>A read-only service is read-only: whatever a session asks for, the directory, the session and
  its files stay as they are, and the requests that would change something are refused.\<close>

theorem read_only_never_writes:
  assumes "rf_mode h = FileServeRO"
  shows "serve_all ops rs (fs, h, []) = (fs, h, [])
    \<and> snd (serve ops stamp random (Put pf p) (fs, h, [])) = Failed PermissionDenied
    \<and> snd (serve ops stamp random (Cmd m p tgt a) (fs, h, [])) = Failed PermissionDenied"
proof -
  have one: "fst (serve ops st rd r (fs, h, [])) = (fs, h, [])" for st rd r
    using assms by (cases r) (simp_all add: file_write_def file_cmd_def opened_by_def Let_def)
  have "serve_all ops rs (fs, h, []) = (fs, h, [])"
    by (induction rs) (auto simp: one)
  then show ?thesis using assms by (simp add: file_write_def file_cmd_def reply_of_def done_or_def Let_def)
qed

section \<open>Drop boxes\<close>

text \<open>What a drop box relies on: an exclusive creation and a mkdir leave what exists alone and
  succeed only where nothing is, and changing one path or one open file changes nothing under
  another path, which is so in a directory without links. \<open>content fs p\<close> is what is at \<open>p\<close>.\<close>

abbreviation plain_write :: open_flags where
  "plain_write \<equiv> excl_flags\<lparr>of_create := False, of_excl := False\<rparr>"

locale rooted_dir =
  fixes ops :: "('fs, 'h, 'i) root_ops"
    and content :: "'fs \<Rightarrow> string \<Rightarrow> 'c option"
    and handle_path :: "'h \<Rightarrow> string"
  assumes excl_keeps: "ro_open_file ops p excl_flags m fs = (fs', r) \<Longrightarrow> content fs q \<noteq> None \<Longrightarrow> content fs' q = content fs q"
    and excl_fresh: "ro_open_file ops p excl_flags m fs = (fs', Inr f) \<Longrightarrow> content fs p = None \<and> handle_path f = p"
    and mkdir_keeps: "ro_mkdir ops p m fs = (fs', e) \<Longrightarrow> content fs q \<noteq> None \<Longrightarrow> content fs' q = content fs q"
    and mkdir_fresh: "ro_mkdir ops p m fs = (fs', None) \<Longrightarrow> content fs p = None"
    and chmod_keeps: "ro_chmod ops p m fs = (fs', e) \<Longrightarrow> q \<noteq> p \<Longrightarrow> content fs' q = content fs q"
    and chtimes_keeps: "ro_chtimes ops p at mt fs = (fs', e) \<Longrightarrow> q \<noteq> p \<Longrightarrow> content fs' q = content fs q"
    and open_keeps: "ro_open_file ops p plain_write m fs = (fs', r) \<Longrightarrow> q \<noteq> p \<Longrightarrow> content fs' q = content fs q"
    and open_handle: "ro_open_file ops p plain_write m fs = (fs', Inr f) \<Longrightarrow> handle_path f = p"
    and truncate_keeps: "ro_truncate ops f n fs = (fs', e) \<Longrightarrow> q \<noteq> handle_path f \<Longrightarrow> content fs' q = content fs q"
    and write_keeps: "ro_write ops f off d fs = (fs', e) \<Longrightarrow> q \<noteq> handle_path f \<Longrightarrow> content fs' q = content fs q"
begin

text \<open>The session invariant against the state in which it started: all that was there is there
  unchanged, and every path it has created and every file it may write was not there.\<close>

definition kept :: "'fs \<Rightarrow> ('fs, 'h) session \<Rightarrow> bool" where
  "kept fs0 s = (case s of (fs, h, hs) \<Rightarrow>
     write_only h
     \<and> (\<forall>q. content fs0 q \<noteq> None \<longrightarrow> content fs q = content fs0 q)
     \<and> (\<forall>(k, a) \<in> set (rf_wrote h). content fs0 a = None)
     \<and> (\<forall>f \<in> set hs. content fs0 (handle_path f) = None))"

lemma keptI:
  "write_only h \<Longrightarrow> (\<And>q. content fs0 q \<noteq> None \<Longrightarrow> content fs q = content fs0 q)
    \<Longrightarrow> (\<And>k a. (k, a) \<in> set (rf_wrote h) \<Longrightarrow> content fs0 a = None)
    \<Longrightarrow> (\<And>f. f \<in> set hs \<Longrightarrow> content fs0 (handle_path f) = None) \<Longrightarrow> kept fs0 (fs, h, hs)"
  by (auto simp: kept_def)

lemma kept_update:
  assumes "kept fs0 (fs, h, hs)" "\<And>q. content fs0 q \<noteq> None \<Longrightarrow> content fs' q = content fs q"
  shows "kept fs0 (fs', h, hs)"
  using assms by (auto simp: kept_def)

lemma kept_own:
  assumes "kept fs0 (fs, h, hs)" "content fs a = None" "\<forall>f \<in> set hs'. handle_path f = a"
    "\<And>q. content fs0 q \<noteq> None \<Longrightarrow> content fs' q = content fs q"
  shows "kept fs0 (fs', mark_own k a h, hs @ hs')"
proof -
  have a: "content fs0 a = None" using assms(1,2) by (auto simp: kept_def)
  have "content fs0 b = None" if "(j, b) \<in> set (mset_key k a (rf_wrote h))" for j b
    using set_mset_key_cases [OF that] a assms(1) by (auto simp: kept_def)
  then show ?thesis using assms a by (fastforce simp: kept_def mark_own_def write_only_def)
qed

lemma excl_create_step:
  assumes "kept fs0 (fs, h, hs)" "ro_open_file ops a excl_flags m fs = (fs', r)"
  shows "kept fs0 (fs', h, hs)" "r = Inr f \<Longrightarrow> kept fs0 (fs', mark_own k a h, hs @ [f])"
proof -
  have k: "content fs' q = content fs q" if "content fs0 q \<noteq> None" for q
    using that assms excl_keeps by (auto simp: kept_def)
  show "kept fs0 (fs', h, hs)" using assms(1) k by (rule kept_update)
  show "kept fs0 (fs', mark_own k a h, hs @ [f])" if "r = Inr f"
    using excl_fresh [of a m fs fs' f] assms(2) that by (intro kept_own [OF assms(1) _ _ k]) auto
qed

lemma drop_create_kept:
  assumes "kept fs0 (fs, h, hs)" "drop_create ops stamp random h requested fs = (fs', h', r)"
  shows "kept fs0 (fs', h', hs @ opened_by r)"
proof (cases "if rf_mode h = FileServeWO then unique_upload_path stamp random requested else Inr requested")
  case (Inl e)
  then show ?thesis using assms by (auto simp: drop_create_def)
next
  case (Inr a)
  obtain fs1 r1 where o1: "ro_open_file ops a excl_flags file_mode fs = (fs1, r1)" by (cases "ro_open_file ops a excl_flags file_mode fs")
  note k1 = excl_create_step [OF assms(1) o1]
  show ?thesis
  proof (cases r1)
    case r1: (Inr f)
    then show ?thesis using assms(2) Inr o1 k1(2) [of f requested] by (auto simp: drop_create_def)
  next
    case r1: (Inl e)
    show ?thesis
    proof (cases "rf_mode h = FileServeWOPlus \<and> e = ErrExist")
      case False
      then show ?thesis using assms(2) Inr o1 r1 k1(1) by (auto simp: drop_create_def)
    next
      case True
      show ?thesis
      proof (cases "unique_upload_path stamp random requested")
        case (Inl e')
        then show ?thesis using assms(2) \<open>_ = Inr a\<close> o1 r1 k1(1) True by (auto simp: drop_create_def)
      next
        case u: (Inr a')
        obtain fs2 r2 where o2: "ro_open_file ops a' excl_flags file_mode fs1 = (fs2, r2)"
          by (cases "ro_open_file ops a' excl_flags file_mode fs1")
        note k2 = excl_create_step [OF k1(1) o2]
        show ?thesis
          using assms(2) \<open>_ = Inr a\<close> o1 r1 True u o2 k2(1) k2(2) [of _ requested]
          by (cases r2) (auto simp: drop_create_def)
      qed
    qed
  qed
qed

lemma file_write_kept:
  assumes "kept fs0 (fs, h, hs)" "file_write ops stamp random h pf p fs = (fs', h', r)"
  shows "kept fs0 (fs', h', hs @ opened_by r)"
proof -
  have w: "write_only h" "rf_mode h \<noteq> FileServeRO" using assms(1) by (auto simp: kept_def write_only_def)
  then show ?thesis
    using assms drop_create_kept [OF assms(1), of stamp random "rel_path p" fs' h' r]
    by (auto simp: file_write_def Let_def split: if_splits)
qed

lemma setstat_keeps:
  assumes "setstat ops a p fs = (fs', e)" "q \<noteq> p"
  shows "content fs' q = content fs q"
proof -
  obtain fs1 e1 where m: "set_mode ops a p fs = (fs1, e1)" by (cases "set_mode ops a p fs")
  obtain fs2 e2 where t: "set_times ops a p fs1 = (fs2, e2)" by (cases "set_times ops a p fs1")
  obtain fs3 e3 where s: "set_size ops a p fs2 = (fs3, e3)" by (cases "set_size ops a p fs2")
  have 1: "content fs1 q = content fs q"
    using m chmod_keeps [of p _ fs fs1 e1 q] assms(2) by (auto simp: set_mode_def split: option.splits)
  have 2: "content fs2 q = content fs1 q"
    using t chtimes_keeps [of p _ _ fs1 fs2 e2 q] assms(2) by (auto simp: set_times_def split: option.splits)
  have 3: "content fs3 q = content fs2 q"
  proof (cases "sa_size a")
    case None
    then show ?thesis using s by (simp add: set_size_def)
  next
    case (Some n)
    obtain fs4 r where o: "ro_open_file ops p plain_write 0 fs2 = (fs4, r)" by (cases "ro_open_file ops p plain_write 0 fs2")
    show ?thesis
      using Some s o open_keeps [OF o assms(2)] open_handle [of p 0 fs2 fs4] truncate_keeps [of _ "sint n" fs4 fs3 e3 q] assms(2)
      by (cases r) (auto simp: set_size_def)
  qed
  from assms(1) m t s show ?thesis
    using 1 2 3 by (cases e1; cases e2) (auto simp: setstat_def)
qed

lemma file_cmd_kept:
  assumes "kept fs0 (fs, h, hs)" "file_cmd ops h m p tgt a fs = (fs', h', e)"
  shows "kept fs0 (fs', h', hs)"
proof -
  let ?p = "rel_path p"
  have w: "write_only h" "rf_mode h \<noteq> FileServeRO" using assms(1) by (auto simp: kept_def write_only_def)
  consider "m = ''Mkdir''" "rf_mode h \<noteq> FileServeWO" | own where "m = ''Setstat''" "own_path h ?p = Some own"
    | "fs' = fs" "h' = h"
    using assms(2) w by (auto simp: file_cmd_def Let_def split: if_splits option.splits)
  then show ?thesis
  proof cases
    case 1
    obtain fs1 e1 where mk: "ro_mkdir ops ?p 0x1ED fs = (fs1, e1)" by (cases "ro_mkdir ops ?p 0x1ED fs")
    have k: "content fs1 q = content fs q" if "content fs0 q \<noteq> None" for q
      using that assms(1) mkdir_keeps [OF mk] by (auto simp: kept_def)
    show ?thesis
    proof (cases e1)
      case None
      then have f: "content fs ?p = None" using mk mkdir_fresh by blast
      have "kept fs0 (fs1, mark_own ?p ?p h, hs @ [])" by (rule kept_own [OF assms(1) f _ k]) simp_all
      then show ?thesis using assms(2) 1 w mk None by (simp add: file_cmd_def Let_def)
    next
      case (Some x)
      then show ?thesis using assms(2) 1 w mk kept_update [OF assms(1) k] by (simp add: file_cmd_def Let_def)
    qed
  next
    case 2
    then have o: "content fs0 own = None"
      using assms(1) map_of_SomeD [of "rf_wrote h" ?p own] by (auto simp: kept_def own_path_def)
    obtain fs1 e1 where s: "setstat ops a own fs = (fs1, e1)" by (cases "setstat ops a own fs")
    have "content fs1 q = content fs q" if "content fs0 q \<noteq> None" for q
      using setstat_keeps [OF s, of q] o that by (cases "q = own") auto
    then have "kept fs0 (fs1, h, hs)" by (rule kept_update [OF assms(1)])
    then show ?thesis using assms(2) 2 w s by (simp add: file_cmd_def Let_def)
  next
    case 3
    then show ?thesis using assms(1) by simp
  qed
qed

lemma serve_kept:
  assumes "kept fs0 (fs, h, hs)"
  shows "kept fs0 (fst (serve ops stamp random r (fs, h, hs)))"
proof (cases r)
  case (Put pf p)
  obtain fs' h' x where w: "file_write ops stamp random h pf p fs = (fs', h', x)" by (cases "file_write ops stamp random h pf p fs") auto
  then show ?thesis using Put file_write_kept [OF assms w] by simp
next
  case (Cmd m p t a)
  obtain fs' h' e where w: "file_cmd ops h m p t a fs = (fs', h', e)" by (cases "file_cmd ops h m p t a fs") auto
  then show ?thesis using Cmd file_cmd_kept [OF assms w] by simp
next
  case (WriteAt i off d)
  show ?thesis
  proof (cases "i < length hs")
    case True
    obtain fs' e where w: "ro_write ops (hs ! i) off d fs = (fs', e)" by (cases "ro_write ops (hs ! i) off d fs")
    have "content fs' q = content fs q" if "content fs0 q \<noteq> None" for q
    proof -
      have "content fs0 (handle_path (hs ! i)) = None" using assms True by (auto simp: kept_def)
      then show ?thesis using write_keeps [OF w, of q] that by (cases "q = handle_path (hs ! i)") auto
    qed
    then show ?thesis using WriteAt True w kept_update [OF assms] by simp
  next
    case False
    then show ?thesis using WriteAt assms by simp
  qed
qed (use assms in simp_all)

lemma session_kept: "kept fs0 s \<Longrightarrow> kept fs0 (serve_all ops rs s)"
proof (induction rs arbitrary: s)
  case (Cons r rs)
  obtain fs h hs where s: "s = (fs, h, hs)" by (cases s)
  obtain stamp random q where r: "r = (stamp, random, q)" by (cases r)
  show ?case using Cons.IH [OF serve_kept [OF Cons.prems [unfolded s], of stamp random q]] by (simp add: r s)
qed simp

lemma session_keeps:
  assumes "m = FileServeWO \<or> m = FileServeWOPlus" "serve_all ops rs (fs0, new_session m, []) = (fs, h, hs)" "content fs0 q \<noteq> None"
  shows "content fs q = content fs0 q"
proof -
  have "kept fs0 (fs0, new_session m, [])" using assms(1) by (auto simp: kept_def new_session_def write_only_def)
  from session_kept [OF this, of rs] show ?thesis using assms(2,3) by (simp add: kept_def)
qed

end

section \<open>A directory of files and directories\<close>

text \<open>A directory without links: what is at each path below the root.\<close>

datatype node = FileN bytes | DirN

type_synonym tree = "(string, node) gomap"

definition tree_at :: "tree \<Rightarrow> string \<Rightarrow> node option" where
  "tree_at t p = (if p = ''.'' then Some DirN else mget t p)"

definition tree_open_file :: "string \<Rightarrow> open_flags \<Rightarrow> nat \<Rightarrow> tree \<Rightarrow> tree \<times> (fs_error + string)" where
  "tree_open_file p fl m t =
     (case tree_at t p of
        Some n \<Rightarrow>
          if of_create fl \<and> of_excl fl then (t, Inl ErrExist)
          else (case n of
                  DirN \<Rightarrow> (t, Inl ErrOther)
                | FileN c \<Rightarrow> (if of_trunc fl then mset_key p (FileN []) t else t, Inr p))
      | None \<Rightarrow>
          if of_create fl \<and> tree_at t (path_dir p) = Some DirN then (mset_key p (FileN []) t, Inr p)
          else (t, Inl ErrNotExist))"

definition tree_mkdir :: "string \<Rightarrow> nat \<Rightarrow> tree \<Rightarrow> tree \<times> fs_error option" where
  "tree_mkdir p m t =
     (if tree_at t p \<noteq> None then (t, Some ErrExist)
      else if tree_at t (path_dir p) = Some DirN then (mset_key p DirN t, None) else (t, Some ErrNotExist))"

definition tree_children :: "tree \<Rightarrow> string \<Rightarrow> (string \<times> node) list" where
  "tree_children t p = filter (\<lambda>(q, n). q \<noteq> p \<and> path_dir q = p) t"

definition tree_remove :: "string \<Rightarrow> tree \<Rightarrow> tree \<times> fs_error option" where
  "tree_remove p t =
     (if tree_at t p = None then (t, Some ErrNotExist)
      else if p = ''.'' \<or> tree_children t p \<noteq> [] then (t, Some ErrOther) else (mdel p t, None))"

definition tree_rename :: "string \<Rightarrow> string \<Rightarrow> tree \<Rightarrow> tree \<times> fs_error option" where
  "tree_rename p q t =
     (case tree_at t p of
        Some (FileN c) \<Rightarrow>
          if tree_at t q = Some DirN \<or> tree_at t (path_dir q) \<noteq> Some DirN then (t, Some ErrOther)
          else (mset_key q (FileN c) (mdel p t), None)
      | Some DirN \<Rightarrow> (t, Some ErrOther)
      | None \<Rightarrow> (t, Some ErrNotExist))"

definition tree_change :: "string \<Rightarrow> (bytes \<Rightarrow> bytes) \<Rightarrow> tree \<Rightarrow> tree \<times> fs_error option" where
  "tree_change p f t =
     (case tree_at t p of Some (FileN c) \<Rightarrow> (mset_key p (FileN (f c)) t, None) | _ \<Rightarrow> (t, Some ErrOther))"

definition resize :: "nat \<Rightarrow> bytes \<Rightarrow> bytes" where
  "resize n c = take n (c @ zero_bytes n)"

definition tree_ops :: "(tree, string, string \<times> node) root_ops" where
  "tree_ops =
     \<lparr>ro_open = (\<lambda>p t. if tree_at t p = None then Inl ErrNotExist else Inr p),
      ro_open_file = tree_open_file, ro_mkdir = tree_mkdir, ro_rename = tree_rename, ro_remove = tree_remove,
      ro_link = (\<lambda>p q t. (t, Some ErrOther)), ro_symlink = (\<lambda>p q t. (t, Some ErrOther)),
      ro_chmod = (\<lambda>p m t. (t, if tree_at t p = None then Some ErrNotExist else None)),
      ro_chtimes = (\<lambda>p a m t. (t, if tree_at t p = None then Some ErrNotExist else None)),
      ro_truncate = (\<lambda>p n t. if n < 0 then (t, Some ErrOther) else tree_change p (resize (nat n)) t),
      ro_write = (\<lambda>p off d t. tree_change p (\<lambda>c. resize off c @ d @ drop (off + length d) c) t),
      ro_readdir = (\<lambda>p t. if tree_at t p = Some DirN then Inr (tree_children t p) else Inl ErrOther),
      ro_stat = (\<lambda>p t. case tree_at t p of None \<Rightarrow> Inl ErrNotExist | Some n \<Rightarrow> Inr (p, n)),
      ro_lstat = (\<lambda>p t. case tree_at t p of None \<Rightarrow> Inl ErrNotExist | Some n \<Rightarrow> Inr (p, n)),
      ro_readlink = (\<lambda>p t. Inl ErrOther),
      ro_is_dir = (\<lambda>(p, n). n = DirN)\<rparr>"

lemma tree_at_set [simp]: "p \<noteq> ''.'' \<Longrightarrow> tree_at (mset_key p n t) q = (if q = p then Some n else tree_at t q)"
  by (simp add: tree_at_def)

lemma tree_at_none: "tree_at t p = None \<Longrightarrow> p \<noteq> ''.''"
  by (auto simp: tree_at_def)

lemma tree_change_keeps: "tree_change p f t = (t', e) \<Longrightarrow> q \<noteq> p \<Longrightarrow> tree_at t' q = tree_at t q"
  by (auto simp: tree_change_def tree_at_def split: option.splits node.splits if_splits)

interpretation tree_dir: rooted_dir tree_ops tree_at "\<lambda>f. f"
proof unfold_locales
  fix p m t t' r q
  assume "ro_open_file tree_ops p excl_flags m t = (t', r)" "tree_at t q \<noteq> None"
  then show "tree_at t' q = tree_at t q"
    by (auto simp: tree_ops_def tree_open_file_def excl_flags_def tree_at_none split: option.splits if_splits)
next
  fix p m t t' f
  assume "ro_open_file tree_ops p excl_flags m t = (t', Inr f)"
  then show "tree_at t p = None \<and> f = p"
    by (auto simp: tree_ops_def tree_open_file_def excl_flags_def split: option.splits if_splits)
next
  fix p m t t' e q
  assume "ro_mkdir tree_ops p m t = (t', e)" "tree_at t q \<noteq> None"
  then show "tree_at t' q = tree_at t q"
    by (auto simp: tree_ops_def tree_mkdir_def tree_at_none split: if_splits)
next
  fix p m t t'
  assume "ro_mkdir tree_ops p m t = (t', None)"
  then show "tree_at t p = None" by (auto simp: tree_ops_def tree_mkdir_def split: if_splits)
next
  fix p m t t' r q
  assume "ro_open_file tree_ops p plain_write m t = (t', r)" "q \<noteq> p"
  then show "tree_at t' q = tree_at t q"
    by (auto simp: tree_ops_def tree_open_file_def excl_flags_def split: option.splits node.splits)
next
  fix p m t t' f
  assume "ro_open_file tree_ops p plain_write m t = (t', Inr f)"
  then show "f = p" by (auto simp: tree_ops_def tree_open_file_def excl_flags_def split: option.splits node.splits)
next
  fix f n t t' e q
  assume "ro_truncate tree_ops f n t = (t', e)" "q \<noteq> f"
  then show "tree_at t' q = tree_at t q" by (auto simp: tree_ops_def tree_change_keeps split: if_splits)
next
  fix f off d t t' e q
  assume "ro_write tree_ops f off d t = (t', e)" "q \<noteq> f"
  then show "tree_at t' q = tree_at t q" by (auto simp: tree_ops_def tree_change_keeps)
qed (auto simp: tree_ops_def)

section \<open>What a drop box promises\<close>



text \<open>The path a request that uploads nothing is about.\<close>

fun asks_about :: "request \<Rightarrow> string option" where
  "asks_about (Get p) = Some (rel_path p)"
| "asks_about (Put pf p) = None"
| "asks_about (WriteAt i off d) = None"
| "asks_about (Cmd m p t a) = Some (rel_path p)"
| "asks_about (ListReq m p) = Some (rel_path p)"
| "asks_about (Lstat p) = Some (rel_path p)"
| "asks_about (Readlink p) = Some (rel_path p)"

text \<open>A strict drop box is blind: a request that uploads nothing and is not about the root or a path
  this session has created changes nothing and gets the same refusal whatever the directory
  holds.\<close>

theorem drop_box_blind:
  assumes "rf_mode h = FileServeWO" "asks_about r = Some p" "p \<noteq> ''.''" "own_path h p = None"
  shows "\<exists>e. \<forall>fs hs stamp random. serve ops stamp random r (fs, h, hs) = ((fs, h, hs), Failed e)"
  using assms
  by (cases r) (auto simp: file_read_def write_only_def reply_of_def file_cmd_def done_or_def file_list_def
      file_stat_def file_lstat_def file_readlink_def Let_def)

theorem drop_box_blind_witness:
  "snd (serve tree_ops ''t'' None (ListReq ''Stat'' ''/a.txt'') ([(''a.txt'', FileN [7])], new_session FileServeWO, []))
   = snd (serve tree_ops ''t'' None (ListReq ''Stat'' ''/a.txt'') ([], new_session FileServeWO, []))"
proof -
  have "rel_path ''/a.txt'' = ''a.txt''" by code_simp
  then show ?thesis
    using drop_box_blind [of "new_session FileServeWO" "ListReq ''Stat'' ''/a.txt''" "''a.txt''" tree_ops]
    by (fastforce simp: new_session_def own_path_def)
qed

lemma hex_encode_inj: "hex_encode a = hex_encode b \<longleftrightarrow> a = b"
  using hex_decode_encode by (metis option.inject)

text \<open>The names a strict drop box chooses: a plain name is kept but for the stamp before its
  extension, is never the requested one, and differs for different random bytes.\<close>

lemma unique_upload_plain:
  assumes "CHR ''/'' \<notin> set p" "p \<noteq> []"
  shows "\<exists>stem. p = stem @ path_ext p
    \<and> unique_upload_path stamp (Some bs) p = Inr (stem @ ''.'' @ stamp @ ''.'' @ hex_encode bs @ path_ext p)"
  using assms trim_suffix_ext [OF assms(1)]
  by (intro exI [of _ "trim_suffix p (path_ext p)"])
     (simp add: unique_upload_path_def Let_def path_base_plain path_dir_plain)

text \<open>Uploads do not collide and do not reveal collisions: an upload to a strict drop box is stored
  under a name that differs from the requested one and, for any two different draws of the random
  source, from every other upload; a client that did not create the file, or a nested path, is
  refused without looking at the directory.\<close>

theorem upload_names_fresh:
  assumes "CHR ''/'' \<notin> set p" "p \<noteq> []" "unique_upload_path stamp (Some bs) p = Inr a"
  shows "a \<noteq> p \<and> (length bs' = length bs \<and> bs' \<noteq> bs \<longrightarrow> unique_upload_path stamp (Some bs') p \<noteq> Inr a)
    \<and> (\<exists>stem. p = stem @ path_ext p \<and> prefix stem a \<and> suffix (path_ext p) a)"
proof -
  obtain s where s: "p = s @ path_ext p" "a = s @ ''.'' @ stamp @ ''.'' @ hex_encode bs @ path_ext p"
    using unique_upload_plain [OF assms(1,2), of stamp bs] assms(3) by auto
  obtain s' where s': "p = s' @ path_ext p"
    "unique_upload_path stamp (Some bs') p = Inr (s' @ ''.'' @ stamp @ ''.'' @ hex_encode bs' @ path_ext p)"
    using unique_upload_plain [OF assms(1,2), of stamp bs'] by auto
  have ss: "s' = s" using s(1) s'(1) by (metis append_same_eq)
  have "length p = length (s @ path_ext p)" using arg_cong [OF s(1), of length] .
  moreover have "length a = length (s @ ''.'' @ stamp @ ''.'' @ hex_encode bs @ path_ext p)" using arg_cong [OF s(2), of length] .
  ultimately have "length p < length a" by simp
  then have "a \<noteq> p" by auto
  moreover have "unique_upload_path stamp (Some bs') p \<noteq> Inr a" if "length bs' = length bs" "bs' \<noteq> bs"
    using that s(2) s'(2) ss by (simp add: hex_encode_inj)
  moreover have "prefix s a" "suffix (path_ext p) a" using s(2) by (simp_all add: suffix_def)
  ultimately show ?thesis using s(1) by blast
qed

theorem upload_names_fresh_witness:
  "unique_upload_path ''20240101'' (Some [0xab]) ''a.txt'' = Inr ''a.20240101.ab.txt''
   \<and> unique_upload_path ''20240101'' (Some [0xac]) ''a.txt'' \<noteq> Inr ''a.20240101.ab.txt''"
proof -
  have "unique_upload_path ''20240101'' (Some [0xab]) ''a.txt'' = Inr ''a.20240101.ab.txt''" by code_simp
  then show ?thesis
    using upload_names_fresh [of "''a.txt''" "''20240101''" "[0xab]" "''a.20240101.ab.txt''" "[0xac]"] by simp
qed

section \<open>Listings\<close>

text \<open>Reading a listing page by page gives every entry once, in order; the end is reported with the
  first page that is not full or past the end.\<close>

lemma list_at_pages:
  "concat (map (\<lambda>i. fst (list_at l len (i * len))) [0..<n]) = take (n * len) l"
proof (induction n)
  case (Suc n)
  have "fst (list_at l len (n * len)) = take len (drop (n * len) l)" by (simp add: list_at_def Let_def)
  moreover have "take (Suc n * len) l = take (n * len) l @ take len (drop (n * len) l)"
    by (simp only: mult_Suc add.commute [of len] take_add)
  ultimately show ?case using Suc by simp
qed simp

lemma list_at_eof: "len > 0 \<Longrightarrow> snd (list_at l len off) \<longleftrightarrow> length l < off + len"
  by (auto simp: list_at_def Let_def)

end
