(* ===== verification/Ssh.thy ===== *)
theory Ssh
  imports Proxy Files
begin

text \<open>
  The built-in SSH server: authorized keys (\<open>tailcat_ssh_keys.go\<close> and, for the command line,
  \<open>cmd/tailcat/ssh_authorized_keys.go\<close>), what a server offers under its options and what a session
  runs with which environment (\<open>tailcat_ssh.go\<close>, \<open>tailcat_ssh_unix.go\<close>, \<open>tailcat_exec.go\<close>), and the
  host key. The parser of a public key line, HTTP, the file system and process creation are
  parameters.
\<close>

section \<open>Authorized keys\<close>

text \<open>\<open>pk\<close> is \<open>ParseAuthorizedKey\<close>: the marshalled key, the options and what follows the line.\<close>

type_synonym key_parser = "string \<Rightarrow> (string \<times> string list \<times> string) option"

datatype keys_error = BadEntry nat nat | WithOptions nat nat | NoKeys

definition key_line :: "string \<Rightarrow> string" where
  "key_line line = trim_space (trim_suffix line [char_of (13 :: nat)])"

definition skipped_line :: "string \<Rightarrow> bool" where
  "skipped_line l = (l = [] \<or> prefix ''#'' l)"

fun key_lines ::
  "key_parser \<Rightarrow> nat \<Rightarrow> nat \<Rightarrow> string list \<Rightarrow> (string, bool) gomap \<Rightarrow> keys_error + (string, bool) gomap" where
  "key_lines pk ti li [] allowed = Inr allowed"
| "key_lines pk ti li (line # rest) allowed =
     (let l = key_line line
      in if skipped_line l then key_lines pk ti (Suc li) rest allowed
         else
           (case pk l of
              None \<Rightarrow> Inl (BadEntry ti li)
            | Some (blob, options, tail) \<Rightarrow>
                if trim_space tail \<noteq> [] then Inl (BadEntry ti li)
                else if options \<noteq> [] then Inl (WithOptions ti li)
                else key_lines pk ti (Suc li) rest (mset_key blob True allowed)))"

definition text_lines :: "string \<Rightarrow> string list" where
  "text_lines text = split_on (char_of (10 :: nat)) text"

fun key_texts ::
  "key_parser \<Rightarrow> nat \<Rightarrow> string list \<Rightarrow> (string, bool) gomap \<Rightarrow> keys_error + (string, bool) gomap" where
  "key_texts pk ti [] allowed = Inr allowed"
| "key_texts pk ti (text # rest) allowed =
     (case key_lines pk ti 1 (text_lines text) allowed of
        Inl e \<Rightarrow> Inl e
      | Inr allowed \<Rightarrow> key_texts pk (Suc ti) rest allowed)"

definition parsed_ssh_authorized_keys :: "key_parser \<Rightarrow> string list \<Rightarrow> keys_error + (string, bool) gomap" where
  "parsed_ssh_authorized_keys pk texts =
     (case key_texts pk 1 texts [] of
        Inl e \<Rightarrow> Inl e
      | Inr allowed \<Rightarrow> if allowed = [] then Inl NoKeys else Inr allowed)"

definition validate_ssh_authorized_keys :: "key_parser \<Rightarrow> string list \<Rightarrow> keys_error option" where
  "validate_ssh_authorized_keys pk texts =
     (case parsed_ssh_authorized_keys pk texts of Inl e \<Rightarrow> Some e | Inr m \<Rightarrow> None)"

text \<open>\<open>sshPublicKeyHandler\<close>: None for a nil handler; the handler takes the marshalled client key.\<close>

definition ssh_public_key_handler :: "key_parser \<Rightarrow> string list option \<Rightarrow> keys_error + (string \<Rightarrow> bool) option" where
  "ssh_public_key_handler pk texts =
     (case texts of
        None \<Rightarrow> Inr None
      | Some ts \<Rightarrow>
          (case parsed_ssh_authorized_keys pk ts of
             Inl e \<Rightarrow> Inl e
           | Inr allowed \<Rightarrow> Inr (Some (\<lambda>blob. mget allowed blob = Some True))))"

text \<open>A line that must be a key, and a key line that is accepted.\<close>

definition wants_key :: "string list \<Rightarrow> string \<Rightarrow> bool" where
  "wants_key texts l =
     list_ex (\<lambda>text. list_ex (\<lambda>line. key_line line = l \<and> \<not> skipped_line l) (text_lines text)) texts"

definition key_of_line :: "key_parser \<Rightarrow> string \<Rightarrow> string option" where
  "key_of_line pk l =
     (case pk l of Some (blob, [], tail) \<Rightarrow> if trim_space tail = [] then Some blob else None | _ \<Rightarrow> None)"

lemma key_lines_ok:
  "key_lines pk ti li lines allowed = Inr allowed' \<Longrightarrow>
     (\<forall>line \<in> set lines. \<not> skipped_line (key_line line) \<longrightarrow> key_of_line pk (key_line line) \<noteq> None)
     \<and> (\<forall>blob. mget allowed' blob = Some True \<longleftrightarrow>
           mget allowed blob = Some True
           \<or> (\<exists>line \<in> set lines. \<not> skipped_line (key_line line) \<and> key_of_line pk (key_line line) = Some blob))
     \<and> ((\<forall>(k, v) \<in> set allowed. v) \<longrightarrow> (\<forall>(k, v) \<in> set allowed'. v))"
proof (induction lines arbitrary: li allowed)
  case (Cons line rest)
  let ?l = "key_line line"
  show ?case
  proof (cases "skipped_line ?l")
    case True
    then show ?thesis using Cons.prems Cons.IH [of "Suc li" allowed] by (simp add: Let_def)
  next
    case False
    then obtain blob tail where pk: "pk ?l = Some (blob, [], tail)" "trim_space tail = []"
      and r: "key_lines pk ti (Suc li) rest (mset_key blob True allowed) = Inr allowed'"
      using Cons.prems by (auto simp: Let_def split: option.splits if_splits)
    have k: "key_of_line pk ?l = Some blob" using pk by (simp add: key_of_line_def)
    have "(\<forall>(k, v) \<in> set allowed. v) \<Longrightarrow> (\<forall>(k, v) \<in> set (mset_key blob True allowed). v)"
      using set_mset_key_cases [of _ _ blob True allowed] by fast
    then show ?thesis using Cons.IH [OF r] k False by auto
  qed
qed simp

lemma key_lines_bad:
  "key_lines pk ti li lines allowed = Inl e \<Longrightarrow>
     \<exists>line \<in> set lines. \<not> skipped_line (key_line line) \<and> key_of_line pk (key_line line) = None"
proof (induction lines arbitrary: li allowed)
  case (Cons line rest)
  let ?l = "key_line line"
  show ?case
  proof (cases "skipped_line ?l \<or> key_of_line pk ?l \<noteq> None")
    case True
    then obtain li' a where "key_lines pk ti li' rest a = Inl e"
    proof
      assume "skipped_line ?l"
      with Cons.prems that show thesis by (simp add: Let_def)
    next
      assume "key_of_line pk ?l \<noteq> None"
      then obtain blob tail where "pk ?l = Some (blob, [], tail)" "trim_space tail = []"
        by (auto simp: key_of_line_def split: option.splits list.splits if_splits)
      with Cons.prems that show thesis by (auto simp: Let_def split: if_splits)
    qed
    then show ?thesis using Cons.IH by auto
  qed auto
qed simp

lemma key_texts_ok:
  "key_texts pk ti texts allowed = Inr allowed' \<Longrightarrow>
     (\<forall>l. wants_key texts l \<longrightarrow> key_of_line pk l \<noteq> None)
     \<and> (\<forall>blob. mget allowed' blob = Some True \<longleftrightarrow>
           mget allowed blob = Some True \<or> (\<exists>l. wants_key texts l \<and> key_of_line pk l = Some blob))
     \<and> ((\<forall>(k, v) \<in> set allowed. v) \<longrightarrow> (\<forall>(k, v) \<in> set allowed'. v))"
proof (induction texts arbitrary: ti allowed)
  case (Cons body rest)
  obtain a where a: "key_lines pk ti 1 (text_lines body) allowed = Inr a"
    using Cons.prems by (auto split: sum.splits)
  have r: "key_texts pk (Suc ti) rest a = Inr allowed'" using Cons.prems a by simp
  have w: "wants_key (body # rest) l \<longleftrightarrow>
      (\<exists>line \<in> set (text_lines body). key_line line = l \<and> \<not> skipped_line l) \<or> wants_key rest l" for l
    by (auto simp: wants_key_def list_ex_iff)
  show ?case using key_lines_ok [OF a] Cons.IH [OF r] unfolding w by blast
qed (simp add: wants_key_def)

lemma key_texts_bad:
  "key_texts pk ti texts allowed = Inl e \<Longrightarrow> \<exists>l. wants_key texts l \<and> key_of_line pk l = None"
proof (induction texts arbitrary: ti allowed)
  case (Cons body rest)
  show ?case
  proof (cases "key_lines pk ti 1 (text_lines body) allowed")
    case (Inl e')
    then show ?thesis using key_lines_bad [OF Inl] by (auto simp: wants_key_def list_ex_iff)
  next
    case (Inr a)
    then show ?thesis using Cons by (auto simp: wants_key_def)
  qed
qed simp

text \<open>C34. SSH authentication is exact: the keys configured are usable exactly when every line that is not
  blank or a comment is one key without options and there is at least one; then a client key is
  accepted exactly when it is the key of such a line. Without configured keys no key is asked
  for.\<close>

theorem ssh_auth_exact:
  "((\<exists>f. ssh_public_key_handler pk (Some texts) = Inr (Some f)
            \<and> (\<forall>blob. f blob \<longleftrightarrow> (\<exists>l. wants_key texts l \<and> key_of_line pk l = Some blob))
            \<and> (\<exists>blob. f blob) \<and> (\<forall>l. wants_key texts l \<longrightarrow> key_of_line pk l \<noteq> None))
      \<or> (\<exists>e. ssh_public_key_handler pk (Some texts) = Inl e
            \<and> ((\<exists>l. wants_key texts l \<and> key_of_line pk l = None) \<or> (\<forall>l. \<not> wants_key texts l))))
    \<and> ssh_public_key_handler pk None = Inr None"
proof -
  have "(\<exists>f. ssh_public_key_handler pk (Some texts) = Inr (Some f)
            \<and> (\<forall>blob. f blob \<longleftrightarrow> (\<exists>l. wants_key texts l \<and> key_of_line pk l = Some blob))
            \<and> (\<exists>blob. f blob) \<and> (\<forall>l. wants_key texts l \<longrightarrow> key_of_line pk l \<noteq> None))
      \<or> (\<exists>e. ssh_public_key_handler pk (Some texts) = Inl e
            \<and> ((\<exists>l. wants_key texts l \<and> key_of_line pk l = None) \<or> (\<forall>l. \<not> wants_key texts l)))"
  proof (cases "key_texts pk 1 texts []")
    case (Inl e)
    then show ?thesis using key_texts_bad [OF Inl]
      by (auto simp: ssh_public_key_handler_def parsed_ssh_authorized_keys_def)
  next
    case (Inr allowed)
    note ok = key_texts_ok [OF Inr]
    show ?thesis
    proof (cases allowed)
      case Nil
      have "\<not> wants_key texts l" for l
      proof
        assume w: "wants_key texts l"
        with ok obtain blob where "key_of_line pk l = Some blob" by blast
        with ok w have "mget allowed blob = Some True" by blast
        with Nil show False by simp
      qed
      then show ?thesis using Inr Nil by (simp add: ssh_public_key_handler_def parsed_ssh_authorized_keys_def)
    next
      case (Cons kv rest)
      have m: "mget allowed (fst kv) = Some True" using ok Cons by (cases kv) auto
      have "ssh_public_key_handler pk (Some texts) = Inr (Some (\<lambda>blob. mget allowed blob = Some True))"
        using Inr Cons by (simp add: ssh_public_key_handler_def parsed_ssh_authorized_keys_def)
      moreover have "\<forall>blob. mget allowed blob = Some True \<longleftrightarrow> (\<exists>l. wants_key texts l \<and> key_of_line pk l = Some blob)"
        using ok by simp
      ultimately show ?thesis using ok m by blast
    qed
  qed
  then show ?thesis by (simp add: ssh_public_key_handler_def)
qed

definition sample_pk :: key_parser where
  "sample_pk l = (if prefix ''ssh-'' l then Some (l, [], []) else None)"

theorem ssh_auth_exact_witness:
  "\<exists>f. ssh_public_key_handler sample_pk (Some [''# admin'', ''ssh-rsa AAAA'']) = Inr (Some f)
     \<and> f ''ssh-rsa AAAA'' \<and> \<not> f ''ssh-rsa BBBB''"
proof -
  let ?ts = "[''# admin'', ''ssh-rsa AAAA'']"
  have l: "text_lines ''# admin'' = [''# admin'']" "text_lines ''ssh-rsa AAAA'' = [''ssh-rsa AAAA'']"
    by code_simp+
  have t: "key_line ''# admin'' = ''# admin''" "key_line ''ssh-rsa AAAA'' = ''ssh-rsa AAAA''"
    unfolding key_line_def by (rule trans [OF arg_cong [where f = trim_space]], code_simp, rule trim_space_id; code_simp)+
  have w: "wants_key ?ts x \<longleftrightarrow> x = ''ssh-rsa AAAA''" for x
    by (auto simp: wants_key_def l t skipped_line_def)
  have k: "key_of_line sample_pk ''ssh-rsa AAAA'' = Some ''ssh-rsa AAAA''" by code_simp
  obtain f where f: "ssh_public_key_handler sample_pk (Some ?ts) = Inr (Some f)"
    "\<forall>blob. f blob \<longleftrightarrow> (\<exists>l. wants_key ?ts l \<and> key_of_line sample_pk l = Some blob)"
    using ssh_auth_exact [of sample_pk ?ts] unfolding w using k by (metis option.distinct(1))
  have "f ''ssh-rsa AAAA''" "\<not> f ''ssh-rsa BBBB''" unfolding f(2) [rule_format] w by (simp_all add: k)
  then show ?thesis using f(1) by blast
qed

section \<open>Key sources of the command line\<close>

definition max_ssh_authorized_keys_size :: nat where "max_ssh_authorized_keys_size = 2 ^ 20"

definition github_username :: "string \<Rightarrow> bool" where
  "github_username s =
     (s \<noteq> [] \<and> length s \<le> 39 \<and> is_alnum (hd s) \<and> is_alnum (last s)
      \<and> list_all (\<lambda>c. is_alnum c \<or> c = CHR ''-'') s)"

text \<open>The first of \<open>strings.Fields\<close>.\<close>

fun field_len :: "string \<Rightarrow> nat" where
  "field_len [] = 0"
| "field_len (c # cs) = (if strip_one utf8_spaces (c # cs) \<noteq> None then 0 else Suc (field_len cs))"

definition first_field :: "string \<Rightarrow> string option" where
  "first_field s = (let t = trim_left s in if t = [] then None else Some (take (field_len t) t))"

definition looks_like_ssh_public_key :: "string \<Rightarrow> bool" where
  "looks_like_ssh_public_key source =
     (case first_field source of
        None \<Rightarrow> False
      | Some first \<Rightarrow> prefix ''ssh-'' first \<or> prefix ''ecdsa-'' first \<or> prefix ''sk-'' first)"

text \<open>Reading through an \<open>io.LimitReader\<close>: the content of a file or a response, if it could be read.\<close>

definition read_limited :: "string option \<Rightarrow> string option" where
  "read_limited content =
     (case content of
        None \<Rightarrow> None
      | Some s \<Rightarrow>
          let b = take (max_ssh_authorized_keys_size + 1) s
          in if length b > max_ssh_authorized_keys_size then None else Some b)"

definition read_ssh_authorized_keys_file :: "(string \<Rightarrow> string option option) \<Rightarrow> string \<Rightarrow> string option" where
  "read_ssh_authorized_keys_file open_file path =
     (case open_file path of None \<Rightarrow> None | Some content \<Rightarrow> read_limited content)"

definition path_escape_keep :: "char \<Rightarrow> bool" where
  "path_escape_keep c = (is_alnum c \<or> c \<in> set ''-_.~$&+=:@'')"

definition path_escape :: "string \<Rightarrow> string" where
  "path_escape s =
     concat (map (\<lambda>c. if path_escape_keep c then [c]
                      else [CHR ''%'', upper_hex ! (of_char c div 16), upper_hex ! (of_char c mod 16)]) s)"

text \<open>\<open>http_get\<close> is the response to a request: its status and body, or None if the request fails.\<close>

definition fetch_github_ssh_keys :: "(string \<Rightarrow> (nat \<times> string option) option) \<Rightarrow> string \<Rightarrow> string \<Rightarrow> string option" where
  "fetch_github_ssh_keys http_get base user =
     (case http_get (base @ path_escape user @ ''.keys'') of
        None \<Rightarrow> None
      | Some (status, body) \<Rightarrow> if status \<noteq> 200 then None else read_limited body)"

datatype source_error = SourceEmpty nat | BadGitHubUser nat | FetchFailed nat | InvalidPublicKey nat
  | ReadFailed nat | SourceInvalid nat keys_error | AllInvalid keys_error

definition load_source ::
  "key_parser \<Rightarrow> (string \<Rightarrow> string option option) \<Rightarrow> (string \<Rightarrow> (nat \<times> string option) option) \<Rightarrow> string \<Rightarrow> nat \<Rightarrow> string
     \<Rightarrow> source_error + string" where
  "load_source pk open_file http_get base i raw =
     (let source = trim_space raw;
          text = (if source = [] then Inl (SourceEmpty i)
                  else
                    (case cut_suffix source ''@github'' of
                       Some user \<Rightarrow>
                         if \<not> github_username user then Inl (BadGitHubUser i)
                         else (case fetch_github_ssh_keys http_get base user of
                                 None \<Rightarrow> Inl (FetchFailed i) | Some t \<Rightarrow> Inr t)
                     | None \<Rightarrow>
                         (case read_ssh_authorized_keys_file open_file source of
                            Some t \<Rightarrow> Inr t
                          | None \<Rightarrow>
                              if validate_ssh_authorized_keys pk [source] = None then Inr source
                              else if looks_like_ssh_public_key source then Inl (InvalidPublicKey i)
                              else Inl (ReadFailed i))))
      in (case text of
            Inl e \<Rightarrow> Inl e
          | Inr t \<Rightarrow>
              (case validate_ssh_authorized_keys pk [t] of
                 Some e \<Rightarrow> Inl (SourceInvalid i e)
               | None \<Rightarrow> Inr t)))"

fun load_sources where
  "load_sources pk open_file http_get base i [] texts = Inr texts"
| "load_sources pk open_file http_get base i (s # ss) texts =
     (case load_source pk open_file http_get base i s of
        Inl e \<Rightarrow> Inl e
      | Inr t \<Rightarrow> load_sources pk open_file http_get base (Suc i) ss (texts @ [t]))"

definition load_ssh_authorized_keys_from ::
  "key_parser \<Rightarrow> (string \<Rightarrow> string option option) \<Rightarrow> (string \<Rightarrow> (nat \<times> string option) option) \<Rightarrow> string \<Rightarrow> string
     \<Rightarrow> source_error + string list" where
  "load_ssh_authorized_keys_from pk open_file http_get base source_list =
     (case load_sources pk open_file http_get base 1 (split_on CHR '','' source_list) [] of
        Inl e \<Rightarrow> Inl e
      | Inr texts \<Rightarrow>
          (case validate_ssh_authorized_keys pk texts of
             Some e \<Rightarrow> Inl (AllInvalid e)
           | None \<Rightarrow> Inr texts))"

definition load_ssh_authorized_keys where
  "load_ssh_authorized_keys pk open_file http_get source_list =
     load_ssh_authorized_keys_from pk open_file http_get ''https://github.com/'' source_list"

text \<open>A list that loads gives a handler that asks for a key.\<close>

lemma loaded_keys_authenticate:
  assumes "load_ssh_authorized_keys_from pk open_file http_get base sources = Inr texts"
  shows "\<exists>f. ssh_public_key_handler pk (Some texts) = Inr (Some f)"
  using assms
  by (auto simp: load_ssh_authorized_keys_from_def validate_ssh_authorized_keys_def ssh_public_key_handler_def
      split: sum.splits option.splits)

section \<open>What a server offers\<close>

record ssh_options =
  so_shell :: bool
  so_exec :: "string list"
  so_keys :: "string list option"
  so_files :: "file_service option"

datatype sftp_kind = RootedSftp file_service | FullSftp

text \<open>\<open>sftpSubsystemHandler\<close>: which server a session gets, if the subsystem is registered.\<close>

definition sftp_subsystem_handler :: "ssh_options \<Rightarrow> sftp_kind option" where
  "sftp_subsystem_handler opts =
     (if so_files opts = None \<and> \<not> so_shell opts then None
      else Some (case so_files opts of Some f \<Rightarrow> RootedSftp f | None \<Rightarrow> FullSftp))"

text \<open>What the handler of the subsystem does to the session: \<open>ready\<close> is whether the server could be
  made, \<open>err\<close> the error of \<open>Serve\<close> (and whether it is \<open>io.EOF\<close>).\<close>

datatype sess_action = ExitStatus int | CloseServer | CloseRoot

definition sftp_session :: "sftp_kind \<Rightarrow> bool \<Rightarrow> bool option \<Rightarrow> sess_action list" where
  "sftp_session kind ready err =
     (if \<not> ready then [ExitStatus 1]
      else
        (let err = (if err = Some True then None else err)
         in [ExitStatus (if err \<noteq> None then 1 else 0), CloseServer]
            @ (case kind of RootedSftp f \<Rightarrow> [CloseRoot] | FullSftp \<Rightarrow> [])))"

datatype session_kind = ShellSessions | ExecSessions "string list" | NoSessions

record ssh_config =
  sc_sessions :: session_kind
  sc_auth :: "(string \<Rightarrow> bool) option"
  sc_sftp :: "sftp_kind option"
  sc_host_keys :: "bytes list"

text \<open>\<open>SSHConnHandler\<close>: None closes the connection; otherwise it is served with a configuration, where
  no authentication handler means that no authentication is asked for.\<close>

definition ssh_conn_handler :: "key_parser \<Rightarrow> bytes list option \<Rightarrow> ssh_options \<Rightarrow> ssh_config option" where
  "ssh_conn_handler pk host_keys opts0 =
     (let auth = ssh_public_key_handler pk (so_keys opts0);
          opts = (if so_exec opts0 \<noteq> [] then opts0\<lparr>so_shell := False, so_files := None\<rparr> else opts0)
      in (case auth of
            Inl e \<Rightarrow> None
          | Inr h \<Rightarrow>
              (case host_keys of
                 None \<Rightarrow> None
               | Some keys \<Rightarrow>
                   Some \<lparr>sc_sessions = (if so_exec opts \<noteq> [] then ExecSessions (so_exec opts)
                                        else if \<not> so_shell opts then NoSessions else ShellSessions),
                         sc_auth = h, sc_sftp = sftp_subsystem_handler opts, sc_host_keys = keys\<rparr>)))"

definition handle_tailscale_ssh_conn :: "key_parser \<Rightarrow> bytes list option \<Rightarrow> ssh_config option" where
  "handle_tailscale_ssh_conn pk host_keys =
     ssh_conn_handler pk host_keys \<lparr>so_shell = True, so_exec = [], so_keys = None, so_files = None\<rparr>"

text \<open>A server offers what its options say and nothing more: a forced command excludes shells,
  client commands and SFTP; a file service alone offers no sessions; a shell's SFTP is unrooted
  only without a file service; and a connection is served only if the host key could be loaded and the
  configured keys are valid, asking for a key exactly when keys are configured.\<close>

theorem ssh_offers:
  assumes "ssh_conn_handler pk host_keys opts = Some cfg"
  shows "(sc_auth cfg = None \<longleftrightarrow> so_keys opts = None) \<and> host_keys = Some (sc_host_keys cfg)
    \<and> (so_exec opts \<noteq> [] \<longrightarrow> sc_sessions cfg = ExecSessions (so_exec opts) \<and> sc_sftp cfg = None)
    \<and> (so_exec opts = [] \<longrightarrow> (sc_sessions cfg = ShellSessions \<longleftrightarrow> so_shell opts)
         \<and> (sc_sftp cfg = Some FullSftp \<longleftrightarrow> so_shell opts \<and> so_files opts = None)
         \<and> (\<forall>f. sc_sftp cfg = Some (RootedSftp f) \<longleftrightarrow> so_files opts = Some f))"
  using assms
  by (auto simp: ssh_conn_handler_def ssh_public_key_handler_def sftp_subsystem_handler_def Let_def
      split: sum.splits option.splits if_splits)

theorem ssh_offers_witness:
  "\<exists>cfg. ssh_conn_handler sample_pk (Some [[1]]) \<lparr>so_shell = True, so_exec = [''/bin/date''], so_keys = None, so_files = None\<rparr> = Some cfg
     \<and> sc_sessions cfg = ExecSessions [''/bin/date''] \<and> sc_sftp cfg = None"
proof -
  obtain cfg where c: "ssh_conn_handler sample_pk (Some [[1]])
      \<lparr>so_shell = True, so_exec = [''/bin/date''], so_keys = None, so_files = None\<rparr> = Some cfg"
    by (simp add: ssh_conn_handler_def ssh_public_key_handler_def Let_def)
  from ssh_offers [OF c] c show ?thesis by simp
qed

section \<open>Sessions\<close>

definition accept_env_pair :: "string \<Rightarrow> bool" where
  "accept_env_pair kv =
     (case cut CHR ''='' kv of
        None \<Rightarrow> False
      | Some (k, v) \<Rightarrow> k = ''TERM'' \<or> k = ''LANG'' \<or> prefix ''LC_'' k)"

definition node_string :: "key32 \<Rightarrow> string" where
  "node_string k = ''nodekey:'' @ hex_encode k"

text \<open>A \<open>net.Addr\<close>: its text and, for a TCP address, the address and port.\<close>

record net_addr =
  na_text :: string
  na_tcp :: "addrport option"

definition peer_env :: "backend \<Rightarrow> net_addr \<Rightarrow> net_addr \<Rightarrow> string list" where
  "peer_env b local remote =
     [''TAILCAT_REMOTE_ADDR='' @ na_text remote, ''TAILCAT_LOCAL_ADDR='' @ na_text local]
     @ (case na_tcp remote of
          None \<Rightarrow> []
        | Some ap \<Rightarrow>
            (case peer_by_ip b (unmap (fst ap)) of
               None \<Rightarrow> []
             | Some k \<Rightarrow> [''TAILCAT_PEER_KEY='' @ node_string k]))"

definition peer_key_for_session :: "backend \<Rightarrow> net_addr \<Rightarrow> key32 option" where
  "peer_key_for_session b remote =
     (case na_tcp remote of None \<Rightarrow> None | Some ap \<Rightarrow> peer_by_ip b (unmap (fst ap)))"

record user =
  u_username :: string
  u_home :: string
  u_uid :: string

record command =
  cm_args :: "string list"
  cm_dir :: string
  cm_env :: "string list"

definition default_path :: "user \<Rightarrow> string" where
  "default_path u =
     (if u_uid u = ''0'' then ''/usr/local/sbin:/usr/local/bin:/usr/sbin:/usr/bin:/sbin:/bin''
      else ''/usr/local/bin:/usr/bin:/bin'')"

text \<open>\<open>loginShell\<close>: \<open>dscl\<close> is the output of the directory service on macOS, if it answers.\<close>

definition login_shell :: "bool \<Rightarrow> string option \<Rightarrow> string \<Rightarrow> string" where
  "login_shell darwin dscl shell_var =
     (case (if darwin then (case dscl of None \<Rightarrow> None | Some out \<Rightarrow> cut_prefix out ''UserShell: '') else None) of
        Some s \<Rightarrow> trim_space s
      | None \<Rightarrow> if shell_var \<noteq> [] then shell_var else ''/bin/sh'')"

definition new_session_command :: "string \<Rightarrow> user \<Rightarrow> string \<Rightarrow> command" where
  "new_session_command shell u raw_cmd =
     \<lparr>cm_args = (if raw_cmd = [] then [shell, ''-l''] else [shell, ''-c'', raw_cmd]),
      cm_dir = u_home u,
      cm_env = [''SHELL='' @ shell, ''USER='' @ u_username u, ''HOME='' @ u_home u, ''PATH='' @ default_path u]\<rparr>"

text \<open>What a session asks for: its command, its environment, its peer and its terminal (whose type may
  be empty).\<close>

record session =
  ss_raw_command :: string
  ss_environ :: "string list"
  ss_local :: net_addr
  ss_remote :: net_addr
  ss_pty :: "string option"

definition pty_env :: "session \<Rightarrow> string list" where
  "pty_env s = (case ss_pty s of Some term \<Rightarrow> if term \<noteq> [] then [''TERM='' @ term] else [] | None \<Rightarrow> [])"

text \<open>\<open>sessionHandler\<close>, given the command \<open>newSessionCommand\<close> returns: the command that is run and
  whether the greeting is shown. \<open>runWithPTY\<close> adds the type of the terminal.\<close>

definition session_handler :: "backend \<Rightarrow> command \<Rightarrow> session \<Rightarrow> command \<times> bool" where
  "session_handler b cmd s =
     (let env = cm_env cmd @ filter accept_env_pair (ss_environ s);
          env = (case peer_key_for_session b (ss_remote s) of
                   None \<Rightarrow> env | Some k \<Rightarrow> env @ [''TAILCAT_PEER_KEY='' @ node_string k])
      in (cmd\<lparr>cm_env := env @ pty_env s\<rparr>, ss_pty s \<noteq> None \<and> ss_raw_command s = []))"

definition exec_session_handler :: "backend \<Rightarrow> string list \<Rightarrow> string list \<Rightarrow> session \<Rightarrow> command" where
  "exec_session_handler b argv environ s =
     \<lparr>cm_args = argv, cm_dir = [],
      cm_env = environ @ peer_env b (ss_local s) (ss_remote s) @ filter accept_env_pair (ss_environ s)
        @ (if ss_raw_command s \<noteq> [] then [''SSH_ORIGINAL_COMMAND='' @ ss_raw_command s] else []) @ pty_env s\<rparr>"

definition exec_conn_handler :: "backend \<Rightarrow> string list \<Rightarrow> string list \<Rightarrow> net_addr \<Rightarrow> net_addr \<Rightarrow> command" where
  "exec_conn_handler b argv environ local remote =
     \<lparr>cm_args = argv, cm_dir = [], cm_env = environ @ peer_env b local remote\<rparr>"

text \<open>The value a process sees: the last one of its name.\<close>

definition env_get :: "string list \<Rightarrow> string \<Rightarrow> string option" where
  "env_get env k = foldl (\<lambda>r kv. case cut CHR ''='' kv of Some (k', v) \<Rightarrow> if k' = k then Some v else r | None \<Rightarrow> r) None env"

lemma env_get_append: "env_get (xs @ ys) k = (case env_get ys k of Some v \<Rightarrow> Some v | None \<Rightarrow> env_get xs k)"
proof (induction ys rule: rev_induct)
  case Nil
  then show ?case by (simp add: env_get_def)
next
  case (snoc y ys)
  have s: "env_get (zs @ [y]) k = (case cut CHR ''='' y of Some (k', v) \<Rightarrow> if k' = k then Some v else env_get zs k | None \<Rightarrow> env_get zs k)" for zs
    unfolding env_get_def by simp
  show ?case using snoc s [of "xs @ ys"] s [of ys] by (auto split: option.splits)
qed

lemma env_get_Nil [simp]: "env_get [] k = None"
  by (simp add: env_get_def)

lemma env_get_single: "CHR ''='' \<notin> set n \<Longrightarrow> env_get [n @ CHR ''='' # v] k = (if n = k then Some v else None)"
proof -
  assume "CHR ''='' \<notin> set n"
  then have "cut CHR ''='' (n @ CHR ''='' # v) = Some (n, v)" by (simp add: cut_Some_iff)
  then show ?thesis by (simp add: env_get_def)
qed

lemma env_get_none: "\<forall>kv \<in> set env. \<forall>v. cut CHR ''='' kv \<noteq> Some (k, v) \<Longrightarrow> env_get env k = None"
  by (induction env rule: rev_induct) (auto simp: env_get_def split: option.splits)

text \<open>The names a client may set.\<close>

definition client_name :: "string \<Rightarrow> bool" where
  "client_name k = (k = ''TERM'' \<or> k = ''LANG'' \<or> prefix ''LC_'' k)"

lemma env_get_accepted: "\<not> client_name k \<Longrightarrow> env_get (filter accept_env_pair env) k = None"
  by (rule env_get_none) (auto simp: accept_env_pair_def client_name_def)

lemma env_get_pty: "k \<noteq> ''TERM'' \<Longrightarrow> env_get (pty_env s) k = None"
  using env_get_single [of "''TERM''"] by (auto simp: pty_env_def split: option.splits)

text \<open>A client controls no variable but its terminal and locale: in a shell session and in a forced
  command every other variable is what the server gives it, whatever environment and terminal
  the client sends (a forced command sees its request in one more variable), and a peer the tunnel
  knows is named by the key of its address.\<close>

theorem session_env_guarded:
  assumes "\<not> client_name k"
  shows "env_get (cm_env (fst (session_handler b cmd s))) k =
      (if k = ''TAILCAT_PEER_KEY'' \<and> peer_key_for_session b (ss_remote s) \<noteq> None
       then map_option node_string (peer_key_for_session b (ss_remote s)) else env_get (cm_env cmd) k)
    \<and> env_get (cm_env (exec_session_handler b argv environ s)) k =
      (if k = ''SSH_ORIGINAL_COMMAND'' \<and> ss_raw_command s \<noteq> [] then Some (ss_raw_command s)
       else env_get (cm_env (exec_conn_handler b argv environ (ss_local s) (ss_remote s))) k)"
proof -
  have t: "k \<noteq> ''TERM''" using assms by (simp add: client_name_def)
  have p: "env_get [''TAILCAT_PEER_KEY='' @ v] k = (if k = ''TAILCAT_PEER_KEY'' then Some v else None)" for v
    using env_get_single [of "''TAILCAT_PEER_KEY''" v k] by (simp add: eq_commute)
  have c: "env_get [''SSH_ORIGINAL_COMMAND='' @ v] k = (if k = ''SSH_ORIGINAL_COMMAND'' then Some v else None)" for v
    using env_get_single [of "''SSH_ORIGINAL_COMMAND''" v k] by (simp add: eq_commute)
  have "env_get (cm_env (fst (session_handler b cmd s))) k =
      (if k = ''TAILCAT_PEER_KEY'' \<and> peer_key_for_session b (ss_remote s) \<noteq> None
       then map_option node_string (peer_key_for_session b (ss_remote s)) else env_get (cm_env cmd) k)"
  proof (cases "peer_key_for_session b (ss_remote s)")
    case None
    then show ?thesis
      by (simp add: session_handler_def Let_def env_get_append env_get_accepted [OF assms] env_get_pty [OF t])
  next
    case (Some key)
    have "cm_env (fst (session_handler b cmd s))
        = (cm_env cmd @ filter accept_env_pair (ss_environ s)) @ [''TAILCAT_PEER_KEY='' @ node_string key] @ pty_env s"
      using Some by (simp add: session_handler_def Let_def)
    then show ?thesis using Some
      by (simp only: env_get_append env_get_accepted [OF assms] env_get_pty [OF t] p option.case) (simp split: option.splits)
  qed
  moreover have "env_get (cm_env (exec_session_handler b argv environ s)) k =
      (if k = ''SSH_ORIGINAL_COMMAND'' \<and> ss_raw_command s \<noteq> [] then Some (ss_raw_command s)
       else env_get (cm_env (exec_conn_handler b argv environ (ss_local s) (ss_remote s))) k)"
  proof -
    have "env_get (cm_env (exec_session_handler b argv environ s)) k =
        env_get ((environ @ peer_env b (ss_local s) (ss_remote s)) @ filter accept_env_pair (ss_environ s)
          @ (if ss_raw_command s \<noteq> [] then [''SSH_ORIGINAL_COMMAND='' @ ss_raw_command s] else []) @ pty_env s) k"
      by (simp add: exec_session_handler_def)
    also have "\<dots> = (case env_get (if ss_raw_command s \<noteq> [] then [''SSH_ORIGINAL_COMMAND='' @ ss_raw_command s] else []) k of
          Some v \<Rightarrow> Some v | None \<Rightarrow> env_get (environ @ peer_env b (ss_local s) (ss_remote s)) k)"
      by (simp only: env_get_append [of "environ @ peer_env b (ss_local s) (ss_remote s)"] env_get_append [of "filter accept_env_pair (ss_environ s)"]
          env_get_append [of "if ss_raw_command s \<noteq> [] then _ else _"] env_get_accepted [OF assms] env_get_pty [OF t] option.case)
         (simp split: option.splits)
    finally show ?thesis by (cases "ss_raw_command s = []") (simp_all only: c exec_conn_handler_def if_True if_False simp_thms
          env_get_Nil option.case command.simps split: if_splits)
  qed
  ultimately show ?thesis by blast
qed

definition sample_session :: session where
  "sample_session =
     \<lparr>ss_raw_command = ''ls'', ss_environ = [''PATH=/tmp'', ''LANG=C'', ''TAILCAT_PEER_KEY=forged''],
      ss_local = \<lparr>na_text = ''a:22'', na_tcp = None\<rparr>, ss_remote = \<lparr>na_text = ''b:1'', na_tcp = None\<rparr>, ss_pty = None\<rparr>"

theorem session_env_guarded_witness:
  "env_get (cm_env (fst (session_handler sample_server (new_session_command ''/bin/sh'' \<lparr>u_username = ''u'', u_home = ''/'', u_uid = ''0''\<rparr> ''ls'')
      sample_session))) ''TAILCAT_PEER_KEY'' = None"
proof -
  have n: "\<not> client_name ''TAILCAT_PEER_KEY''" by (simp add: client_name_def)
  have k: "peer_key_for_session sample_server (ss_remote sample_session) = None"
    by (simp add: peer_key_for_session_def sample_session_def)
  have "env_get (cm_env (new_session_command ''/bin/sh'' \<lparr>u_username = ''u'', u_home = ''/'', u_uid = ''0''\<rparr> ''ls''))
      ''TAILCAT_PEER_KEY'' = None"
    by code_simp
  then show ?thesis using session_env_guarded [OF n, of sample_server "new_session_command ''/bin/sh'' \<lparr>u_username = ''u'', u_home = ''/'', u_uid = ''0''\<rparr> ''ls''"
      sample_session "[]" "[]"] k by simp
qed

section \<open>Running commands\<close>

text \<open>\<open>exitCode\<close>: the error of \<open>Wait\<close> is an exit status or something else.\<close>

datatype wait_error = ExitError int | OtherWaitError

definition exit_code :: "wait_error \<Rightarrow> int" where
  "exit_code e = (case e of ExitError n \<Rightarrow> n | OtherWaitError \<Rightarrow> 1)"

text \<open>\<open>runWithPipes\<close>: whether each of its set-up calls succeeded and the error of \<open>Wait\<close>.\<close>

definition run_with_pipes :: "bool \<Rightarrow> bool \<Rightarrow> bool \<Rightarrow> bool \<Rightarrow> wait_error option \<Rightarrow> sess_action list" where
  "run_with_pipes stdin_ok stdout_ok stderr_ok start_ok wait =
     (if \<not> stdin_ok then [ExitStatus 1]
      else if \<not> stdout_ok then [ExitStatus 1]
      else if \<not> stderr_ok then [ExitStatus 1]
      else if \<not> start_ok then [ExitStatus 1]
      else (case wait of Some e \<Rightarrow> [ExitStatus (exit_code e)] | None \<Rightarrow> [ExitStatus 0]))"

text \<open>\<open>runConnCommand\<close>: the number of times the connection is closed and whether the error is nil,
  or None while the draining close still waits. The connection is half-closed at the end of the
  command's output if it can be.\<close>

definition run_conn_command ::
  "bool \<Rightarrow> bool \<Rightarrow> bool \<Rightarrow> bool \<Rightarrow> wait_error option \<Rightarrow> bool \<Rightarrow> (ep_state \<times> wake) list \<Rightarrow> (conn_op list \<times> bool) option" where
  "run_conn_command stdin_ok stdout_ok start_ok half wait gonet rounds =
     (if \<not> stdin_ok then Some ([CloseConn A], False)
      else if \<not> stdout_ok then Some ([CloseConn A], False)
      else if \<not> start_ok then Some ([CloseConn A], False)
      else
        (case close_proxy_conn_timeout gonet rounds of
           None \<Rightarrow> None
         | Some (n, late) \<Rightarrow>
             Some ((if half then [CloseWrite A] else []) @ replicate n (CloseConn A), wait = None)))"

text \<open>However the command ends, the connection is closed exactly once, and last.\<close>

lemma run_conn_command_closes:
  assumes "run_conn_command stdin_ok stdout_ok start_ok half wait gonet rounds = Some (ops, ok)"
  shows "last ops = CloseConn A \<and> count_list ops (CloseConn A) = 1 \<and> (ok \<longrightarrow> wait = None)"
  using assms
  by (auto simp: run_conn_command_def close_proxy_conn_timeout_def dest!: close_loop_once split: if_splits option.splits)

text \<open>\<open>hostKeyFileOrCreate\<close>: the key file (or why it could not be read), the outcomes of generating,
  marshalling and writing, and the file afterwards.\<close>

datatype key_file = KeyFile bytes | NoKeyFile | Unreadable

definition host_key_file_or_create :: "bytes option \<Rightarrow> bool \<Rightarrow> key_file \<Rightarrow> key_file \<times> bytes option" where
  "host_key_file_or_create generated write_ok file =
     (case file of
        KeyFile v \<Rightarrow> (file, Some v)
      | Unreadable \<Rightarrow> (file, None)
      | NoKeyFile \<Rightarrow>
          (case generated of
             None \<Rightarrow> (file, None)
           | Some pem \<Rightarrow> if write_ok then (KeyFile pem, Some pem) else (file, None)))"

definition get_host_keys :: "(bytes \<Rightarrow> bytes option) \<Rightarrow> bool \<Rightarrow> bytes option \<Rightarrow> bool \<Rightarrow> key_file \<Rightarrow> key_file \<times> bytes list option" where
  "get_host_keys parse_private_key dir_ok generated write_ok file =
     (if \<not> dir_ok then (file, None)
      else
        (case host_key_file_or_create generated write_ok file of
           (file, None) \<Rightarrow> (file, None)
         | (file, Some pem) \<Rightarrow>
             (case parse_private_key pem of None \<Rightarrow> (file, None) | Some signer \<Rightarrow> (file, Some [signer]))))"

text \<open>The host key is generated once: every later call, whatever it would generate, returns the same.\<close>

lemma host_key_stable:
  "host_key_file_or_create g w file = (file', Some k) \<Longrightarrow> host_key_file_or_create g' w' file' = (file', Some k)"
  by (auto simp: host_key_file_or_create_def split: key_file.splits option.splits if_splits)

end
