(* ===== verification/Windows.thy ===== *)
theory Windows
  imports Ssh
begin

text \<open>
  SSH sessions on Windows (\<open>tailcat_ssh_windows.go\<close>): the shell, the environment block of a new
  process, and the pseudoconsole with the handles it owns. What the system calls answer is a
  parameter; a handle is open from the call that returned it to the call that closes it.
\<close>

section \<open>The shell\<close>

text \<open>\<open>powerShellPath\<close>: \<open>default_shell\<close> is the registry's shell with the lower-cased base of its path;
  \<open>look\<close> is \<open>exec.LookPath\<close>.\<close>

definition power_shell_path ::
  "(string \<times> string) option \<Rightarrow> (string \<Rightarrow> string option) \<Rightarrow> string \<Rightarrow> string \<Rightarrow> string" where
  "power_shell_path default_shell look pwsh7 fallback =
     (let registered = (case default_shell of
            None \<Rightarrow> None
          | Some (shell, name) \<Rightarrow> if name = ''pwsh.exe'' \<or> name = ''powershell.exe'' then look shell else None)
      in (case registered of
            Some p \<Rightarrow> p
          | None \<Rightarrow>
              (case look ''pwsh.exe'' of
                 Some p \<Rightarrow> p
               | None \<Rightarrow>
                   (case look pwsh7 of
                      Some p \<Rightarrow> p
                    | None \<Rightarrow> (case look ''powershell.exe'' of Some p \<Rightarrow> p | None \<Rightarrow> fallback)))))"

definition windows_session_command :: "string \<Rightarrow> user \<Rightarrow> string list \<Rightarrow> string \<Rightarrow> command" where
  "windows_session_command shell u environ raw_cmd =
     \<lparr>cm_args = (if raw_cmd = [] then [shell, ''-NoLogo''] else [shell, ''-Command'', raw_cmd]),
      cm_dir = u_home u, cm_env = environ\<rparr>"

section \<open>The environment block\<close>

text \<open>\<open>envBlock\<close>: \<open>upper\<close> is \<open>strings.ToUpper\<close> and \<open>utf16\<close> the NUL-terminated conversion, which fails on
  an embedded NUL. The map from names to positions and the list are one association list.\<close>

definition env_entries :: "(string \<Rightarrow> string) \<Rightarrow> string list \<Rightarrow> (string, string) gomap" where
  "env_entries upper env =
     foldl (\<lambda>m kv. case cut CHR ''='' kv of None \<Rightarrow> m | Some (k, v) \<Rightarrow> mset_key (upper k) kv m) [] env"

definition env_block :: "(string \<Rightarrow> string) \<Rightarrow> (string \<Rightarrow> u16 list option) \<Rightarrow> string list \<Rightarrow> u16 list option" where
  "env_block upper utf16 env =
     (case those (map (\<lambda>(u, kv). utf16 kv) (env_entries upper env)) of
        None \<Rightarrow> None
      | Some us \<Rightarrow> Some (concat us @ [0]))"

definition env_name :: "(string \<Rightarrow> string) \<Rightarrow> string \<Rightarrow> string option" where
  "env_name upper kv = map_option (\<lambda>(k, v). upper k) (cut CHR ''='' kv)"

lemma env_entries_snoc:
  "env_entries upper (env @ [kv]) =
     (case env_name upper kv of None \<Rightarrow> env_entries upper env | Some u \<Rightarrow> mset_key u kv (env_entries upper env))"
  by (auto simp: env_entries_def env_name_def split: option.splits)

text \<open>The environment of a Windows process has one entry per name up to case, namely the last one
  that was given; entries without an equals sign are dropped.\<close>

theorem env_block_last_wins:
  "map_ok (env_entries upper env)
    \<and> (\<forall>u kv. mget (env_entries upper env) u = Some kv \<longleftrightarrow>
         (\<exists>before after. env = before @ kv # after \<and> env_name upper kv = Some u
            \<and> (\<forall>kv' \<in> set after. env_name upper kv' \<noteq> Some u)))"
proof (induction env rule: rev_induct)
  case Nil
  then show ?case by (simp add: env_entries_def)
next
  case (snoc x env)
  have split: "(\<exists>before after. env @ [x] = before @ kv # after \<and> P kv \<and> (\<forall>y \<in> set after. \<not> P y)) \<longleftrightarrow>
      (if P x then kv = x else \<exists>before after. env = before @ kv # after \<and> P kv \<and> (\<forall>y \<in> set after. \<not> P y))"
    (is "?L \<longleftrightarrow> ?R") for P kv
  proof
    assume ?L
    then obtain before after where b: "env @ [x] = before @ kv # after" "P kv" "\<forall>y \<in> set after. \<not> P y" by blast
    show ?R
    proof (cases after rule: rev_exhaust)
      case Nil
      then show ?thesis using b by auto
    next
      case (snoc as y)
      then have "y = x" "env = before @ kv # as" using b(1) by auto
      then show ?thesis using b snoc by auto
    qed
  next
    assume r: ?R
    show ?L
    proof (cases "P x")
      case True
      then show ?thesis using r by (intro exI [of _ env] exI [of _ "[]"]) simp
    next
      case False
      then obtain before after where b: "env = before @ kv # after" "P kv" "\<forall>y \<in> set after. \<not> P y" using r by auto
      then show ?thesis using False by (intro exI [of _ before] exI [of _ "after @ [x]"]) simp
    qed
  qed
  have "mget (env_entries upper (env @ [x])) u = Some kv \<longleftrightarrow>
      (if env_name upper x = Some u then kv = x else mget (env_entries upper env) u = Some kv)" for u kv
    by (auto simp: env_entries_snoc split: option.splits)
  moreover have "map_ok (env_entries upper (env @ [x]))"
    using snoc by (auto simp: env_entries_snoc split: option.splits)
  ultimately show ?case using snoc split [of _ "\<lambda>y. env_name upper y = Some _"] by simp
qed

theorem env_block_last_wins_witness:
  "mget (env_entries (\<lambda>s. s) [''LANG=C'', ''=C:=C:/a'', ''=D:=D:/b'', ''LANG=de'', ''bad'']) ''LANG'' = Some ''LANG=de''
   \<and> length (env_entries (\<lambda>s. s) [''=C:=C:/a'', ''=D:=D:/b'']) = 1"
proof -
  let ?env = "[''LANG=C'', ''=C:=C:/a'', ''=D:=D:/b'', ''LANG=de'', ''bad'']"
  have "\<exists>before after. ?env = before @ ''LANG=de'' # after \<and> env_name (\<lambda>s. s) ''LANG=de'' = Some ''LANG''
      \<and> (\<forall>kv' \<in> set after. env_name (\<lambda>s. s) kv' \<noteq> Some ''LANG'')"
    by (intro exI [of _ "[''LANG=C'', ''=C:=C:/a'', ''=D:=D:/b'']"] exI [of _ "[''bad'']"]) (simp add: env_name_def)
  then have "mget (env_entries (\<lambda>s. s) ?env) ''LANG'' = Some ''LANG=de''"
    using env_block_last_wins [of "\<lambda>s. s" ?env] by blast
  moreover have "length (env_entries (\<lambda>s. s) [''=C:=C:/a'', ''=D:=D:/b'']) = 1"
    by (simp add: env_entries_def mset_key_def)
  ultimately show ?thesis by blast
qed

section \<open>The pseudoconsole\<close>

datatype handle = InRead | InWrite | OutRead | OutWrite | Console | Attrs | Process | Thread

text \<open>The outcomes of the calls \<open>startConPTY\<close> makes, in their order.\<close>

record pty_calls =
  pc_in_pipe :: bool
  pc_out_pipe :: bool
  pc_console :: bool
  pc_attrs :: bool
  pc_update :: bool
  pc_cmd_line :: bool
  pc_dir :: bool
  pc_env :: bool
  pc_process :: bool

definition closing :: "handle list \<Rightarrow> handle list \<Rightarrow> handle list" where
  "closing cs hs = filter (\<lambda>h. h \<notin> set cs) hs"

definition pty_dimensions :: "int \<Rightarrow> int \<Rightarrow> 16 word \<times> 16 word" where
  "pty_dimensions width height =
     (word_of_int (if width \<le> 0 then 80 else width), word_of_int (if height \<le> 0 then 24 else height))"

text \<open>\<open>startConPTY\<close>: the handles left open, and on success the size of the console.\<close>

definition start_con_pty :: "pty_calls \<Rightarrow> string \<Rightarrow> int \<Rightarrow> int \<Rightarrow> handle list \<times> (16 word \<times> 16 word) option" where
  "start_con_pty pc dir width height =
     (if \<not> pc_in_pipe pc then ([], None)
      else
        let hs = [InRead, InWrite]
        in if \<not> pc_out_pipe pc then (closing [InRead, InWrite] hs, None)
           else
             let hs = hs @ [OutRead, OutWrite];
                 hs = (if pc_console pc then hs @ [Console] else hs);
                 hs = closing [InRead, OutWrite] hs
             in if \<not> pc_console pc then (closing [InWrite, OutRead] hs, None)
                else
                  let cleanup = closing [Console, InWrite, OutRead]
                  in if \<not> pc_attrs pc then (cleanup hs, None)
                     else
                       let hs = hs @ [Attrs]
                       in if \<not> pc_update pc then (closing [Attrs] (cleanup hs), None)
                          else if \<not> pc_cmd_line pc then (closing [Attrs] (cleanup hs), None)
                          else if dir \<noteq> [] \<and> \<not> pc_dir pc then (closing [Attrs] (cleanup hs), None)
                          else if \<not> pc_env pc then (closing [Attrs] (cleanup hs), None)
                          else if \<not> pc_process pc then (closing [Attrs] (cleanup hs), None)
                          else (closing [Attrs] (closing [Thread] (hs @ [Process, Thread])), Some (pty_dimensions width height)))"

text \<open>A running pseudoconsole: \<open>cp_closes\<close> counts the calls that close the console itself, and
  \<open>cp_resizes\<close> are the sizes it was given.\<close>

record con_pty =
  cp_open :: "handle list"
  cp_closed :: bool
  cp_closes :: nat
  cp_resizes :: "(16 word \<times> 16 word) list"

definition con_pty_of :: "handle list \<Rightarrow> con_pty" where
  "con_pty_of hs = \<lparr>cp_open = hs, cp_closed = False, cp_closes = 0, cp_resizes = []\<rparr>"

definition con_resize :: "int \<Rightarrow> int \<Rightarrow> con_pty \<Rightarrow> con_pty" where
  "con_resize width height c =
     (if cp_closed c then c else c\<lparr>cp_resizes := (word_of_int width, word_of_int height) # cp_resizes c\<rparr>)"

definition close_console :: "con_pty \<Rightarrow> con_pty" where
  "close_console c =
     (if \<not> cp_closed c then c\<lparr>cp_open := closing [Console] (cp_open c), cp_closes := Suc (cp_closes c), cp_closed := True\<rparr> else c)"

definition con_close :: "con_pty \<Rightarrow> con_pty" where
  "con_close c = (let c = close_console c in c\<lparr>cp_open := closing [InWrite, OutRead, Process] (cp_open c)\<rparr>)"

text \<open>What happens to a console between its start and its close.\<close>

datatype con_event = Resize int int | CloseConsole

fun con_step :: "con_event \<Rightarrow> con_pty \<Rightarrow> con_pty" where
  "con_step (Resize w h) c = con_resize w h c"
| "con_step CloseConsole c = close_console c"

definition con_run :: "con_event list \<Rightarrow> con_pty \<Rightarrow> con_pty" where
  "con_run es c = foldl (\<lambda>c e. con_step e c) c es"

text \<open>\<open>runWithPTY\<close>: without the API it falls back to pipes; otherwise the status it sends.\<close>

definition windows_run_with_pty ::
  "bool \<Rightarrow> pty_calls \<Rightarrow> string \<Rightarrow> int \<Rightarrow> int \<Rightarrow> u32 option \<Rightarrow> con_event list \<Rightarrow> sess_action list \<Rightarrow> sess_action list \<times> con_pty option" where
  "windows_run_with_pty available pc dir width height wait events pipes =
     (if \<not> available then (pipes, None)
      else
        (case start_con_pty pc dir width height of
           (hs, None) \<Rightarrow> ([ExitStatus 1], None)
         | (hs, Some dims) \<Rightarrow>
             let c = con_close (close_console (con_run events (con_pty_of hs)))
             in ([ExitStatus (case wait of None \<Rightarrow> 1 | Some code \<Rightarrow> uint code)], Some c)))"

lemma con_step_inv:
  "set (cp_open c) \<subseteq> {Console, InWrite, OutRead, Process} \<Longrightarrow> cp_closes c = (if cp_closed c then 1 else 0) \<Longrightarrow>
   (cp_closed c \<longrightarrow> Console \<notin> set (cp_open c)) \<Longrightarrow>
   set (cp_open (con_step e c)) \<subseteq> {Console, InWrite, OutRead, Process}
     \<and> cp_closes (con_step e c) = (if cp_closed (con_step e c) then 1 else 0)
     \<and> (cp_closed (con_step e c) \<longrightarrow> Console \<notin> set (cp_open (con_step e c)))"
  by (cases e) (auto simp: con_resize_def close_console_def closing_def)

lemma con_run_inv:
  "set hs \<subseteq> {Console, InWrite, OutRead, Process} \<Longrightarrow>
   set (cp_open (con_run es (con_pty_of hs))) \<subseteq> {Console, InWrite, OutRead, Process}
     \<and> cp_closes (con_run es (con_pty_of hs)) = (if cp_closed (con_run es (con_pty_of hs)) then 1 else 0)
     \<and> (cp_closed (con_run es (con_pty_of hs)) \<longrightarrow> Console \<notin> set (cp_open (con_run es (con_pty_of hs))))"
proof (induction es rule: rev_induct)
  case Nil
  then show ?case by (simp add: con_run_def con_pty_of_def)
next
  case (snoc e es)
  then show ?case using con_step_inv [of "con_run es (con_pty_of hs)" e] by (simp add: con_run_def)
qed



end
