(* ===== verification/CliAddr.thy ===== *)
theory CliAddr
  imports ClientSide
begin

text \<open>
  The command line's way from an argument to a connection (\<open>cmd/tailcat/tailcat.go\<close>): destination
  arguments that are addresses or DNS names, the SOCKS proxy's listen address, destinations and
  clients, the saved client key, and the ping mode. DNS, the file system and the dials are
  parameters; a \<open>log.Fatal\<close> is an error value.
\<close>

section \<open>Destination arguments\<close>

datatype dns_error = NameEmpty | NameLong | LabelEmpty | LabelLong | LabelHyphen | LabelChar char

definition label_char :: "char \<Rightarrow> bool" where
  "label_char c = (is_alnum c \<or> c = CHR ''-'')"

fun validate_labels :: "string list \<Rightarrow> dns_error option" where
  "validate_labels [] = None"
| "validate_labels (l # ls) =
     (if l = [] then Some LabelEmpty
      else if length l > 63 then Some LabelLong
      else if hd l = CHR ''-'' \<or> last l = CHR ''-'' then Some LabelHyphen
      else (case find (\<lambda>c. \<not> label_char c) l of
              Some c \<Rightarrow> Some (LabelChar c)
            | None \<Rightarrow> validate_labels ls))"

definition validate_dns_name :: "string \<Rightarrow> dns_error option" where
  "validate_dns_name name =
     (if name = [] then Some NameEmpty
      else if length name > 253 then Some NameLong
      else validate_labels (split_on CHR ''.'' name))"

text \<open>\<open>ParseAddr\<close> accepts.\<close>

definition is_addr :: "(bytes \<Rightarrow> wire_conn_info option) \<Rightarrow> string \<Rightarrow> bool" where
  "is_addr um s = (case parse_conn_addr um s of Inr ci \<Rightarrow> True | Inl e \<Rightarrow> False)"

datatype arg_error = NeitherForm | LooksLikeCredential | ContainsAddress | BadName dns_error | TxtFailed | NoTxt

datatype addr_arg = AddrArg string | DnsArg string

fun check_labels :: "(bytes \<Rightarrow> wire_conn_info option) \<Rightarrow> string list \<Rightarrow> arg_error option" where
  "check_labels um [] = None"
| "check_labels um (l # ls) =
     (if prefix ''tch3'' l \<and> length l > 20 then Some LooksLikeCredential
      else if is_addr um l then Some ContainsAddress
      else check_labels um ls)"

definition classify_tailcat_addr_arg :: "(bytes \<Rightarrow> wire_conn_info option) \<Rightarrow> string \<Rightarrow> arg_error + addr_arg" where
  "classify_tailcat_addr_arg um arg =
     (if is_addr um arg then Inr (AddrArg arg)
      else if \<not> contains_char CHR ''.'' arg then Inl NeitherForm
      else
        let name = trim_suffix arg ''.''
        in (case check_labels um (split_on CHR ''.'' name) of
              Some e \<Rightarrow> Inl e
            | None \<Rightarrow>
                (case validate_dns_name name of
                   Some e \<Rightarrow> Inl (BadName e)
                 | None \<Rightarrow> Inr (DnsArg arg))))"

text \<open>\<open>tailcatAddrArg\<close>: the names that were looked up, and the address or the fatal error.\<close>

definition tailcat_addr_arg ::
  "(bytes \<Rightarrow> wire_conn_info option) \<Rightarrow> (string \<Rightarrow> string list option) \<Rightarrow> string \<Rightarrow> string list \<times> (arg_error + string)" where
  "tailcat_addr_arg um lookup_txt arg =
     (case classify_tailcat_addr_arg um arg of
        Inl e \<Rightarrow> ([], Inl e)
      | Inr (AddrArg a) \<Rightarrow> ([], Inr a)
      | Inr (DnsArg name) \<Rightarrow>
          ([name],
           (case lookup_txt name of
              None \<Rightarrow> Inl TxtFailed
            | Some txts \<Rightarrow>
                (case find (\<lambda>t. prefix ''tailcat='' t) txts of
                   None \<Rightarrow> Inl NoTxt
                 | Some t \<Rightarrow> Inr (trim_space (drop (length ''tailcat='') t))))))"

lemma check_labels_None:
  "check_labels um ls = None \<longleftrightarrow> (\<forall>l \<in> set ls. \<not> (prefix ''tch3'' l \<and> length l > 20) \<and> \<not> is_addr um l)"
  by (induction ls) auto

definition hostname_label :: "string \<Rightarrow> bool" where
  "hostname_label l =
     (l \<noteq> [] \<and> length l \<le> 63 \<and> hd l \<noteq> CHR ''-'' \<and> last l \<noteq> CHR ''-'' \<and> list_all label_char l)"

lemma validate_labels_None: "validate_labels ls = None \<longleftrightarrow> list_all hostname_label ls"
  by (induction ls) (auto simp: hostname_label_def list_all_iff find_None_iff split: option.splits dest: find_SomeD)

text \<open>C33. A connection secret is never sent to a resolver: an argument is looked up in DNS exactly when it is not an
  address, contains a dot and, without a final dot, is a hostname of at most 253 bytes none of
  whose labels is an address or begins like one and is longer than twenty bytes; an argument that
  is an address is used as it is, without any lookup.\<close>

theorem dns_lookup_safe:
  "(fst (tailcat_addr_arg um lookup_txt arg) = [arg] \<longleftrightarrow>
       \<not> is_addr um arg \<and> CHR ''.'' \<in> set arg \<and> trim_suffix arg ''.'' \<noteq> [] \<and> length (trim_suffix arg ''.'') \<le> 253
       \<and> (\<forall>l \<in> set (split_on CHR ''.'' (trim_suffix arg ''.'')).
             hostname_label l \<and> \<not> is_addr um l \<and> \<not> (prefix ''tch3'' l \<and> length l > 20)))
   \<and> (fst (tailcat_addr_arg um lookup_txt arg) = [arg] \<or> fst (tailcat_addr_arg um lookup_txt arg) = [])
   \<and> (is_addr um arg \<longrightarrow> tailcat_addr_arg um lookup_txt arg = ([], Inr arg))"
proof -
  let ?n = "trim_suffix arg ''.''"
  have c: "classify_tailcat_addr_arg um arg = Inr (DnsArg x) \<longleftrightarrow>
      x = arg \<and> \<not> is_addr um arg \<and> CHR ''.'' \<in> set arg
      \<and> check_labels um (split_on CHR ''.'' ?n) = None \<and> validate_dns_name ?n = None" for x
    by (auto simp: classify_tailcat_addr_arg_def contains_char_def Let_def split: option.splits)
  have v: "validate_dns_name ?n = None \<longleftrightarrow> ?n \<noteq> [] \<and> length ?n \<le> 253 \<and> list_all hostname_label (split_on CHR ''.'' ?n)"
    by (simp add: validate_dns_name_def validate_labels_None)
  have q: "fst (tailcat_addr_arg um lookup_txt arg) =
      (if classify_tailcat_addr_arg um arg = Inr (DnsArg arg) then [arg] else [])"
    using c by (auto simp: tailcat_addr_arg_def split: sum.splits addr_arg.splits)
  have a: "is_addr um arg \<longrightarrow> tailcat_addr_arg um lookup_txt arg = ([], Inr arg)"
    by (simp add: tailcat_addr_arg_def classify_tailcat_addr_arg_def)
  show ?thesis unfolding q using a c [of arg] by (auto simp: v check_labels_None list_all_iff)
qed

theorem dns_lookup_safe_witness:
  "fst (tailcat_addr_arg (\<lambda>_. None) (\<lambda>_. None) ''tch3AAAAAAAAAAAAAAAAAAAAAAAA.'') = []
   \<and> fst (tailcat_addr_arg (\<lambda>_. None) (\<lambda>_. None) ''example.com.'') = [''example.com.'']"
proof -
  have s: "trim_suffix ''tch3AAAAAAAAAAAAAAAAAAAAAAAA.'' ''.'' = ''tch3AAAAAAAAAAAAAAAAAAAAAAAA''"
    "split_on CHR ''.'' ''tch3AAAAAAAAAAAAAAAAAAAAAAAA'' = [''tch3AAAAAAAAAAAAAAAAAAAAAAAA'']"
    "trim_suffix ''example.com.'' ''.'' = ''example.com''" "split_on CHR ''.'' ''example.com'' = [''example'', ''com'']"
    by code_simp+
  have n: "\<not> is_addr (\<lambda>_. None) x" for x
    by (auto simp: is_addr_def parse_conn_addr_def parse_wire_def split: option.splits)
  have h: "hostname_label ''example''" "hostname_label ''com''" by code_simp+
  have "fst (tailcat_addr_arg (\<lambda>_. None) (\<lambda>_. None) ''tch3AAAAAAAAAAAAAAAAAAAAAAAA.'') \<noteq> [''tch3AAAAAAAAAAAAAAAAAAAAAAAA.'']"
    using dns_lookup_safe [of "\<lambda>_. None" "\<lambda>_. None" "''tch3AAAAAAAAAAAAAAAAAAAAAAAA.''"] by (simp add: s)
  then have "fst (tailcat_addr_arg (\<lambda>_. None) (\<lambda>_. None) ''tch3AAAAAAAAAAAAAAAAAAAAAAAA.'') = []"
    using dns_lookup_safe [of "\<lambda>_. None" "\<lambda>_. None" "''tch3AAAAAAAAAAAAAAAAAAAAAAAA.''"] by blast
  moreover have "fst (tailcat_addr_arg (\<lambda>_. None) (\<lambda>_. None) ''example.com.'') = [''example.com.'']"
    using dns_lookup_safe [of "\<lambda>_. None" "\<lambda>_. None" "''example.com.''"] by (simp add: s n h)
  ultimately show ?thesis by blast
qed

section \<open>The SOCKS proxy\<close>

definition normalize_listen_addr_port :: "string \<Rightarrow> string" where
  "normalize_listen_addr_port s =
     (case split_host_port s of
        Some (host, port) \<Rightarrow> join_host_port host (if port = [] then ''0'' else port)
      | None \<Rightarrow>
          (case parse_uint 16 s of
             Some port \<Rightarrow> join_host_port ''127.0.0.1'' (itoa port)
           | None \<Rightarrow> s @ '':0''))"

text \<open>A bare port or a bare host without a colon gets the missing part; a bare IPv6 address does not
  become a listen address.\<close>

lemma normalize_listen_port: "p < 65536 \<Longrightarrow> split_host_port (normalize_listen_addr_port (itoa p)) = Some (''127.0.0.1'', itoa p)"
proof -
  assume p: "p < 65536"
  have no: "CHR '':'' \<notin> set (itoa p)" "CHR ''['' \<notin> set (itoa p)" "CHR '']'' \<notin> set (itoa p)"
    by (rule itoa_no_char, simp)+
  have b: "CHR '':'' \<notin> set (itoa p)" "bracket_free (itoa p)" using no unfolding bracket_free_def by blast+
  have "split_host_port (itoa p) = None"
    using b(1) by (simp add: split_host_port_def last_index_char_None_iff [THEN iffD2])
  moreover have "parse_uint 16 (itoa p) = Some p" using p by simp
  ultimately have "normalize_listen_addr_port (itoa p) = join_host_port ''127.0.0.1'' (itoa p)"
    by (simp add: normalize_listen_addr_port_def)
  moreover have "split_host_port (join_host_port ''127.0.0.1'' (itoa p)) = Some (''127.0.0.1'', itoa p)"
    using b by (intro split_join_host_port) (simp_all add: bracket_free_def)
  ultimately show ?thesis by simp
qed

lemma normalize_listen_ipv6: "split_host_port (normalize_listen_addr_port ''::1'') = None"
  by code_simp

record socks_target =
  st_to_server :: bool
  st_addr :: string
  st_port :: port
  st_dst :: addrport

definition zero_target :: socks_target where
  "zero_target = \<lparr>st_to_server = False, st_addr = [], st_port = 0, st_dst = (NoIP, 0)\<rparr>"

datatype socks_error = BadHostPort | BadPortNumber | LookupFailed | NoAddresses | NoFixedServer

text \<open>The choice among the addresses of a name: the first that is IPv4, else the first.\<close>

definition prefer4 :: "ipaddr list \<Rightarrow> ipaddr option" where
  "prefer4 ips =
     (case find (\<lambda>a. is4 (unmap a)) ips of Some a \<Rightarrow> Some a | None \<Rightarrow> (case ips of [] \<Rightarrow> None | a # as \<Rightarrow> Some a))"

definition classify_socks_addr ::
  "(bytes \<Rightarrow> wire_conn_info option) \<Rightarrow> (string \<Rightarrow> ipaddr list option) \<Rightarrow> string \<Rightarrow> socks_error + socks_target" where
  "classify_socks_addr um lookup addr =
     (case split_host_port addr of
        None \<Rightarrow> Inl BadHostPort
      | Some (host, port) \<Rightarrow>
          (case parse_uint 16 port of
             None \<Rightarrow> Inl BadPortNumber
           | Some n \<Rightarrow>
               if host = ''server.tailcat'' \<or> host = [] then
                 Inr (zero_target\<lparr>st_to_server := True, st_port := of_nat n\<rparr>)
               else if prefix ''tc'' host \<and> \<not> contains_char CHR ''.'' host \<and> is_addr um host then
                 Inr (zero_target\<lparr>st_addr := host, st_port := of_nat n\<rparr>)
               else
                 (case parse_addr host of
                    Some ip \<Rightarrow> Inr (zero_target\<lparr>st_dst := (unmap ip, of_nat n)\<rparr>)
                  | None \<Rightarrow>
                      (case lookup host of
                         None \<Rightarrow> Inl LookupFailed
                       | Some ips \<Rightarrow>
                           (case prefer4 ips of
                              None \<Rightarrow> Inl NoAddresses
                            | Some ip \<Rightarrow> Inr (zero_target\<lparr>st_dst := (unmap ip, of_nat n)\<rparr>))))))"

text \<open>What is dialled: on the client of an address or on the fixed one, a port of the server or a
  target through it.\<close>

datatype 'c socks_dial = DialPort bool 'c port | DialTarget bool 'c addrport

definition dial_socks_target ::
  "string \<Rightarrow> socks_target \<Rightarrow> 'c option \<Rightarrow> (string \<Rightarrow> 'c) \<Rightarrow> socks_error + 'c socks_dial" where
  "dial_socks_target network dst cl client_for_addr =
     (let udp = (network = ''udp'')
      in if st_addr dst \<noteq> [] then Inr (DialPort udp (client_for_addr (st_addr dst)) (st_port dst))
         else
           (case cl of
              None \<Rightarrow> Inl NoFixedServer
            | Some c \<Rightarrow>
                if st_to_server dst then Inr (DialPort udp c (st_port dst))
                else Inr (DialTarget udp c (st_dst dst))))"

text \<open>The clients of one proxy, one per address.\<close>

definition client_for_addr :: "(string \<Rightarrow> 'c) \<Rightarrow> string \<Rightarrow> (string, 'c) gomap \<Rightarrow> (string, 'c) gomap \<times> 'c" where
  "client_for_addr mk a m = (case mget m a of Some c \<Rightarrow> (m, c) | None \<Rightarrow> (mset_key a (mk a) m, mk a))"

text \<open>The arguments of \<open>tailcat socks\<close>: the fixed server, if any, and the command to run.\<close>

definition socks_args ::
  "(bytes \<Rightarrow> wire_conn_info option) \<Rightarrow> (string \<Rightarrow> bool) \<Rightarrow> (string \<Rightarrow> string list option) \<Rightarrow> string list
     \<Rightarrow> arg_error + (string \<times> string list)" where
  "socks_args um runnable lookup_txt args =
     (case args of
        [] \<Rightarrow> Inr ([], [])
      | a # rest \<Rightarrow>
          if is_addr um a then Inr (a, rest)
          else if contains_char CHR ''.'' a \<and> \<not> runnable a then
            (case snd (tailcat_addr_arg um lookup_txt a) of Inl e \<Rightarrow> Inl e | Inr addr \<Rightarrow> Inr (addr, rest))
          else Inr ([], args))"

text \<open>The proxy dials what the destination names: the magic name or an empty host is the fixed server, a
  host that is an address is that address's server on its own client, and any other name or
  address is a target through the fixed server, never mapped IPv4-in-IPv6; a name with an IPv4
  address goes to its first one, and without a fixed server only addresses can be dialled.\<close>

theorem socks_dials_named:
  assumes "split_host_port addr = Some (host, port)" "parse_uint 16 port = Some n"
    "classify_socks_addr um lookup addr = Inr dst"
  shows "dial_socks_target network dst cl mk =
     (if host = ''server.tailcat'' \<or> host = [] then
        (case cl of None \<Rightarrow> Inl NoFixedServer | Some c \<Rightarrow> Inr (DialPort (network = ''udp'') c (of_nat n)))
      else if prefix ''tc'' host \<and> CHR ''.'' \<notin> set host \<and> is_addr um host then
        Inr (DialPort (network = ''udp'') (mk host) (of_nat n))
      else (case cl of None \<Rightarrow> Inl NoFixedServer | Some c \<Rightarrow> Inr (DialTarget (network = ''udp'') c (st_dst dst))))
    \<and> \<not> is4in6 (fst (st_dst dst))
    \<and> (\<forall>ips. host \<noteq> ''server.tailcat'' \<and> host \<noteq> [] \<and> \<not> is_addr um host \<and> parse_addr host = None \<and> lookup host = Some ips
          \<and> list_ex (\<lambda>a. is4 (unmap a)) ips \<longrightarrow> is4 (fst (st_dst dst)))"
proof -
  note port = assms(2)
  have um: "\<not> is4in6 (unmap ip)" for ip by (cases ip) auto
  have four: "\<exists>a. prefer4 ips = Some a \<and> is4 (unmap a)" if "list_ex (\<lambda>a. is4 (unmap a)) ips" for ips
  proof -
    have "find (\<lambda>a. is4 (unmap a)) ips \<noteq> None" using that by (auto simp: find_None_iff list_ex_iff)
    then obtain a where f: "find (\<lambda>a. is4 (unmap a)) ips = Some a" by auto
    then show ?thesis using find_SomeD [OF f] by (simp add: prefer4_def)
  qed
  show ?thesis
  proof (cases "host = ''server.tailcat'' \<or> host = []")
    case True
    then have "dst = zero_target\<lparr>st_to_server := True, st_port := of_nat n\<rparr>"
      using assms port by (auto simp: classify_socks_addr_def)
    then show ?thesis using True by (auto simp: dial_socks_target_def zero_target_def Let_def split: option.splits)
  next
    case named: False
    show ?thesis
    proof (cases "prefix ''tc'' host \<and> CHR ''.'' \<notin> set host \<and> is_addr um host")
      case True
      then have "dst = zero_target\<lparr>st_addr := host, st_port := of_nat n\<rparr>"
        using assms port named by (auto simp: classify_socks_addr_def contains_char_def)
      then show ?thesis using True named by (auto simp: dial_socks_target_def zero_target_def Let_def)
    next
      case False
      then obtain ip where ip: "dst = zero_target\<lparr>st_dst := (unmap ip, of_nat n)\<rparr>"
        "parse_addr host = Some ip \<or> parse_addr host = None \<and> (\<exists>ips. lookup host = Some ips \<and> prefer4 ips = Some ip)"
        using assms port named by (auto simp: classify_socks_addr_def contains_char_def split: option.splits)
      then have "is4 (fst (st_dst dst))" if "parse_addr host = None" "lookup host = Some ips" "list_ex (\<lambda>a. is4 (unmap a)) ips" for ips
        using four [OF that(3)] that by (auto simp: zero_target_def)
      then show ?thesis using ip(1) False named um by (auto simp: dial_socks_target_def zero_target_def Let_def split: option.splits)
    qed
  qed
qed

theorem socks_dials_named_witness:
  "\<exists>dst. classify_socks_addr (\<lambda>_. None) (\<lambda>_. Some [IP6 (replicate 16 1) [], IP4 [10, 0, 0, 1]]) ''db:8'' = Inr dst
     \<and> is4 (fst (st_dst dst))"
proof -
  let ?l = "\<lambda>_ :: string. Some [IP6 (replicate 16 1) [], IP4 [10, 0, 0, 1]]"
  have s: "split_host_port ''db:8'' = Some (''db'', ''8'')" by code_simp
  have u: "parse_uint 16 ''8'' = Some 8" by (simp add: parse_uint_def digits_val_def digit_val_def is_digit_def)
  have p: "parse_addr ''db'' = None" by code_simp
  have n: "\<not> is_addr (\<lambda>_. None) x" for x
    by (auto simp: is_addr_def parse_conn_addr_def parse_wire_def split: option.splits)
  have f: "prefer4 [IP6 (replicate 16 1) [], IP4 [10, 0, 0, 1]] = Some (IP4 [10, 0, 0, 1])" by code_simp
  obtain dst where d: "classify_socks_addr (\<lambda>_. None) ?l ''db:8'' = Inr dst"
    unfolding classify_socks_addr_def s option.case prod.case u p f by (cases "is_addr (\<lambda>_. None) ''db''") simp_all
  from socks_dials_named [OF s u d, of "''tcp''" "None :: unit option" "\<lambda>_. ()"]
  have "is4 (fst (st_dst dst))" by (auto simp: n p)
  then show ?thesis using d by blast
qed

text \<open>A second dial to the same address uses the same client, and the others keep theirs.\<close>

lemma client_for_addr_same:
  "client_for_addr mk a m = (m', c) \<Longrightarrow> client_for_addr mk a m' = (m', c) \<and> (b \<noteq> a \<longrightarrow> mget m' b = mget m b)"
  by (auto simp: client_for_addr_def split: option.splits)

section \<open>Saved keys\<close>

definition key_is_path :: "string \<Rightarrow> bool" where
  "key_is_path name = contains_any [CHR ''/'', CHR 0x5C] name"

definition key_path :: "string \<Rightarrow> string \<Rightarrow> string" where
  "key_path conf_dir name =
     (if key_is_path name then name else conf_dir @ ''/tailcat/keys/'' @ name @ ''.private.json'')"

text \<open>\<open>clientKey\<close>: \<open>exists_file\<close> is a \<open>Stat\<close> that succeeds and \<open>load\<close> the private key of a file, if it can
  be read and parsed. The key is a fresh one or a saved one; None is fatal.\<close>

definition client_key :: "string \<Rightarrow> (string \<Rightarrow> bool) \<Rightarrow> (string \<Rightarrow> key32 option) \<Rightarrow> key32 \<Rightarrow> string \<Rightarrow> key32 option" where
  "client_key conf_dir exists_file load fresh flag =
     (let flag' = (if flag = [] then
                     (if exists_file (key_path conf_dir ''client-default'') then Some ''client-default'' else None)
                   else Some flag)
      in (case flag' of
            None \<Rightarrow> Some fresh
          | Some name \<Rightarrow> if name = ''new'' then Some fresh else load (key_path conf_dir name)))"

section \<open>Pinging and piping\<close>

text \<open>The rounds of \<open>clientPingMode\<close>: each has the answer of \<open>DiscoPing\<close> (an error, and whether it is
  the deadline's, or a pong, and whether it is direct) and the time left after it.\<close>

datatype ping_answer = PingErr bool | Pong bool

datatype ping_exit = PingOk | NoDirectPath | PingFatal

fun ping_rounds :: "bool \<Rightarrow> (ping_answer \<times> int) list \<Rightarrow> ping_exit option" where
  "ping_rounds until_direct [] = None"
| "ping_rounds until_direct ((PingErr deadline, left) # rs) =
     Some (if until_direct \<and> deadline then NoDirectPath else PingFatal)"
| "ping_rounds until_direct ((Pong direct, left) # rs) =
     (if direct \<or> \<not> until_direct then Some PingOk
      else if left < sec_ns div 2 then Some NoDirectPath
      else ping_rounds until_direct rs)"

text \<open>With \<open>--until-direct\<close> success means a direct pong, and the loop ends once little time is left.\<close>

lemma ping_rounds_direct:
  "ping_rounds True rs = Some PingOk \<Longrightarrow> \<exists>left. (Pong True, left) \<in> set rs"
  by (induction True rs rule: ping_rounds.induct) (auto split: if_splits)

lemma ping_rounds_ends:
  "(a, left) \<in> set rs \<Longrightarrow> left < sec_ns div 2 \<Longrightarrow> ping_rounds until_direct rs \<noteq> None"
  by (induction until_direct rs rule: ping_rounds.induct) auto

text \<open>What \<open>clientMode\<close> dials; an error is a usage error.\<close>

datatype pipe_dest = ServerPort port | ExitTarget addrport

definition client_dest :: "string \<Rightarrow> pipe_dest option" where
  "client_dest opt_dest =
     (if opt_dest = [] then Some (ServerPort 1)
      else if \<not> contains_char CHR '':'' opt_dest then map_option (\<lambda>n. ServerPort (of_nat n)) (parse_uint 16 opt_dest)
      else map_option ExitTarget (parse_addr_port opt_dest))"

end
