(* ===== verification/CliServe.thy ===== *)
theory CliServe
  imports Windows CliAddr
begin

text \<open>
  \<open>tailcat serve\<close> (\<open>server\<close> in \<open>cmd/tailcat/tailcat.go\<close>): the ports and named services of the
  command line, the checks between the flags, the server's key and printed address, its packet
  filter ranges, allow list and callbacks. The result is the \<open>Server\<close> that is started, as a record
  of the theory \<open>Serving\<close>. Everything outside the process (the file system, the executable search,
  the JSON decoder, the published key lists, the DERP expansion) is a field of \<open>serve_env\<close>.
\<close>

section \<open>Ports and services\<close>

datatype port_error = NoSshSupport | UnknownService string | BadPortText string

definition is_num :: "string \<Rightarrow> bool" where
  "is_num s = (s \<noteq> [] \<and> list_all is_digit s)"

definition is_port_range :: "string \<Rightarrow> bool" where
  "is_port_range s = (case cut CHR ''-'' s of None \<Rightarrow> False | Some (a, b) \<Rightarrow> is_num a \<and> is_num b)"

definition port_bounds :: "string \<Rightarrow> port_error + (nat \<times> nat)" where
  "port_bounds r =
     (if \<not> is_num r \<and> \<not> is_port_range r then Inl (UnknownService r)
      else
        let (a, b) = (if is_port_range r then (case cut CHR ''-'' r of Some ab \<Rightarrow> ab | None \<Rightarrow> (r, [])) else (r, []))
        in (case parse_uint 16 a of
              None \<Rightarrow> Inl (BadPortText a)
            | Some lo \<Rightarrow>
                if b = [] then Inr (lo, lo)
                else
                  (case parse_uint 16 b of
                     None \<Rightarrow> Inl (BadPortText b)
                   | Some hi \<Rightarrow> if hi < lo then Inr (hi, lo) else Inr (lo, hi))))"

definition add_range :: "nat \<Rightarrow> nat \<Rightarrow> port set \<Rightarrow> port set" where
  "add_range lo hi ports = fold (\<lambda>i. insert (of_nat i)) [lo..<Suc hi] ports"

text \<open>One entry of the list; \<open>ssh\<close> is the build tag \<open>tailCatSSHEnabled\<close>.\<close>

definition add_entry :: "bool \<Rightarrow> string \<Rightarrow> port set \<times> string set \<Rightarrow> port_error + (port set \<times> string set)" where
  "add_entry ssh r st =
     (if r = ''all'' then Inr (add_range 1 65535 (fst st), snd st)
      else if r \<in> {''ssh'', ''no-auth-ssh'', ''files''} then
        (if \<not> ssh then Inl NoSshSupport else Inr (fst st, insert r (snd st)))
      else if r \<in> {''exit-node'', ''exec''} then Inr (fst st, insert r (snd st))
      else (case port_bounds r of Inl e \<Rightarrow> Inl e | Inr (lo, hi) \<Rightarrow> Inr (add_range lo hi (fst st), snd st)))"

fun add_entries :: "bool \<Rightarrow> string list \<Rightarrow> port set \<times> string set \<Rightarrow> port_error + (port set \<times> string set)" where
  "add_entries ssh [] st = Inr st"
| "add_entries ssh (r # rs) st =
     (case add_entry ssh (trim_space r) st of Inl e \<Rightarrow> Inl e | Inr st \<Rightarrow> add_entries ssh rs st)"

definition parse_port_set :: "bool \<Rightarrow> string \<Rightarrow> port_error + (port set \<times> string set)" where
  "parse_port_set ssh s =
     (if s = [] then Inr ({}, {}) else add_entries ssh (split_on CHR '','' (trim_space s)) ({}, {}))"

text \<open>The ranges of a list of ports; the sum wraps at 16 bits.\<close>

definition extend_ranges :: "port_range list \<Rightarrow> port \<Rightarrow> port_range list" where
  "extend_ranges ret p =
     (if ret \<noteq> [] \<and> snd (last ret) + 1 = p then butlast ret @ [(fst (last ret), p)] else ret @ [(p, p)])"

definition port_ranges :: "port list \<Rightarrow> port_range list" where
  "port_ranges ports = foldl extend_ranges [] ports"

lemma add_range_set: "hi < 65536 \<Longrightarrow> add_range lo hi ports = ports \<union> {p. lo \<le> unat p \<and> unat p \<le> hi}"
proof -
  assume h: "hi < 65536"
  have f: "fold (\<lambda>i. insert (of_nat i :: port)) xs ports = ports \<union> of_nat ` set xs" for xs
    by (induction xs arbitrary: ports) auto
  have "of_nat ` {lo..<Suc hi} = {p :: port. lo \<le> unat p \<and> unat p \<le> hi}"
  proof (intro equalityI subsetI)
    fix p :: port assume "p \<in> of_nat ` {lo..<Suc hi}"
    then obtain i where i: "p = of_nat i" "lo \<le> i" "i \<le> hi" by auto
    then have "unat p = i" using h by (simp add: unat_of_nat take_bit_nat_eq_self)
    then show "p \<in> {p. lo \<le> unat p \<and> unat p \<le> hi}" using i by simp
  next
    fix p :: port assume "p \<in> {p. lo \<le> unat p \<and> unat p \<le> hi}"
    then show "p \<in> of_nat ` {lo..<Suc hi}" by (intro image_eqI [of _ _ "unat p"]) auto
  qed
  then show ?thesis by (simp add: add_range_def f del: upt_Suc set_upt) (simp only: set_upt)
qed

lemma port_bounds_ok: "port_bounds r = Inr (lo, hi) \<Longrightarrow> lo \<le> hi \<and> hi < 65536"
  using parse_uint_bound [of 16]
  by (auto simp: port_bounds_def Let_def split: if_splits option.splits prod.splits dest!: parse_uint_bound)

text \<open>What an entry names.\<close>

definition entry_port :: "string \<Rightarrow> port \<Rightarrow> bool" where
  "entry_port r p =
     (if r = ''all'' then p \<noteq> 0
      else r \<notin> {''ssh'', ''no-auth-ssh'', ''files'', ''exit-node'', ''exec''}
        \<and> (case port_bounds r of Inl e \<Rightarrow> False | Inr (lo, hi) \<Rightarrow> lo \<le> unat p \<and> unat p \<le> hi))"

definition entry_ok :: "bool \<Rightarrow> string \<Rightarrow> bool" where
  "entry_ok ssh r =
     (r \<in> {''all'', ''exit-node'', ''exec''} \<or> (ssh \<and> r \<in> {''ssh'', ''no-auth-ssh'', ''files''})
      \<or> (r \<notin> {''ssh'', ''no-auth-ssh'', ''files''} \<and> (\<exists>b. port_bounds r = Inr b)))"

definition named_services :: "string set" where
  "named_services = {''ssh'', ''no-auth-ssh'', ''files'', ''exit-node'', ''exec''}"

lemma unat_port_bound: "unat (p :: port) \<le> 65535"
  using unsigned_less [of p, where ?'a = nat] by simp

lemma all_range: "add_range 1 65535 ports = ports \<union> {p. p \<noteq> 0}"
  using unat_port_bound by (auto simp: add_range_set Suc_le_eq unat_gt_0)

lemma add_entry_spec:
  "(\<exists>st'. add_entry ssh r st = Inr st') \<longleftrightarrow> entry_ok ssh r"
  "add_entry ssh r st = Inr st' \<Longrightarrow>
     fst st' = fst st \<union> {p. entry_port r p} \<and> snd st' = snd st \<union> ({r} \<inter> named_services)"
proof -
  show "(\<exists>st'. add_entry ssh r st = Inr st') \<longleftrightarrow> entry_ok ssh r"
    by (auto simp: add_entry_def entry_ok_def split: sum.splits prod.splits)
  assume a: "add_entry ssh r st = Inr st'"
  consider "r = ''all''" | "r \<in> named_services" | "r \<noteq> ''all''" "r \<notin> named_services" by blast
  then show "fst st' = fst st \<union> {p. entry_port r p} \<and> snd st' = snd st \<union> ({r} \<inter> named_services)"
  proof cases
    case 1
    have "st' = (fst st \<union> {p. p \<noteq> 0}, snd st)" using a 1 unfolding add_entry_def all_range by simp
    moreover have "{''all''} \<inter> named_services = {}" by (simp add: named_services_def)
    ultimately show ?thesis using 1 by (simp add: entry_port_def)
  next
    case 2
    then have n: "r \<noteq> ''all''" "r \<in> {''ssh'', ''no-auth-ssh'', ''files''} \<or> r \<in> {''exit-node'', ''exec''}"
      by (auto simp: named_services_def)
    then have "st' = (fst st, insert r (snd st))" using a unfolding add_entry_def by (simp only: if_False split: if_splits) auto
    moreover have "\<not> entry_port r p" for p using n unfolding entry_port_def by (simp only: if_False) blast
    ultimately show ?thesis using 2 by simp
  next
    case 3
    then show ?thesis using a port_bounds_ok [of r]
      by (auto simp: add_entry_def entry_port_def named_services_def add_range_set split: sum.splits prod.splits)
  qed
qed

lemma add_entries_spec:
  "(\<exists>st'. add_entries ssh rs st = Inr st') \<longleftrightarrow> (\<forall>r \<in> set rs. entry_ok ssh (trim_space r))"
  "add_entries ssh rs st = Inr st' \<Longrightarrow>
     fst st' = fst st \<union> {p. \<exists>r \<in> set rs. entry_port (trim_space r) p}
     \<and> snd st' = snd st \<union> (trim_space ` set rs \<inter> named_services)"
proof (induction rs arbitrary: st)
  case (Cons r rs)
  {
    case 1
    note e = add_entry_spec [where ssh = ssh and r = "trim_space r" and st = st]
    show ?case
    proof (cases "add_entry ssh (trim_space r) st")
      case (Inl x)
      then have "\<not> entry_ok ssh (trim_space r)" using Inl e(1) by (metis sum.distinct(1))
      then show ?thesis using Inl by simp
    next
      case (Inr st1)
      then show ?thesis using e(1) Cons(1) [of st1] by simp
    qed
  next
    case 2
    note e = add_entry_spec [where ssh = ssh and r = "trim_space r" and st = st]
    from 2 obtain st1 where s: "add_entry ssh (trim_space r) st = Inr st1" "add_entries ssh rs st1 = Inr st'"
      by (auto split: sum.splits)
    from e(2) [OF s(1)] Cons(2) [OF s(2)] show ?case by auto
  }
qed auto

text \<open>The list of the command line is read exactly: it is accepted when every entry is a known service
  or a port or range of 16-bit numbers in either order, and then the ports are those of the
  ranges (every port but 0 for \<open>all\<close>) and the services those named.\<close>

theorem parse_port_set_exact:
  assumes "s \<noteq> []" "es = map trim_space (split_on CHR '','' (trim_space s))"
  shows "((\<exists>r. parse_port_set ssh s = Inr r) \<longleftrightarrow> (\<forall>e \<in> set es. entry_ok ssh e))
    \<and> (\<forall>ports services. parse_port_set ssh s = Inr (ports, services) \<longrightarrow>
         (\<forall>p. p \<in> ports \<longleftrightarrow> (\<exists>e \<in> set es. entry_port e p)) \<and> services = set es \<inter> named_services)"
proof -
  have p: "parse_port_set ssh s = add_entries ssh (split_on CHR '','' (trim_space s)) ({}, {})"
    using assms(1) by (simp add: parse_port_set_def)
  note e = add_entries_spec [where ssh = ssh and rs = "split_on CHR '','' (trim_space s)" and st = "({}, {})"]
  show ?thesis unfolding p using e by (auto simp: assms(2))
qed

theorem parse_port_set_exact_witness:
  "\<exists>ports services. parse_port_set True ''9-7,ssh'' = Inr (ports, services) \<and> ports = {7, 8, 9} \<and> services = {''ssh''}"
proof -
  let ?es = "[''9-7'', ''ssh'']"
  have t: "trim_space ''9-7,ssh'' = ''9-7,ssh''" "trim_space ''9-7'' = ''9-7''" "trim_space ''ssh'' = ''ssh''"
    by (rule trim_space_visible, simp add: visible_def)+
  have sp: "split_on CHR '','' ''9-7,ssh'' = [''9-7'', ''ssh'']" by code_simp
  have es: "?es = map trim_space (split_on CHR '','' (trim_space ''9-7,ssh''))" by (simp add: sp t)
  have b: "port_bounds ''9-7'' = Inr (7, 9)"
    by (simp add: port_bounds_def is_port_range_def is_num_def parse_uint_def digits_val_def digit_val_def is_digit_def)
  have ok: "\<forall>e \<in> set ?es. entry_ok True e" by (simp add: entry_ok_def b)
  note x = parse_port_set_exact [where s = "''9-7,ssh''" and ssh = True, OF _ es]
  then obtain ports services where p: "parse_port_set True ''9-7,ssh'' = Inr (ports, services)" using ok by auto
  have e: "entry_port ''9-7'' p \<longleftrightarrow> p \<in> {7, 8, 9}" for p
  proof -
    have "7 \<le> unat p \<and> unat p \<le> 9 \<longleftrightarrow> unat p \<in> {unat (7 :: port), unat (8 :: port), unat (9 :: port)}" by auto
    then show ?thesis by (auto simp: entry_port_def b word_unat_eq_iff)
  qed
  have "\<not> entry_port ''ssh'' p" for p by (simp add: entry_port_def)
  then have "p \<in> ports \<longleftrightarrow> p \<in> {7, 8, 9}" for p using x p e by auto
  moreover have "services = {''ssh''}" using x p by (auto simp: named_services_def)
  ultimately show ?thesis using p by blast
qed

lemma port_bounds_num: "parse_uint 16 r = Some n \<Longrightarrow> port_bounds r = Inr (n, n)"
proof -
  assume a: "parse_uint 16 r = Some n"
  then have d: "r \<noteq> []" "list_all is_digit r" using parse_uint_digits by blast+
  then have "CHR ''-'' \<notin> set r" by (auto simp: list_all_iff is_digit_def)
  then have "cut CHR ''-'' r = None" by (simp add: cut_None_iff)
  then show ?thesis using a d by (simp add: port_bounds_def is_num_def is_port_range_def)
qed

lemma in_ranges_app: "list_ex (in_range q) (xs @ ys) \<longleftrightarrow> list_ex (in_range q) xs \<or> list_ex (in_range q) ys"
  by simp

text \<open>Extending the last range by the next port adds just that port.\<close>

lemma in_range_extend:
  fixes p :: port
  assumes "l + 1 = p" "p \<noteq> 0" "f \<le> l"
  shows "in_range q (f, p) \<longleftrightarrow> in_range q (f, l) \<or> q = p"
proof -
  have l: "unat p = Suc (unat l)" using assms(1,2) unatSuc [of l] by (auto simp: add.commute)
  have e: "q = p \<longleftrightarrow> unat q = unat p" by (simp add: word_unat_eq_iff)
  show ?thesis using assms(3) l by (auto simp: in_range_def word_le_nat_alt e)
qed

lemma port_ranges_wf:
  assumes "successively (\<lambda>a b. b \<noteq> 0 \<or> a \<noteq> -1) ports"
  shows "(\<forall>p. list_ex (in_range p) (port_ranges ports) \<longleftrightarrow> p \<in> set ports)
    \<and> (\<forall>r \<in> set (port_ranges ports). fst r \<le> snd r)
    \<and> (ports \<noteq> [] \<longrightarrow> port_ranges ports \<noteq> [] \<and> snd (last (port_ranges ports)) = last ports)"
  using assms
proof (induction ports rule: rev_induct)
  case Nil
  then show ?case by (simp add: port_ranges_def)
next
  case (snoc p ports)
  let ?r = "port_ranges ports"
  have ih: "\<forall>p. list_ex (in_range p) ?r \<longleftrightarrow> p \<in> set ports" "\<forall>r \<in> set ?r. fst r \<le> snd r"
    "ports \<noteq> [] \<longrightarrow> ?r \<noteq> [] \<and> snd (last ?r) = last ports"
    using snoc by (auto simp: successively_append_iff)
  have st: "port_ranges (ports @ [p]) = extend_ranges ?r p" by (simp add: port_ranges_def)
  show ?case
  proof (cases "?r \<noteq> [] \<and> snd (last ?r) + 1 = p")
    case False
    then have x: "extend_ranges ?r p = ?r @ [(p, p)]" by (simp only: extend_ranges_def if_False)
    show ?thesis unfolding st x using ih by auto
  next
    case True
    then have x: "extend_ranges ?r p = butlast ?r @ [(fst (last ?r), p)]" by (simp only: extend_ranges_def if_True simp_thms)
    obtain f l where r: "?r = butlast ?r @ [(f, l)]" "last ?r = (f, l)"
      using True append_butlast_last_id [of ?r] by (metis surj_pair)
    have fl: "f \<le> l" "\<forall>r \<in> set (butlast ?r). fst r \<le> snd r" using ih(2) r by (metis fst_conv snd_conv last_in_set True) (metis ih(2) in_set_butlastD)
    have ne: "ports \<noteq> []" using True by (auto simp: port_ranges_def)
    then have "l = last ports" using ih(3) r by simp
    then have p: "l + 1 = p" "p \<noteq> 0" using True r snoc.prems ne by (auto simp: successively_append_iff eq_neg_iff_add_eq_0)
    have "f \<le> p"
      using in_range_extend [OF p fl(1), of p] by (simp add: in_range_def)
    moreover have "list_ex (in_range q) (butlast ?r @ [(f, p)]) \<longleftrightarrow> q \<in> set (ports @ [p])" for q
    proof -
      have "list_ex (in_range q) ?r \<longleftrightarrow> list_ex (in_range q) (butlast ?r) \<or> in_range q (f, l)"
        by (subst r(1)) simp
      then have "list_ex (in_range q) (butlast ?r) \<or> in_range q (f, l) \<longleftrightarrow> q \<in> set ports" using ih(1) by simp
      then show ?thesis using in_range_extend [OF p fl(1), of q] by auto
    qed
    ultimately show ?thesis unfolding st x r(2) using fl(2) by auto
  qed
qed

lemma successively_ascending: "sorted_wrt (<) (ps :: port list) \<Longrightarrow> successively (\<lambda>a b. b \<noteq> 0 \<or> a \<noteq> -1) ps"
  by (induction ps) (auto simp: successively_Cons hd_conv_nth)


section \<open>Files and commands\<close>

datatype files_error = NoAbsPath | NoSuchDir | NotADir

definition files_mode :: "string \<Rightarrow> string \<times> file_serve_mode" where
  "files_mode v =
     (case cut_suffix v '':ro'' of
        Some d \<Rightarrow> (d, FileServeRO)
      | None \<Rightarrow>
          (case cut_suffix v '':rw'' of
             Some d \<Rightarrow> (d, FileServeRW)
           | None \<Rightarrow>
               (case cut_suffix v '':wo+'' of
                  Some d \<Rightarrow> (d, FileServeWOPlus)
                | None \<Rightarrow> (case cut_suffix v '':wo'' of Some d \<Rightarrow> (d, FileServeWO) | None \<Rightarrow> (v, FileServeRO)))))"

text \<open>\<open>abs_path\<close> is \<open>filepath.Abs\<close>, \<open>is_dir\<close> a \<open>Stat\<close>: whether the path is a directory, if it exists.\<close>

definition parse_files_flag ::
  "(string \<Rightarrow> string option) \<Rightarrow> (string \<Rightarrow> bool option) \<Rightarrow> string \<Rightarrow> files_error + file_service" where
  "parse_files_flag abs_path is_dir v =
     (let (dir, mode) = files_mode v;
          dir = (if dir = [] then ''.'' else dir)
      in (case abs_path dir of
            None \<Rightarrow> Inl NoAbsPath
          | Some a \<Rightarrow>
              (case is_dir a of
                 None \<Rightarrow> Inl NoSuchDir
               | Some False \<Rightarrow> Inl NotADir
               | Some True \<Rightarrow> Inr \<lparr>fs_dir = a, fs_mode = mode\<rparr>)))"

fun mode_suffix :: "file_serve_mode \<Rightarrow> string" where
  "mode_suffix FileServeRO = '':ro''"
| "mode_suffix FileServeRW = '':rw''"
| "mode_suffix FileServeWO = '':wo''"
| "mode_suffix FileServeWOPlus = '':wo+''"

text \<open>A written suffix always decides the mode, whatever the directory is called, and without one
  the files are read-only.\<close>

lemma files_mode_suffix: "files_mode (dir @ mode_suffix m) = (dir, m)"
proof -
  have n: "cut_suffix (dir @ s) t = None" if "last s \<noteq> last t" "s \<noteq> []" "t \<noteq> []" for s t
  proof (rule ccontr)
    assume "cut_suffix (dir @ s) t \<noteq> None"
    then obtain d where "dir @ s = d @ t" by (auto simp: cut_suffix_Some_iff)
    then have "last (dir @ s) = last (d @ t)" by simp
    then show False using that by simp
  qed
  moreover have "cut_suffix (dir @ s) t = None" if "length s = length t" "s \<noteq> t" for s t
    using that by (auto simp: cut_suffix_def suffix_def)
  ultimately show ?thesis by (cases m) (simp_all add: files_mode_def)
qed

lemma files_mode_plain:
  "\<forall>m. \<not> suffix (mode_suffix m) v \<Longrightarrow> files_mode v = (v, FileServeRO)"
proof -
  assume a: "\<forall>m. \<not> suffix (mode_suffix m) v"
  have "\<not> suffix '':ro'' v" "\<not> suffix '':rw'' v" "\<not> suffix '':wo'' v" "\<not> suffix '':wo+'' v"
    using a [rule_format, of FileServeRO] a [rule_format, of FileServeRW] a [rule_format, of FileServeWO]
      a [rule_format, of FileServeWOPlus] by simp_all
  then show ?thesis by (simp add: files_mode_def cut_suffix_def)
qed

text \<open>\<open>splitExecArgs\<close>: \<open>os_args\<close> is the whole command line and \<open>args\<close> the positional rest of it. None
  is the panic of a slice bound, which a rest that is not a suffix could cause.\<close>

fun after_sep :: "string list \<Rightarrow> string list option" where
  "after_sep [] = None"
| "after_sep (a # as) = (if a = ''--'' then Some as else after_sep as)"

definition split_exec_args :: "string list \<Rightarrow> string list \<Rightarrow> (string list \<times> string list option) option" where
  "split_exec_args os_args args =
     (case after_sep os_args of
        None \<Rightarrow> Some (args, None)
      | Some exec_args \<Rightarrow>
          if length args < length exec_args then None
          else
            let positional = take (length args - length exec_args) args
            in Some (if positional \<noteq> [] \<and> last positional = ''--'' then butlast positional else positional, Some exec_args))"

lemma after_sep_app: "''--'' \<notin> set pre \<Longrightarrow> after_sep (pre @ ''--'' # post) = Some post"
  by (induction pre) auto

text \<open>Whether the separator was dropped (nothing but flags before it) or kept (after a positional
  argument), the positional arguments are those before it and the command what follows.\<close>

lemma split_exec_args_spec:
  assumes "''--'' \<notin> set flags" "''--'' \<notin> set pos"
  shows "split_exec_args (flags @ pos @ ''--'' # cmd) (pos @ ''--'' # cmd) = Some (pos, Some cmd)"
    "split_exec_args (flags @ ''--'' # cmd) cmd = Some ([], Some cmd)"
    "split_exec_args (flags @ pos) pos = Some (pos, None)"
proof -
  have n: "''--'' \<notin> set as \<Longrightarrow> after_sep as = None" for as by (induction as) auto
  have "after_sep (flags @ pos @ ''--'' # cmd) = Some cmd" using after_sep_app [of "flags @ pos" cmd] assms by simp
  then show "split_exec_args (flags @ pos @ ''--'' # cmd) (pos @ ''--'' # cmd) = Some (pos, Some cmd)"
    by (simp add: split_exec_args_def)
  show "split_exec_args (flags @ ''--'' # cmd) cmd = Some ([], Some cmd)"
    using after_sep_app [OF assms(1), of cmd] by (simp add: split_exec_args_def)
  show "split_exec_args (flags @ pos) pos = Some (pos, None)" using n [of "flags @ pos"] assms by (simp add: split_exec_args_def)
qed

end
