(* ===== verification/CliServer.thy ===== *)
theory CliServer
  imports CliServe
begin

text \<open>
  \<open>server\<close> of \<open>cmd/tailcat/tailcat.go\<close> as a whole: from the flags to the \<open>Server\<close> that is started
  and the address that is printed. Everything outside the process is a field of \<open>serve_env\<close>; each
  \<open>log.Fatal\<close> is an error value and the index panic is one too (\<open>RegionPanic\<close>).
\<close>

section \<open>Flags and surroundings\<close>

record serve_flags =
  sf_spec :: string
  sf_exec :: "string list option"
  sf_files :: string
  sf_auth_keys :: string
  sf_psk :: bool
  sf_key :: string
  sf_full_address :: bool
  sf_allow :: string

record 'w serve_env =
  sn_ssh_built :: bool
  sn_ssh_os :: bool
  sn_look_path :: "string \<Rightarrow> string option"
  sn_load_keys :: "string \<Rightarrow> string list option"
  sn_conf_dir :: string
  sn_stat_default :: "bool option"
  sn_read_file :: "string \<Rightarrow> string option"
  sn_json_key :: "string \<Rightarrow> (key32 \<times> conn_info) option"
  sn_new_node :: key32
  sn_new_psk :: key32
  sn_public :: "key32 \<Rightarrow> key32"
  sn_disco :: "key32 \<Rightarrow> key32"
  sn_expand :: "conn_info \<Rightarrow> 'w \<Rightarrow> 'w \<times> (expand_error + conn_info)"
  sn_marshal :: "wire_conn_info \<Rightarrow> bytes option"
  sn_dev_region :: "derp_region option"
  sn_parse_key :: "string \<Rightarrow> key32 option"
  sn_abs :: "string \<Rightarrow> string option"
  sn_is_dir :: "string \<Rightarrow> bool option"

datatype serve_error = BadSpec port_error | NoCommand | NoSuchCommand | ExecNeedsCommand | FilesNotBuilt
  | SshTwice | SshNeedsKeys | KeysWithoutAuth | KeysNeedSsh | FilesWithCommand | KeysNotBuilt | KeysFailed
  | PskRequired | KeyStat | KeyRead | KeyParse | KeyNoPsk | ServeExpand expand_error | RegionPanic | AddrPanic
  | SshUnsupported | BadAllow string | BadFiles files_error

section \<open>Services and their flags\<close>

text \<open>The forced command: its executable is looked up, and it becomes the \<open>exec\<close> service unless SSH
  runs it.\<close>

definition exec_service ::
  "'w serve_env \<Rightarrow> string list option \<Rightarrow> string set \<Rightarrow> serve_error + (string list option \<times> string set)" where
  "exec_service env exec_args services =
     (case exec_args of
        None \<Rightarrow> if ''exec'' \<in> services then Inl ExecNeedsCommand else Inr (None, services)
      | Some [] \<Rightarrow> Inl NoCommand
      | Some (c # args) \<Rightarrow>
          (case sn_look_path env c of
             None \<Rightarrow> Inl NoSuchCommand
           | Some exe \<Rightarrow>
               Inr (Some (exe # args),
                    if ''ssh'' \<notin> services \<and> ''no-auth-ssh'' \<notin> services then insert ''exec'' services else services)))"

text \<open>The checks between the services and the key flag, in the order of the code.\<close>

definition check_services :: "serve_flags \<Rightarrow> string list option \<Rightarrow> string set \<Rightarrow> serve_error option" where
  "check_services fl exec_args services =
     (let auth = ''ssh'' \<in> services; no_auth = ''no-auth-ssh'' \<in> services
      in if auth \<and> no_auth then Some SshTwice
         else if auth \<and> sf_auth_keys fl = [] then Some SshNeedsKeys
         else if no_auth \<and> sf_auth_keys fl \<noteq> [] then Some KeysWithoutAuth
         else if sf_auth_keys fl \<noteq> [] \<and> \<not> auth then Some KeysNeedSsh
         else if (auth \<or> no_auth) \<and> exec_args \<noteq> None \<and> ''files'' \<in> services then Some FilesWithCommand
         else None)"

record serve_plan =
  sp_ports :: "port set"
  sp_services :: "string set"
  sp_exec :: "string list option"
  sp_keys :: "string list option"

definition serve_services :: "'w serve_env \<Rightarrow> serve_flags \<Rightarrow> serve_error + serve_plan" where
  "serve_services env fl =
     (case parse_port_set (sn_ssh_built env) (sf_spec fl) of
        Inl e \<Rightarrow> Inl (BadSpec e)
      | Inr (ports, services) \<Rightarrow>
          (case exec_service env (sf_exec fl) services of
             Inl e \<Rightarrow> Inl e
           | Inr (exec_args, services) \<Rightarrow>
               if sf_files fl \<noteq> [] \<and> \<not> sn_ssh_built env then Inl FilesNotBuilt
               else
                 let services = (if sf_files fl \<noteq> [] then insert ''files'' services else services)
                 in (case check_services fl exec_args services of
                       Some e \<Rightarrow> Inl e
                     | None \<Rightarrow>
                         if sf_auth_keys fl = [] then
                           Inr \<lparr>sp_ports = ports, sp_services = services, sp_exec = exec_args, sp_keys = None\<rparr>
                         else if \<not> sn_ssh_built env then Inl KeysNotBuilt
                         else
                           (case sn_load_keys env (sf_auth_keys fl) of
                              None \<Rightarrow> Inl KeysFailed
                            | Some ks \<Rightarrow>
                                Inr \<lparr>sp_ports = ports, sp_services = services, sp_exec = exec_args, sp_keys = Some ks\<rparr>))))"

definition one_shot_stdout :: "serve_plan \<Rightarrow> bool" where
  "one_shot_stdout p = (sp_ports p = {} \<and> sp_services p = {})"

definition ssh_services :: "serve_plan \<Rightarrow> bool" where
  "ssh_services p = (''ssh'' \<in> sp_services p \<or> ''no-auth-ssh'' \<in> sp_services p \<or> ''files'' \<in> sp_services p)"

section \<open>The key and the address\<close>

text \<open>\<open>NewPrivateKey\<close>.\<close>

definition new_private_key :: "(key32 \<Rightarrow> key32) \<Rightarrow> (key32 \<Rightarrow> key32) \<Rightarrow> key32 \<Rightarrow> key32 \<Rightarrow> key32 \<times> conn_info" where
  "new_private_key pub disco k psk =
     (k, \<lparr>ci_server_public = pub k, ci_disco = disco k, ci_psk = psk, ci_region = [], ci_region_id = 0\<rparr>)"

definition serve_key :: "'w serve_env \<Rightarrow> serve_flags \<Rightarrow> serve_error + (string \<times> key32 \<times> conn_info)" where
  "serve_key env fl =
     (if \<not> sf_psk fl then Inl PskRequired
      else
        case (if sf_key fl = [] then
                map_option (\<lambda>ex. if ex then ''default'' else ''new'') (sn_stat_default env)
              else Some (sf_key fl)) of
          None \<Rightarrow> Inl KeyStat
        | Some name \<Rightarrow>
            if name = ''new'' then
              (case new_private_key (sn_public env) (sn_disco env) (sn_new_node env) (sn_new_psk env) of
                 (priv, ci) \<Rightarrow> Inr (name, priv, ci\<lparr>ci_region_id := -1\<rparr>))
            else
              (case sn_read_file env (key_path (sn_conf_dir env) name) of
                 None \<Rightarrow> Inl KeyRead
               | Some j \<Rightarrow>
                   (case sn_json_key env j of
                      None \<Rightarrow> Inl KeyParse
                    | Some (priv, ci) \<Rightarrow> if psk_is_zero (ci_psk ci) then Inl KeyNoPsk else Inr (name, priv, ci))))"

definition clear_unnecessary_region_fields :: "derp_region \<Rightarrow> derp_region" where
  "clear_unnecessary_region_fields r =
     r\<lparr>dr_latitude := 0, dr_longitude := 0, dr_code := [],
       dr_nodes := map (\<lambda>n. n\<lparr>dn_can_port80 := False, dn_region_id := 0\<rparr>) (take 1 (dr_nodes r))\<rparr>"

text \<open>The region the server uses and the connection it prints. \<open>ci.Region[0]\<close> panics when the
  expansion left no region.\<close>

definition serve_conn ::
  "'w serve_env \<Rightarrow> serve_flags \<Rightarrow> key32 \<Rightarrow> conn_info \<Rightarrow> 'w \<Rightarrow> 'w \<times> (serve_error + (derp_region \<times> conn_info))" where
  "serve_conn env fl priv ci w =
     (let done = (\<lambda>reg conn. Inr (reg, conn\<lparr>ci_server_public := sn_public env priv, ci_disco := sn_disco env priv\<rparr>))
      in (case sn_dev_region env of
            Some reg \<Rightarrow> (w, done reg (zero_conn_info\<lparr>ci_psk := ci_psk ci, ci_region := [reg]\<rparr>))
          | None \<Rightarrow>
              let embed = (sf_full_address fl \<or> ci_region ci \<noteq> [])
              in (case sn_expand env ci w of
                    (w, Inl e) \<Rightarrow> (w, Inl (ServeExpand e))
                  | (w, Inr ci') \<Rightarrow>
                      (case ci_region ci' of
                         [] \<Rightarrow> (w, Inl RegionPanic)
                       | r # rs \<Rightarrow>
                           let reg = clear_unnecessary_region_fields r;
                               conn = zero_conn_info\<lparr>ci_psk := ci_psk ci\<rparr>
                           in (w, done reg (if embed then conn\<lparr>ci_region := [reg]\<rparr>
                                            else conn\<lparr>ci_region_id := dr_id reg\<rparr>))))))"

section \<open>The server\<close>

datatype cli_handler = SshConn ssh_options | ExecConn "string list" | DialLocal string | DialUdp addrport | CopyToStdout

definition served_tcp_ports :: "serve_plan \<Rightarrow> port_range list option" where
  "served_tcp_ports p =
     (if \<not> one_shot_stdout p \<and> ''exit-node'' \<notin> sp_services p \<and> ''exec'' \<notin> sp_services p then
        let ports = sorted_list_of_set (sp_ports p);
            ports = (if ssh_services p \<and> 22 \<notin> sp_ports p then 22 # ports else ports)
        in (case port_ranges ports of [] \<Rightarrow> None | r # rs \<Rightarrow> Some (r # rs))
      else None)"

fun allow_list :: "(string \<Rightarrow> key32 option) \<Rightarrow> string list \<Rightarrow> 'h server \<Rightarrow> serve_error + 'h server" where
  "allow_list parse_key [] s = Inr s"
| "allow_list parse_key (k # ks) s =
     (if k = ''none'' then allow_list parse_key ks (server_add_allowed key_zero s)
      else
        (case parse_key k of
           None \<Rightarrow> Inl (BadAllow k)
         | Some pub \<Rightarrow> allow_list parse_key ks (server_add_allowed pub s)))"

definition cli_ssh_options :: "'w serve_env \<Rightarrow> serve_flags \<Rightarrow> serve_plan \<Rightarrow> serve_error + ssh_options option" where
  "cli_ssh_options env fl p =
     (if \<not> ssh_services p then Inr None
      else
        let shell = (''ssh'' \<in> sp_services p \<or> ''no-auth-ssh'' \<in> sp_services p);
            opts = \<lparr>so_shell = shell, so_exec = (case sp_exec p of Some c \<Rightarrow> if shell then c else [] | None \<Rightarrow> []),
                    so_keys = sp_keys p, so_files = None\<rparr>
        in if ''files'' \<in> sp_services p then
             (case parse_files_flag (sn_abs env) (sn_is_dir env) (sf_files fl) of
                Inl e \<Rightarrow> Inl (BadFiles e)
              | Inr f \<Rightarrow> Inr (Some (opts\<lparr>so_files := Some f\<rparr>)))
           else Inr (Some opts))"

definition local_port :: "port \<Rightarrow> cli_handler" where
  "local_port p = DialLocal (''localhost:'' @ itoa (unat p))"

definition cli_on_tcp :: "serve_plan \<Rightarrow> ssh_options option \<Rightarrow> port \<Rightarrow> cli_handler option" where
  "cli_on_tcp p ssh port =
     (if port = 22 \<and> ssh \<noteq> None then Some (SshConn (the ssh))
      else if port \<in> sp_ports p then Some (local_port port)
      else if ''exec'' \<in> sp_services p then Some (ExecConn (case sp_exec p of Some c \<Rightarrow> c | None \<Rightarrow> []))
      else if ''exit-node'' \<in> sp_services p then Some (local_port port)
      else if one_shot_stdout p then Some CopyToStdout
      else if port \<notin> sp_ports p then None
      else Some (local_port port))"

definition cli_server :: "serve_plan \<Rightarrow> ssh_options option \<Rightarrow> cli_handler server \<Rightarrow> cli_handler server" where
  "cli_server p ssh s =
     s\<lparr>sv_on_tcp_forward := (if ''exit-node'' \<in> sp_services p then Some (\<lambda>dst. Some (DialLocal (addr_port_string dst))) else None),
       sv_on_udp_forward := (if ''exit-node'' \<in> sp_services p then Some (\<lambda>dst. Some (DialUdp dst)) else None),
       sv_on_tcp := Some (cli_on_tcp p ssh)\<rparr>"

text \<open>The \<open>Server\<close> value with the fields of the code and every other one zero.\<close>

definition base_server :: "key32 \<Rightarrow> key32 \<Rightarrow> bool \<Rightarrow> derp_region \<Rightarrow> cli_handler server" where
  "base_server priv psk disable reg =
     \<lparr>sv_key = priv, sv_psk = psk, sv_disable_psk = disable, sv_region = Some reg, sv_region_id = 0,
      sv_derp_map_url = [], sv_allowed_clients = [], sv_lb = None, sv_heap = [], sv_tcp_listeners = [],
      sv_udp_listeners = [], sv_on_tcp = None, sv_on_tcp_forward = None, sv_on_udp = None,
      sv_on_udp_forward = None, sv_served_tcp = None, sv_served_udp = None, sv_udp_idle = 0, sv_filter = None\<rparr>"

text \<open>\<open>server\<close> up to \<open>Start\<close>: the server and its printed address.\<close>

definition build_server ::
  "'w serve_env \<Rightarrow> serve_flags \<Rightarrow> serve_plan \<Rightarrow> key32 \<Rightarrow> key32 \<Rightarrow> derp_region \<Rightarrow> serve_error + cli_handler server" where
  "build_server env fl p priv psk reg =
     (if ssh_services p \<and> \<not> sn_ssh_os env then Inl SshUnsupported
      else
        let s = (base_server priv psk (\<not> sf_psk fl) reg)\<lparr>sv_served_tcp := served_tcp_ports p\<rparr>
        in (case (if sf_allow fl = [] then Inr s else allow_list (sn_parse_key env) (split_on CHR '','' (sf_allow fl)) s) of
              Inl e \<Rightarrow> Inl e
            | Inr s \<Rightarrow>
                (case cli_ssh_options env fl p of
                   Inl e \<Rightarrow> Inl e
                 | Inr ssh \<Rightarrow> Inr (cli_server p ssh s))))"

definition cli_serve :: "'w serve_env \<Rightarrow> serve_flags \<Rightarrow> 'w \<Rightarrow> 'w \<times> (serve_error + (string \<times> cli_handler server))" where
  "cli_serve env fl w =
     (case serve_services env fl of
        Inl e \<Rightarrow> (w, Inl e)
      | Inr p \<Rightarrow>
          (case serve_key env fl of
             Inl e \<Rightarrow> (w, Inl e)
           | Inr (name, priv, ci) \<Rightarrow>
               (case serve_conn env fl priv ci w of
                  (w, Inl e) \<Rightarrow> (w, Inl e)
                | (w, Inr (reg, conn)) \<Rightarrow>
                    (case conn_addr (sn_marshal env) conn of
                       None \<Rightarrow> (w, Inl AddrPanic)
                     | Some addr \<Rightarrow>
                         (case build_server env fl p priv (ci_psk ci) reg of
                            Inl e \<Rightarrow> (w, Inl e)
                          | Inr s \<Rightarrow> (w, Inr (addr, s)))))))"


section \<open>What the checks leave\<close>

definition exec_ran :: "'w serve_env \<Rightarrow> serve_flags \<Rightarrow> string list option" where
  "exec_ran env fl =
     (case sf_exec fl of None \<Rightarrow> None | Some [] \<Rightarrow> None | Some (c # args) \<Rightarrow> map_option (\<lambda>e. e # args) (sn_look_path env c))"

lemma exec_service_Inr:
  assumes "exec_service env ex services = Inr (ea, services')"
  shows "ea = (case ex of None \<Rightarrow> None | Some [] \<Rightarrow> None | Some (c # args) \<Rightarrow> map_option (\<lambda>e. e # args) (sn_look_path env c))"
    "services' = services \<or> services' = insert ''exec'' services" "''exec'' \<in> services' \<longrightarrow> ea \<noteq> None"
    "ea = Some c \<Longrightarrow> c \<noteq> []"
  using assms by (auto simp: exec_service_def split: option.splits list.splits if_splits)

lemma add_entries_services:
  "parse_port_set ssh s = Inr (ports, services) \<Longrightarrow> services \<subseteq> named_services"
  using add_entries_spec(2) [where ssh = ssh and rs = "split_on CHR '','' (trim_space s)" and st = "({}, {})" and st' = "(ports, services)"]
  by (auto simp: parse_port_set_def split: if_splits)

text \<open>A plan has only known services; a command exactly when one was given; keys exactly with the \<open>ssh\<close>
  service, which then is the only SSH service with a shell; and no files under a forced command.\<close>

lemma serve_services_sound:
  assumes "serve_services env fl = Inr p" "parse_port_set (sn_ssh_built env) (sf_spec fl) = Inr (ports, named)"
  shows "sp_ports p = ports" "sp_services p \<subseteq> named_services" "sp_exec p = exec_ran env fl"
    "sp_services p - {''exec'', ''files''} = named - {''exec'', ''files''}"
    "sp_keys p \<noteq> None \<longleftrightarrow> ''ssh'' \<in> named" "\<not> (''ssh'' \<in> named \<and> ''no-auth-ssh'' \<in> named)"
    "''ssh'' \<in> named \<or> ''no-auth-ssh'' \<in> named \<Longrightarrow> sp_exec p \<noteq> None \<Longrightarrow> ''files'' \<notin> sp_services p"
    "sp_exec p \<noteq> Some []" "''files'' \<in> sp_services p \<longleftrightarrow> ''files'' \<in> named \<or> sf_files fl \<noteq> []"
proof -
  obtain ea sv where e: "exec_service env (sf_exec fl) named = Inr (ea, sv)"
    using assms by (cases "exec_service env (sf_exec fl) named") (auto simp: serve_services_def)
  define sv2 where "sv2 = (if sf_files fl \<noteq> [] then insert ''files'' sv else sv)"
  have c: "check_services fl ea sv2 = None"
    using assms e by (auto simp: serve_services_def Let_def sv2_def split: if_splits option.splits)
  have p: "sp_ports p = ports" "sp_services p = sv2" "sp_exec p = ea" "sp_keys p = None \<longleftrightarrow> sf_auth_keys fl = []"
    using assms e c unfolding serve_services_def Let_def sv2_def [symmetric]
    by (auto simp: Let_def sv2_def split: if_splits option.splits)
  note x = exec_service_Inr [OF e] and n = add_entries_services [OF assms(2)]
  have s: "sv2 \<subseteq> insert ''exec'' (insert ''files'' named)" "named \<subseteq> sv2" using x(2) by (auto simp: sv2_def)
  have ssh: "''ssh'' \<in> sv2 \<longleftrightarrow> ''ssh'' \<in> named" "''no-auth-ssh'' \<in> sv2 \<longleftrightarrow> ''no-auth-ssh'' \<in> named"
    using s by auto
  show "sp_ports p = ports" by (rule p(1))
  show "sp_services p \<subseteq> named_services" using s n p by (auto simp: named_services_def)
  show "sp_exec p = exec_ran env fl" using p x(1) by (simp add: exec_ran_def)
  show "sp_services p - {''exec'', ''files''} = named - {''exec'', ''files''}" using s p by auto
  show "sp_keys p \<noteq> None \<longleftrightarrow> ''ssh'' \<in> named" using c p(4) ssh by (auto simp: check_services_def Let_def split: if_splits)
  show "\<not> (''ssh'' \<in> named \<and> ''no-auth-ssh'' \<in> named)" using c ssh by (auto simp: check_services_def Let_def split: if_splits)
  show "''files'' \<notin> sp_services p" if "''ssh'' \<in> named \<or> ''no-auth-ssh'' \<in> named" "sp_exec p \<noteq> None"
    using c ssh p that by (auto simp: check_services_def Let_def split: if_splits)
  show "sp_exec p \<noteq> Some []" using p(3) x(4) by auto
  show "''files'' \<in> sp_services p \<longleftrightarrow> ''files'' \<in> named \<or> sf_files fl \<noteq> []"
    using p(2) x(2) by (auto simp: sv2_def)
qed

lemma allow_list_fields:
  "allow_list pk ks s = Inr s' \<Longrightarrow> sv_lb s = None \<Longrightarrow>
     s' = s\<lparr>sv_allowed_clients := sv_allowed_clients s @ map (\<lambda>k. if k = ''none'' then key_zero else the (pk k)) ks\<rparr>
     \<and> (\<forall>k \<in> set ks. k = ''none'' \<or> pk k \<noteq> None)"
proof (induction ks arbitrary: s)
  case (Cons k ks)
  let ?pub = "if k = ''none'' then key_zero else the (pk k)"
  have k: "k = ''none'' \<or> pk k \<noteq> None" "allow_list pk ks (server_add_allowed ?pub s) = Inr s'"
    using Cons.prems(1) by (auto split: if_splits option.splits)
  then show ?case using Cons.IH [OF k(2)] Cons.prems(2) by (simp add: server_add_allowed_def)
qed simp

definition allow_keys :: "'w serve_env \<Rightarrow> serve_flags \<Rightarrow> key32 list" where
  "allow_keys env fl =
     (if sf_allow fl = [] then []
      else map (\<lambda>k. if k = ''none'' then key_zero else the (sn_parse_key env k)) (split_on CHR '','' (sf_allow fl)))"

definition plan_server ::
  "'w serve_env \<Rightarrow> serve_flags \<Rightarrow> serve_plan \<Rightarrow> ssh_options option \<Rightarrow> key32 \<Rightarrow> key32 \<Rightarrow> derp_region \<Rightarrow> cli_handler server" where
  "plan_server env fl p ssh priv psk reg =
     cli_server p ssh ((base_server priv psk False reg)\<lparr>sv_served_tcp := served_tcp_ports p, sv_allowed_clients := allow_keys env fl\<rparr>)"

lemma plan_server_fields [simp]:
  "sv_served_tcp (plan_server env fl p ssh priv psk reg) = served_tcp_ports p"
  "sv_tcp_listeners (plan_server env fl p ssh priv psk reg) = []"
  "sv_on_tcp (plan_server env fl p ssh priv psk reg) = Some (cli_on_tcp p ssh)"
  "sv_on_tcp_forward (plan_server env fl p ssh priv psk reg) \<noteq> None \<longleftrightarrow> ''exit-node'' \<in> sp_services p"
  "sv_allowed_clients (plan_server env fl p ssh priv psk reg) = allow_keys env fl"
  "sv_key (plan_server env fl p ssh priv psk reg) = priv"
  "sv_psk (plan_server env fl p ssh priv psk reg) = psk"
  "sv_region (plan_server env fl p ssh priv psk reg) = Some reg"
  "sv_lb (plan_server env fl p ssh priv psk reg) = None"
  by (simp_all add: plan_server_def cli_server_def base_server_def)

text \<open>The server that comes out, with everything the checks established.\<close>

lemma cli_serve_Inr:
  assumes "cli_serve env fl w = (w', Inr (addr, s))"
  obtains p name priv ci reg conn ssh where "serve_services env fl = Inr p" "serve_key env fl = Inr (name, priv, ci)"
    "serve_conn env fl priv ci w = (w', Inr (reg, conn))" "conn_addr (sn_marshal env) conn = Some addr"
    "cli_ssh_options env fl p = Inr ssh"
    "s = plan_server env fl p ssh priv (ci_psk ci) reg"
    "sf_allow fl \<noteq> [] \<longrightarrow> (\<forall>k \<in> set (split_on CHR '','' (sf_allow fl)). k = ''none'' \<or> sn_parse_key env k \<noteq> None)"
proof -
  obtain p name priv ci reg conn where p: "serve_services env fl = Inr p" "serve_key env fl = Inr (name, priv, ci)"
    "serve_conn env fl priv ci w = (w', Inr (reg, conn))" "conn_addr (sn_marshal env) conn = Some addr"
    "build_server env fl p priv (ci_psk ci) reg = Inr s"
    using assms by (auto simp: cli_serve_def split: sum.splits prod.splits option.splits)
  have psk: "sf_psk fl" using p(2) by (auto simp: serve_key_def split: if_splits)
  let ?s = "(base_server priv (ci_psk ci) False reg)\<lparr>sv_served_tcp := served_tcp_ports p\<rparr>"
  obtain s1 ssh where b: "(if sf_allow fl = [] then Inr ?s else allow_list (sn_parse_key env) (split_on CHR '','' (sf_allow fl)) ?s) = Inr s1"
    "cli_ssh_options env fl p = Inr ssh" "s = cli_server p ssh s1"
    using p(5) psk by (auto simp: build_server_def Let_def split: if_splits sum.splits)
  have lb: "sv_lb ?s = None" "sv_allowed_clients ?s = []" by (simp_all add: base_server_def)
  have "s1 = ?s\<lparr>sv_allowed_clients := allow_keys env fl\<rparr>
     \<and> (sf_allow fl \<noteq> [] \<longrightarrow> (\<forall>k \<in> set (split_on CHR '','' (sf_allow fl)). k = ''none'' \<or> sn_parse_key env k \<noteq> None))"
  proof (cases "sf_allow fl = []")
    case True
    then have "s1 = ?s" using b(1) by simp
    then show ?thesis using True by (simp add: base_server_def allow_keys_def)
  next
    case False
    then show ?thesis using allow_list_fields [of "sn_parse_key env" "split_on CHR '','' (sf_allow fl)" ?s s1] b(1) lb by (simp add: allow_keys_def)
  qed
  then show thesis using that [OF p(1-4) b(2)] b(3) by (simp add: plan_server_def)
qed

lemma cli_ssh_options_Inr:
  "cli_ssh_options env fl p = Inr ssh \<Longrightarrow> ssh \<noteq> None \<longleftrightarrow> ssh_services p"
  "cli_ssh_options env fl p = Inr (Some opts) \<Longrightarrow>
     so_keys opts = sp_keys p \<and> (so_shell opts \<longleftrightarrow> ''ssh'' \<in> sp_services p \<or> ''no-auth-ssh'' \<in> sp_services p)
     \<and> (so_files opts \<noteq> None \<longleftrightarrow> ''files'' \<in> sp_services p)
     \<and> so_exec opts = (case sp_exec p of Some c \<Rightarrow> if so_shell opts then c else [] | None \<Rightarrow> [])"
  by (auto simp: cli_ssh_options_def Let_def split: if_splits sum.splits option.splits)

section \<open>The packet filter and the callback\<close>

lemma served_tcp_exact:
  assumes "sp_services p \<subseteq> named_services" "ssh \<noteq> None \<longleftrightarrow> ssh_services p"
  shows "(case served_tcp_ports p of None \<Rightarrow> True | Some rs \<Rightarrow> list_ex (in_range q) rs) \<longleftrightarrow> cli_on_tcp p ssh q \<noteq> None"
proof (cases "one_shot_stdout p \<or> ''exit-node'' \<in> sp_services p \<or> ''exec'' \<in> sp_services p")
  case True
  then show ?thesis by (auto simp: served_tcp_ports_def cli_on_tcp_def)
next
  case False
  let ?ps = "sorted_list_of_set (sp_ports p)"
  let ?qs = "if ssh_services p \<and> 22 \<notin> sp_ports p then 22 # ?ps else ?ps"
  have a: "successively (\<lambda>a b. b \<noteq> 0 \<or> a \<noteq> -1) ?ps"
    by (rule successively_ascending) simp
  have "successively (\<lambda>a b. b \<noteq> 0 \<or> a \<noteq> -1) ?qs" using a by (auto simp: successively_Cons)
  note r = port_ranges_wf [OF this]
  have set: "q \<in> set ?qs \<longleftrightarrow> q \<in> sp_ports p \<or> q = 22 \<and> ssh_services p" for q by auto
  have "?qs \<noteq> []"
  proof
    assume "?qs = []"
    then have "set ?qs = {}" by simp
    then have "q \<notin> set ?qs" for q by (simp only: empty_iff not_False_eq_True)
    then have "\<not> (q \<in> sp_ports p \<or> q = 22 \<and> ssh_services p)" for q unfolding set .
    then have e: "sp_ports p = {}" "\<not> ssh_services p" by blast+
    have "sp_services p = {}" using e(2) False assms(1) by (auto simp: ssh_services_def named_services_def)
    then show False using e(1) False by (simp add: one_shot_stdout_def)
  qed
  then have ne: "port_ranges ?qs \<noteq> []" using r by blast
  have "served_tcp_ports p = (case port_ranges ?qs of [] \<Rightarrow> None | r # rs \<Rightarrow> Some (r # rs))"
    using False by (simp only: served_tcp_ports_def Let_def simp_thms if_True de_Morgan_disj)
  then have s: "served_tcp_ports p = Some (port_ranges ?qs)"
    using ne by (cases "port_ranges ?qs") simp_all
  show ?thesis unfolding s option.case using r set [of q] False assms(2) by (auto simp: cli_on_tcp_def)
qed

text \<open>C5. The packet filter that \<open>tailcat serve\<close> installs and the callback behind it agree: a TCP packet to
  a port of the server's own address passes the filter exactly when the flow it opens is handled,
  whatever ports and services are served, and the services that take any port leave it open.\<close>

theorem serve_gate_agrees:
  assumes "cli_serve env fl w = (w', Inr (addr, s))" "own_addr b" "tunnel_addr src" "tunnel_addr (lb_addr b)"
  shows "rules_admit (build_filter s b) TCP src (lb_addr b, q) \<longleftrightarrow> tcp_handler_for_flow s b (lb_addr b, q) \<noteq> None"
proof -
  obtain p ssh priv psk reg where p: "serve_services env fl = Inr p" "cli_ssh_options env fl p = Inr ssh"
    "s = plan_server env fl p ssh priv psk reg"
    by (rule cli_serve_Inr [OF assms(1)])
  obtain ports named where n: "parse_port_set (sn_ssh_built env) (sf_spec fl) = Inr (ports, named)"
    using p(1) by (cases "parse_port_set (sn_ssh_built env) (sf_spec fl)") (auto simp: serve_services_def)
  have "serves_tcp s q \<longleftrightarrow> cli_on_tcp p ssh q \<noteq> None"
    using served_tcp_exact [OF serve_services_sound(2) [OF p(1) n] cli_ssh_options_Inr(1) [OF p(2)], of q]
    by (simp add: serves_tcp_def p(3) split: option.splits)
  moreover have "''exit-node'' \<in> sp_services p \<Longrightarrow> cli_on_tcp p ssh q \<noteq> None" by (simp add: cli_on_tcp_def)
  moreover have "sv_on_tcp_forward s \<noteq> None \<longleftrightarrow> ''exit-node'' \<in> sp_services p" unfolding p(3) by (rule plan_server_fields)
  ultimately show ?thesis
    unfolding rules_admit_build(1) [OF assms(2-4)]
    by (auto simp: tcp_handler_for_flow_def listener_for_port_def p(3) split: option.splits)
qed


text \<open>C29. SSH is guarded as the command line says: behind the port-22 handler of a served server, a login
  asks for a key exactly when the \<open>ssh\<close> service was named, sessions without a key exist only for
  \<open>no-auth-ssh\<close>, a forced command is all that an SSH session can run and then no files are
  served, and without a shell service there are only the rooted files.\<close>

theorem cli_ssh_guarded:
  assumes "cli_serve env fl w = (w', Inr (addr, s))" "parse_port_set (sn_ssh_built env) (sf_spec fl) = Inr (ports, named)"
    "sv_on_tcp s = Some f" "f 22 = Some (SshConn opts)" "ssh_conn_handler pk host_keys opts = Some cfg"
  shows "(sc_auth cfg \<noteq> None \<longleftrightarrow> ''ssh'' \<in> named)
    \<and> (sc_auth cfg = None \<and> sc_sessions cfg \<noteq> NoSessions \<longrightarrow> ''no-auth-ssh'' \<in> named \<and> ''ssh'' \<notin> named)
    \<and> (''ssh'' \<in> named \<or> ''no-auth-ssh'' \<in> named \<longrightarrow>
         (case exec_ran env fl of
            Some c \<Rightarrow> sc_sessions cfg = ExecSessions c \<and> sc_sftp cfg = None
          | None \<Rightarrow> sc_sessions cfg = ShellSessions))
    \<and> (''ssh'' \<notin> named \<and> ''no-auth-ssh'' \<notin> named \<longrightarrow>
         sc_sessions cfg = NoSessions \<and> (\<exists>d. sc_sftp cfg = Some (RootedSftp d)))"
proof -
  obtain p ssh priv psk reg where p: "serve_services env fl = Inr p" "cli_ssh_options env fl p = Inr ssh"
    "s = plan_server env fl p ssh priv psk reg"
    by (rule cli_serve_Inr [OF assms(1)])
  have ssh: "ssh = Some opts"
    using assms(3,4) unfolding p(3) by (auto simp: cli_on_tcp_def local_port_def split: if_splits)
  note o = cli_ssh_options_Inr [OF p(2) [unfolded ssh]] and v = serve_services_sound [OF p(1) assms(2)]
  have named: "''ssh'' \<in> sp_services p \<longleftrightarrow> ''ssh'' \<in> named" "''no-auth-ssh'' \<in> sp_services p \<longleftrightarrow> ''no-auth-ssh'' \<in> named"
    using v(4) by auto
  have sh: "so_shell opts \<longleftrightarrow> ''ssh'' \<in> named \<or> ''no-auth-ssh'' \<in> named" using o named by simp
  have auth: "sc_auth cfg \<noteq> None \<longleftrightarrow> so_keys opts \<noteq> None"
    using assms(5) by (auto simp: ssh_conn_handler_def ssh_public_key_handler_def Let_def split: sum.splits option.splits)
  have ex: "so_exec opts = (case exec_ran env fl of Some c \<Rightarrow> if so_shell opts then c else [] | None \<Rightarrow> [])"
    using o v(3) by (auto split: option.splits)
  have nil: "exec_ran env fl \<noteq> Some []" using v(3,8) by simp
  have ss: "sc_sessions cfg = (if so_exec opts \<noteq> [] then ExecSessions (so_exec opts) else if so_shell opts then ShellSessions else NoSessions)"
    "so_exec opts \<noteq> [] \<longrightarrow> sc_sftp cfg = None"
    "so_exec opts = [] \<and> \<not> so_shell opts \<and> so_files opts \<noteq> None \<longrightarrow> (\<exists>d. sc_sftp cfg = Some (RootedSftp d))"
    using assms(5) by (auto simp: ssh_conn_handler_def sftp_subsystem_handler_def Let_def split: sum.splits option.splits)
  have files: "so_files opts \<noteq> None" if "\<not> so_shell opts"
    using o that ssh by (auto simp: ssh_services_def)
  show ?thesis
  proof (intro conjI impI)
    show "sc_auth cfg \<noteq> None \<longleftrightarrow> ''ssh'' \<in> named" using auth o v(5) by simp
    show "''no-auth-ssh'' \<in> named" "''ssh'' \<notin> named" if "sc_auth cfg = None \<and> sc_sessions cfg \<noteq> NoSessions"
      using that ss(1) sh ex auth o v(5) by (auto split: if_splits option.splits)
    show "case exec_ran env fl of Some c \<Rightarrow> sc_sessions cfg = ExecSessions c \<and> sc_sftp cfg = None | None \<Rightarrow> sc_sessions cfg = ShellSessions"
      if "''ssh'' \<in> named \<or> ''no-auth-ssh'' \<in> named"
      using that sh ex ss nil by (auto split: option.splits)
    show "sc_sessions cfg = NoSessions" "\<exists>d. sc_sftp cfg = Some (RootedSftp d)" if "''ssh'' \<notin> named \<and> ''no-auth-ssh'' \<notin> named"
      using that sh ex ss files by (auto split: option.splits)
  qed
qed


section \<open>The started server\<close>

text \<open>C30. The allow list is the one of the command line: a server that \<open>tailcat serve\<close> configured and
  started lets in exactly the listed keys, or every key without \<open>--allow\<close>; the word \<open>none\<close> alone lets
  in nobody but the zero key, and the announcement of a key that is not let in changes nothing and is
  not answered.\<close>

theorem cli_allow_exact:
  assumes "cli_serve env fl w = (w', Inr (addr, s))" "start_locked senv s v = Some (s', v', closed, None)"
  shows "\<exists>b. sv_lb s' = Some b
    \<and> (\<forall>k. allowed_in b k \<longleftrightarrow> sf_allow fl = []
          \<or> (\<exists>t \<in> set (split_on CHR '','' (sf_allow fl)). if t = ''none'' then k = key_zero else sn_parse_key env t = Some k))
    \<and> (\<forall>k. \<not> allowed_in b k \<longrightarrow> on_meow est hs now now2 race gap k disco b = Some (b, [], False))"
proof -
  obtain p ssh priv psk reg where p: "s = plan_server env fl p ssh priv psk reg"
    "sf_allow fl \<noteq> [] \<longrightarrow> (\<forall>k \<in> set (split_on CHR '','' (sf_allow fl)). k = ''none'' \<or> sn_parse_key env k \<noteq> None)"
    by (rule cli_serve_Inr [OF assms(1)])
  obtain g where g: "s' = s\<lparr>sv_lb := Some (started_backend senv s g), sv_filter := Some (build_filter s (start_backend senv s g))\<rparr>"
    by (rule start_locked_running [OF assms(2)])
  let ?b = "started_backend senv s g"
  obtain nm where "?b = (start_backend senv s g)\<lparr>lb_nm := Some nm\<rparr>" using started_backend by blast
  then have "lb_allowed ?b = allowed_of (allow_keys env fl)" by (simp add: p(1))
  then have a: "allowed_in ?b k \<longleftrightarrow> allow_keys env fl = [] \<or> k \<in> set (allow_keys env fl)" for k
    using allowed_of_iff [where ks = "allow_keys env fl" and k = k] by (simp add: allowed_in_def)
  have "allowed_in ?b k \<longleftrightarrow> sf_allow fl = []
      \<or> (\<exists>t \<in> set (split_on CHR '','' (sf_allow fl)). if t = ''none'' then k = key_zero else sn_parse_key env t = Some k)" for k
  proof (cases "sf_allow fl = []")
    case False
    let ?ts = "split_on CHR '','' (sf_allow fl)"
    have "k = (if t = ''none'' then key_zero else the (sn_parse_key env t)) \<longleftrightarrow>
        (if t = ''none'' then k = key_zero else sn_parse_key env t = Some k)" if "t \<in> set ?ts" for t
      using p(2) False that by (cases "t = ''none''") auto
    then have "k \<in> set (allow_keys env fl) \<longleftrightarrow> (\<exists>t \<in> set ?ts. if t = ''none'' then k = key_zero else sn_parse_key env t = Some k)"
      unfolding allow_keys_def if_not_P [OF False] set_map image_iff by (intro bex_cong refl) simp
    moreover have "allow_keys env fl \<noteq> []" using False by (simp add: allow_keys_def)
    ultimately show ?thesis using False by (simp only: a simp_thms)
  qed (simp add: a allow_keys_def)
  moreover have "\<not> allowed_in ?b k \<longrightarrow> on_meow est hs now now2 race gap k disco ?b = Some (?b, [], False)" for k
    by (intro impI) (simp only: on_meow_def not_allowed_iff if_True simp_thms)
  ultimately show ?thesis using g by simp
qed

lemma serve_conn_Inr:
  assumes "serve_conn env fl priv ci w = (w', Inr (reg, conn))"
  shows "ci_server_public conn = sn_public env priv \<and> ci_disco conn = sn_disco env priv \<and> ci_psk conn = ci_psk ci
    \<and> (ci_region conn = [reg] \<and> ci_region_id conn = 0 \<or> ci_region conn = [] \<and> ci_region_id conn = dr_id reg)"
  using assms
  by (auto simp: serve_conn_def Let_def zero_conn_info_def split: option.splits prod.splits sum.splits list.splits if_splits)

lemma serve_key_psk:
  "serve_key env fl = Inr (name, priv, ci) \<Longrightarrow> sn_new_psk env \<noteq> key_zero \<Longrightarrow> ci_psk ci \<noteq> key_zero"
  by (auto simp: serve_key_def new_private_key_def split: if_splits option.splits)

text \<open>The printed address is the running server's: it parses to the public key, discovery key and
  secret that the started server uses, and it names the server's one relay region, either by the id
  in the public map or as the embedded region.\<close>

theorem cli_address_matches:
  assumes "cli_serve env fl w = (w', Inr (addr, s))" "start_locked senv s v = Some (s', v', closed, None)"
    "se_public senv = sn_public env" "se_disco senv = sn_disco env" "sv_key s \<noteq> key_zero" "sn_new_psk env \<noteq> key_zero"
    "\<And>k. sn_public env k \<noteq> key_zero \<and> sn_disco env k \<noteq> key_zero"
    "\<And>c x. sn_marshal env (wire_of c) = Some x \<Longrightarrow> unmarshal x = Some (wire_of c)" "length addr \<le> 65536"
  shows "\<exists>ci b reg. parse_conn_addr unmarshal addr = Inr ci \<and> sv_lb s' = Some b
    \<and> ci_server_public ci = lb_pub b \<and> ci_disco ci = lb_disco_public b \<and> ci_psk ci = lb_psk b
    \<and> lb_dm b = Some [(dr_id reg, reg)]
    \<and> (ci_region ci = [] \<and> ci_region_id ci = dr_id reg \<or> ci_region ci = [carried_region 0 reg] \<and> ci_region_id ci = 0)"
proof -
  obtain p name priv ci reg conn ssh where p: "serve_key env fl = Inr (name, priv, ci)"
    "serve_conn env fl priv ci w = (w', Inr (reg, conn))" "conn_addr (sn_marshal env) conn = Some addr"
    "s = plan_server env fl p ssh priv (ci_psk ci) reg"
    by (rule cli_serve_Inr [OF assms(1)])
  obtain g where g: "start_region senv s v = Some (v', Inr g)"
    "s' = s\<lparr>sv_lb := Some (started_backend senv s g), sv_filter := Some (build_filter s (start_backend senv s g))\<rparr>"
    by (rule start_locked_running [OF assms(2)])
  have reg: "g = reg" using g(1) by (simp add: start_region_def p(4))
  have psk: "ci_psk ci \<noteq> key_zero" by (rule serve_key_psk [OF p(1) assms(6)])
  note c = serve_conn_Inr [OF p(2)]
  have ad: "addressable conn" using c psk assms(7) by (simp add: addressable_def)
  obtain x where x: "sn_marshal env (wire_of conn) = Some x" using p(3) by (auto simp: conn_addr_def split: option.splits)
  have "parse_wire unmarshal addr = Inr (wire_of conn)"
    by (rule parse_wire_encode [where marshal = "sn_marshal env"]) (use ad x assms(8) [OF x] p(3) assms(9) in simp_all)
  then have "parse_conn_addr unmarshal addr = Inr (carried conn)" by (rule parse_conn_addr_wire_of [OF ad])
  moreover obtain nm where "started_backend senv s g = (start_backend senv s g)\<lparr>lb_nm := Some nm\<rparr>" using started_backend by blast
  moreover have "start_priv senv s = priv" "start_psk senv s = ci_psk ci"
    using assms(5) psk by (simp_all add: start_priv_def start_psk_def p(4) key_is_zero_def psk_is_zero_iff)
  ultimately show ?thesis
    using c assms(3,4) reg g(2) by (auto simp: carried_def)
qed


section \<open>A concrete server\<close>

text \<open>\<open>tailcat serve --allow=none,nodekey:k 80,no-auth-ssh\<close> with a fresh key.\<close>

definition sample_flags :: serve_flags where
  "sample_flags =
     \<lparr>sf_spec = ''80,no-auth-ssh'', sf_exec = None, sf_files = [], sf_auth_keys = [], sf_psk = True, sf_key = [],
      sf_full_address = False, sf_allow = ''none,nodekey:k''\<rparr>"

definition sample_conn :: conn_info where
  "sample_conn =
     \<lparr>ci_server_public = replicate 32 2, ci_disco = replicate 32 5, ci_psk = replicate 32 3, ci_region = [], ci_region_id = 9\<rparr>"

definition sample_serve_env :: "unit serve_env" where
  "sample_serve_env =
     \<lparr>sn_ssh_built = True, sn_ssh_os = True, sn_look_path = (\<lambda>c. None), sn_load_keys = (\<lambda>f. None), sn_conf_dir = ''/c'',
      sn_stat_default = Some False, sn_read_file = (\<lambda>f. None), sn_json_key = (\<lambda>j. None), sn_new_node = replicate 32 1,
      sn_new_psk = replicate 32 3, sn_public = (\<lambda>k. replicate 32 2), sn_disco = (\<lambda>k. replicate 32 5),
      sn_expand = (\<lambda>ci w. (w, Inr (ci\<lparr>ci_region_id := 0, ci_region := [sample_region]\<rparr>))), sn_marshal = (\<lambda>c. if c = wire_of sample_conn then Some [1] else None),
      sn_dev_region = None, sn_parse_key = (\<lambda>t. if t = ''nodekey:k'' then Some (replicate 32 7) else None),
      sn_abs = (\<lambda>d. None), sn_is_dir = (\<lambda>d. None)\<rparr>"

definition sample_plan :: serve_plan where
  "sample_plan = \<lparr>sp_ports = {80}, sp_services = {''no-auth-ssh''}, sp_exec = None, sp_keys = None\<rparr>"

definition sample_ssh :: ssh_options where
  "sample_ssh = \<lparr>so_shell = True, so_exec = [], so_keys = None, so_files = None\<rparr>"

definition sample_cli_server :: "cli_handler server" where
  "sample_cli_server =
     plan_server sample_serve_env sample_flags sample_plan (Some sample_ssh) (replicate 32 1) (replicate 32 3)
       (clear_unnecessary_region_fields sample_region)"

lemma sample_spec: "parse_port_set True ''80,no-auth-ssh'' = Inr ({80}, {''no-auth-ssh''})"
proof -
  have t: "trim_space ''80,no-auth-ssh'' = ''80,no-auth-ssh''" "trim_space ''80'' = ''80''"
    "trim_space ''no-auth-ssh'' = ''no-auth-ssh''"
    by (rule trim_space_visible, simp add: visible_def)+
  have "split_on CHR '','' ''80,no-auth-ssh'' = [''80'', ''no-auth-ssh'']" by code_simp
  moreover have "port_bounds ''80'' = Inr (80, 80)"
    by (simp add: port_bounds_num parse_uint_def digits_val_def digit_val_def is_digit_def)
  ultimately show ?thesis by (simp add: parse_port_set_def t add_entry_def add_range_def)
qed

lemma sample_services: "serve_services sample_serve_env sample_flags = Inr sample_plan"
  using sample_spec
  by (simp add: serve_services_def sample_serve_env_def sample_flags_def exec_service_def check_services_def sample_plan_def)

lemma sample_allow: "split_on CHR '','' ''none,nodekey:k'' = [''none'', ''nodekey:k'']"
  by code_simp

lemma sample_cli_serve:
  "cli_serve sample_serve_env sample_flags () = ((), Inr (h3_address_prefix @ b64_encode [1], sample_cli_server))"
proof -
  let ?ci = "\<lparr>ci_server_public = replicate 32 2, ci_disco = replicate 32 5, ci_psk = replicate 32 3, ci_region = [], ci_region_id = -1\<rparr>"
  have k: "serve_key sample_serve_env sample_flags = Inr (''new'', replicate 32 1, ?ci)"
    by (simp add: serve_key_def sample_serve_env_def sample_flags_def new_private_key_def)
  have c: "serve_conn sample_serve_env sample_flags (replicate 32 1) ?ci () =
     ((), Inr (clear_unnecessary_region_fields sample_region,
        sample_conn))"
    by (simp add: serve_conn_def sample_conn_def sample_serve_env_def sample_flags_def zero_conn_info_def clear_unnecessary_region_fields_def
        sample_region_def Let_def)
  have o: "cli_ssh_options sample_serve_env sample_flags sample_plan = Inr (Some sample_ssh)"
    by (simp add: cli_ssh_options_def ssh_services_def sample_plan_def sample_ssh_def)
  have b: "build_server sample_serve_env sample_flags sample_plan (replicate 32 1) (replicate 32 3) reg =
      Inr (plan_server sample_serve_env sample_flags sample_plan (Some sample_ssh) (replicate 32 1) (replicate 32 3) reg)" for reg
    using o
    by (simp add: build_server_def ssh_services_def plan_server_def allow_keys_def sample_allow server_add_allowed_def
        base_server_def Let_def sample_serve_env_def sample_flags_def)
  have m: "sn_marshal sample_serve_env (wire_of sample_conn) = Some [1]" by (simp add: sample_serve_env_def)
  show ?thesis
    by (simp add: cli_serve_def sample_services k c b conn_addr_def sample_cli_server_def m)
qed

definition sample_senv :: "unit start_env" where
  "sample_senv =
     \<lparr>se_new_node = replicate 32 1, se_new_psk = replicate 32 3, se_nonce = replicate 32 4, se_public = sn_public sample_serve_env,
      se_disco = sn_disco sample_serve_env, se_mc_disco = replicate 32 5, se_expand = sn_expand sample_serve_env,
      se_netmon_ok = True, se_engine_ok = True, se_netstack_ok = True, se_ns_start_ok = True, se_reconfig_ok = True\<rparr>"

lemma sample_cli_start:
  "\<exists>s'. start_locked sample_senv sample_cli_server () = Some (s', (), False, None)"
proof -
  let ?g = "clear_unnecessary_region_fields sample_region"
  have r: "start_region sample_senv sample_cli_server () = Some ((), Inr ?g)"
    by (simp add: start_region_def sample_cli_server_def)
  have d: "dr_id ?g \<noteq> 0" by (simp add: clear_unnecessary_region_fields_def sample_region_def)
  have c: "sv_lb sample_cli_server = None" "\<not> sv_udp_idle sample_cli_server < 0" "\<not> sv_disable_psk sample_cli_server"
    by (simp_all add: sample_cli_server_def) (simp_all add: plan_server_def cli_server_def base_server_def)
  have "se_netmon_ok sample_senv" "se_engine_ok sample_senv" "se_netstack_ok sample_senv" "se_ns_start_ok sample_senv" "se_reconfig_ok sample_senv"
    by (simp_all add: sample_senv_def)
  then show ?thesis using start_locked_region [OF r d c] by (simp add: Let_def)
qed


lemma sample_on_tcp: "sv_on_tcp sample_cli_server = Some (cli_on_tcp sample_plan (Some sample_ssh))"
  by (simp add: sample_cli_server_def)

theorem serve_gate_agrees_witness:
  "rules_admit (build_filter sample_cli_server sample_own) TCP (IP6 (zero_bytes 16) []) (lb_addr sample_own, 22)
   \<and> \<not> rules_admit (build_filter sample_cli_server sample_own) TCP (IP6 (zero_bytes 16) []) (lb_addr sample_own, 443)"
proof -
  have a: "tunnel_addr (lb_addr sample_own)"
    by (simp add: sample_own_def new_loco_backend_def Let_def tc_addr_bytes)
  have z: "tunnel_addr (IP6 (zero_bytes 16) [])" by simp
  have l: "sv_tcp_listeners sample_cli_server = []" by (simp add: sample_cli_server_def)
  note x = serve_gate_agrees [OF sample_cli_serve sample_own_addr z a]
  have "tcp_handler_for_flow sample_cli_server sample_own (lb_addr sample_own, 22) \<noteq> None"
    "tcp_handler_for_flow sample_cli_server sample_own (lb_addr sample_own, 443) = None"
    by (simp_all add: tcp_handler_for_flow_def listener_for_port_def l sample_on_tcp cli_on_tcp_def sample_plan_def one_shot_stdout_def)
  then show ?thesis unfolding x by blast
qed

theorem cli_ssh_guarded_witness:
  "\<exists>cfg. ssh_conn_handler sample_pk (Some [[1]]) sample_ssh = Some cfg \<and> sc_auth cfg = None \<and> sc_sessions cfg = ShellSessions"
proof -
  obtain cfg where c: "ssh_conn_handler sample_pk (Some [[1]]) sample_ssh = Some cfg"
    by (simp add: ssh_conn_handler_def ssh_public_key_handler_def Let_def sample_ssh_def)
  have p: "parse_port_set (sn_ssh_built sample_serve_env) (sf_spec sample_flags) = Inr ({80}, {''no-auth-ssh''})"
    using sample_spec by (simp add: sample_serve_env_def sample_flags_def)
  have f: "cli_on_tcp sample_plan (Some sample_ssh) 22 = Some (SshConn sample_ssh)" by (simp add: cli_on_tcp_def)
  have e: "exec_ran sample_serve_env sample_flags = None" by (simp add: exec_ran_def sample_flags_def)
  from cli_ssh_guarded [OF sample_cli_serve p sample_on_tcp f c] c e show ?thesis by simp
qed

theorem cli_allow_exact_witness:
  "\<exists>s' b. start_locked sample_senv sample_cli_server () = Some (s', (), False, None) \<and> sv_lb s' = Some b
     \<and> allowed_in b (replicate 32 7) \<and> \<not> allowed_in b (replicate 32 8)"
proof -
  obtain s' where s: "start_locked sample_senv sample_cli_server () = Some (s', (), False, None)" using sample_cli_start by blast
  have a: "sf_allow sample_flags = ''none,nodekey:k''" "sn_parse_key sample_serve_env ''nodekey:k'' = Some (replicate 32 7)"
    by (simp_all add: sample_flags_def sample_serve_env_def)
  have r: "replicate 32 (7 :: byte) \<noteq> replicate 32 8" "replicate 32 (8 :: byte) \<noteq> key_zero" by (simp_all add: key_zero_def)
  from cli_allow_exact [OF sample_cli_serve s, of undefined undefined undefined undefined undefined undefined undefined]
  obtain b where b: "sv_lb s' = Some b" "\<forall>k. allowed_in b k \<longleftrightarrow> (\<exists>t \<in> {''none'', ''nodekey:k''}.
      if t = ''none'' then k = key_zero else sn_parse_key sample_serve_env t = Some k)"
    unfolding a sample_allow by auto
  have "allowed_in b (replicate 32 7)" "\<not> allowed_in b (replicate 32 8)"
    using b(2) a(2) r by auto
  then show ?thesis using s b(1) by blast
qed

theorem cli_address_matches_witness:
  "\<exists>ci. parse_conn_addr (\<lambda>x. Some (wire_of sample_conn)) (h3_address_prefix @ b64_encode [1]) = Inr ci
     \<and> ci_server_public ci = replicate 32 2 \<and> ci_psk ci = replicate 32 3 \<and> ci_region_id ci = 9"
proof -
  obtain s' where s: "start_locked sample_senv sample_cli_server () = Some (s', (), False, None)" using sample_cli_start by blast
  have k: "sv_key sample_cli_server \<noteq> key_zero" "sn_new_psk sample_serve_env \<noteq> key_zero"
    "sn_public sample_serve_env k \<noteq> key_zero \<and> sn_disco sample_serve_env k \<noteq> key_zero" for k
    by (simp_all add: sample_cli_server_def sample_serve_env_def key_zero_def)
  have m: "sn_marshal sample_serve_env (wire_of c) = Some x \<Longrightarrow> Some (wire_of sample_conn) = Some (wire_of c)" for c x
    by (simp add: sample_serve_env_def split: if_splits)
  have len: "length (h3_address_prefix @ b64_encode [1]) \<le> 65536" by (simp add: h3_address_prefix_def)
  have e: "se_public sample_senv = sn_public sample_serve_env" "se_disco sample_senv = sn_disco sample_serve_env"
    by (simp_all add: sample_senv_def)
  have "\<exists>ci b reg. parse_conn_addr (\<lambda>x. Some (wire_of sample_conn)) (h3_address_prefix @ b64_encode [1]) = Inr ci \<and> sv_lb s' = Some b
    \<and> ci_server_public ci = lb_pub b \<and> ci_disco ci = lb_disco_public b \<and> ci_psk ci = lb_psk b
    \<and> lb_dm b = Some [(dr_id reg, reg)]
    \<and> (ci_region ci = [] \<and> ci_region_id ci = dr_id reg \<or> ci_region ci = [carried_region 0 reg] \<and> ci_region_id ci = 0)"
    by (rule cli_address_matches [OF sample_cli_serve s e k]) (use m len in simp_all)
  then obtain ci b reg where c: "parse_conn_addr (\<lambda>x. Some (wire_of sample_conn)) (h3_address_prefix @ b64_encode [1]) = Inr ci"
    "sv_lb s' = Some b" "ci_server_public ci = lb_pub b" "ci_psk ci = lb_psk b" "lb_dm b = Some [(dr_id reg, reg)]"
    "ci_region ci = [] \<and> ci_region_id ci = dr_id reg \<or> ci_region ci = [carried_region 0 reg] \<and> ci_region_id ci = 0"
    by blast
  have ad: "addressable sample_conn" by (simp add: addressable_def sample_conn_def key_zero_def)
  have "parse_wire (\<lambda>x. Some (wire_of sample_conn)) (h3_address_prefix @ b64_encode [1]) = Inr (wire_of sample_conn)"
    by (rule parse_wire_encode [OF ad, of "\<lambda>w. Some [1]" "[1]"]) (simp_all add: conn_addr_def h3_address_prefix_def)
  then have "ci = carried sample_conn" using parse_conn_addr_wire_of [OF ad] c(1) by simp
  then show ?thesis using c(1) by (auto simp: carried_def sample_conn_def)
qed

end
