(* ===== verification/CliGenkey.thy ===== *)
theory CliGenkey
  imports CliServer
begin

text \<open>
  \<open>tailcat genkey\<close> (\<open>genKey\<close> in \<open>cmd/tailcat/tailcat.go\<close>): the checks between its flags, the choice of
  the relay region and the key file it writes, and what \<open>tailcat serve\<close> then makes of that file. The
  key directory is a map from paths to the keys their JSON holds; the DERP map fetch, the region
  probe and \<open>mem.ContainsFold\<close> are parameters. A usage error, a \<open>log.Fatal\<close> and an early exit are
  values of one type.
\<close>

section \<open>Numbers and folding\<close>

text \<open>\<open>strconv.Atoi\<close>.\<close>

definition atoi :: "string \<Rightarrow> int option" where
  "atoi s =
     (let (neg, ds) = (case s of c # cs \<Rightarrow> if c = CHR ''-'' then (True, cs) else if c = CHR ''+'' then (False, cs) else (False, s)
                       | [] \<Rightarrow> (False, []));
          n = int (digits_val ds); v = (if neg then - n else n)
      in if ds \<noteq> [] \<and> list_all is_digit ds \<and> - (2 ^ 63) \<le> v \<and> v < 2 ^ 63 then Some v else None)"

text \<open>\<open>strings.EqualFold\<close>: bytes as long as both are ASCII, then \<open>uni\<close>, the comparison by Unicode
  folding.\<close>

fun equal_fold :: "(string \<Rightarrow> string \<Rightarrow> bool) \<Rightarrow> string \<Rightarrow> string \<Rightarrow> bool" where
  "equal_fold uni [] t = (t = [])"
| "equal_fold uni s [] = (s = [])"
| "equal_fold uni (a # s) (b # t) =
     (if 128 \<le> (of_char a :: nat) \<or> 128 \<le> (of_char b :: nat) then uni (a # s) (b # t)
      else if a = b \<or> is_upper a \<and> (of_char b :: nat) = of_char a + 32 \<or> is_upper b \<and> (of_char a :: nat) = of_char b + 32
      then equal_fold uni s t
      else False)"

definition find_region_id ::
  "(string \<Rightarrow> string \<Rightarrow> bool) \<Rightarrow> (string \<Rightarrow> string \<Rightarrow> bool) \<Rightarrow> derp_map \<Rightarrow> string \<Rightarrow> int" where
  "find_region_id uni contains_fold dm s =
     (if s = ''list'' then 0
      else
        (case find (\<lambda>(k, r). equal_fold uni (dr_code r) s) dm of
           Some (k, r) \<Rightarrow> dr_id r
         | None \<Rightarrow>
             (case find (\<lambda>(k, r). contains_fold (dr_name r) s) dm of
                Some (k, r) \<Rightarrow> dr_id r
              | None \<Rightarrow> 0)))"

section \<open>The command\<close>

record genkey_flags =
  gk_global_key :: string
  gk_args :: "string list"
  gk_key :: string
  gk_client :: bool
  gk_force :: bool
  gk_delete :: bool
  gk_list :: bool
  gk_region :: string
  gk_fixed :: bool
  gk_embed :: bool
  gk_psk :: bool
  gk_set :: "string set"

record 'w genkey_env =
  ge_conf_dir :: string
  ge_names :: "string list option"
  ge_mkdir_ok :: bool
  ge_remove_ok :: bool
  ge_write_ok :: bool
  ge_new_node :: key32
  ge_new_psk :: key32
  ge_public :: "key32 \<Rightarrow> key32"
  ge_disco :: "key32 \<Rightarrow> key32"
  ge_fetch :: "'w \<Rightarrow> 'w \<times> (fetch_error + derp_map)"
  ge_pick :: "derp_map \<Rightarrow> expand_error + int"
  ge_uni :: "string \<Rightarrow> string \<Rightarrow> bool"
  ge_contains :: "string \<Rightarrow> string \<Rightarrow> bool"

datatype genkey_stop = KeyBeforeCommand | TakesNoArgs | DeleteWhich | DeletesPath | KeyRequired | ClientNoFlag string
  | ClientNoPsk | ClientDefault | FixedAndRegion | EmbedAuto | EmbedHosts | KeyDir | KeyExists | GenkeyNeedsPsk
  | GenkeyFetch fetch_error | GenkeyProbe expand_error | NoClosestRegion | NoRegionMatch | RegionsListed | NoSuchRegion
  | ReadNames | RemoveKey | WriteKey

datatype genkey_done = Names "string list" | Removed | ClientKey key32 | ServerKey conn_info

type_synonym key_files = "(string, key32 \<times> conn_info) gomap"

text \<open>The names of \<open>--list\<close>; \<open>ge_names\<close> is the directory listing, which may be missing.\<close>

definition key_names :: "string list \<Rightarrow> string list" where
  "key_names ents = List.map_filter (\<lambda>e. cut_suffix e ''.private.json'') ents"

text \<open>The checks between the flags and the region they leave, up to the key's path.\<close>

definition genkey_check :: "genkey_flags \<Rightarrow> genkey_stop + string" where
  "genkey_check fl =
     (if gk_key fl = [] \<and> gk_region fl \<noteq> ''list'' then Inl KeyRequired
      else
        case (if gk_client fl then
                (case find (\<lambda>n. n \<in> gk_set fl) [''region'', ''fixed-region'', ''embed-derp-map''] of
                   Some n \<Rightarrow> Some (ClientNoFlag n)
                 | None \<Rightarrow> if ''psk'' \<in> gk_set fl then Some ClientNoPsk
                           else if gk_key fl = ''default'' then Some ClientDefault else None)
              else None) of
          Some e \<Rightarrow> Inl e
        | None \<Rightarrow>
            if gk_fixed fl \<and> ''region'' \<in> gk_set fl then Inl FixedAndRegion
            else
              let region = (if gk_fixed fl then [] else gk_region fl)
              in if gk_embed fl then
                   (if ''region'' \<in> gk_set fl \<and> region = ''auto'' then Inl EmbedAuto
                    else if CHR ''.'' \<in> set region then Inl EmbedHosts
                    else if ''region'' \<notin> gk_set fl then Inr []
                    else Inr region)
                 else Inr region)"

text \<open>The region of a server key.\<close>

definition host_region :: "string \<Rightarrow> derp_region" where
  "host_region region =
     \<lparr>dr_id = 0, dr_code = [], dr_name = [], dr_latitude = 0, dr_longitude = 0,
      dr_nodes = map (\<lambda>h. \<lparr>dn_name = [], dn_region_id = 0, dn_host = h, dn_cert = [], dn_ipv4 = [], dn_ipv6 = [],
        dn_stun_port = 0, dn_derp_port = 0, dn_insecure = False, dn_stun_only = False, dn_can_port80 = False\<rparr>)
        (split_on CHR '','' region)\<rparr>"

definition region_match :: "string \<Rightarrow> string" where
  "region_match region =
     (if region = ''auto'' \<or> atoi region \<noteq> None \<or> CHR ''.'' \<in> set region then [] else region)"

definition named_region :: "string \<Rightarrow> conn_info \<Rightarrow> conn_info" where
  "named_region region ci =
     (if region = ''auto'' then ci\<lparr>ci_region_id := -1\<rparr>
      else
        (case atoi region of
           Some n \<Rightarrow> ci\<lparr>ci_region_id := n\<rparr>
         | None \<Rightarrow> if CHR ''.'' \<in> set region then ci\<lparr>ci_region := ci_region ci @ [host_region region]\<rparr> else ci))"

definition embed_region :: "derp_map \<Rightarrow> conn_info \<Rightarrow> genkey_stop + conn_info" where
  "embed_region dm ci =
     (case mget dm (ci_region_id ci) of
        None \<Rightarrow> Inl NoSuchRegion
      | Some r \<Rightarrow>
          Inr (ci\<lparr>ci_region := ci_region ci @ [r\<lparr>dr_nodes := map (\<lambda>n. n\<lparr>dn_ipv6 := []\<rparr>) (take 2 (dr_nodes r))\<rparr>],
                 ci_region_id := 0\<rparr>))"

definition map_region :: "'w genkey_env \<Rightarrow> bool \<Rightarrow> string \<Rightarrow> derp_map \<Rightarrow> conn_info \<Rightarrow> genkey_stop + conn_info" where
  "map_region env emb region dm ci =
     (case (if region = [] then
              (case ge_pick env dm of
                 Inl e \<Rightarrow> Inl (GenkeyProbe e)
               | Inr rid \<Rightarrow> if rid = 0 then Inl NoClosestRegion else Inr (ci\<lparr>ci_region_id := rid\<rparr>))
            else Inr ci) of
        Inl e \<Rightarrow> Inl e
      | Inr ci \<Rightarrow>
          (case (if region_match region \<noteq> [] then
                   (let rid = find_region_id (ge_uni env) (ge_contains env) dm (region_match region)
                    in if rid = 0 then Inl (if region_match region = ''list'' then RegionsListed else NoRegionMatch)
                       else Inr (ci\<lparr>ci_region_id := rid\<rparr>))
                 else Inr ci) of
             Inl e \<Rightarrow> Inl e
           | Inr ci \<Rightarrow> if emb then embed_region dm ci else Inr ci))"

definition genkey_region ::
  "'w genkey_env \<Rightarrow> bool \<Rightarrow> string \<Rightarrow> conn_info \<Rightarrow> 'w \<Rightarrow> 'w \<times> (genkey_stop + conn_info)" where
  "genkey_region env emb region ci w =
     (let ci = named_region region ci
      in if region_match region \<noteq> [] \<or> region = [] \<or> emb then
           (case ge_fetch env w of
              (w, Inl e) \<Rightarrow> (w, Inl (GenkeyFetch e))
            | (w, Inr dm) \<Rightarrow> (w, map_region env emb region dm ci))
         else (w, map_region env emb region [] ci))"

text \<open>Writing the file, with the key it holds.\<close>

definition write_key :: "bool \<Rightarrow> string \<Rightarrow> key32 \<times> conn_info \<Rightarrow> genkey_done \<Rightarrow> key_files \<Rightarrow> key_files \<times> (genkey_stop + genkey_done)" where
  "write_key ok path pk res fs = (if ok then (mset_key path pk fs, Inr res) else (fs, Inl WriteKey))"

definition create_key ::
  "'w genkey_env \<Rightarrow> genkey_flags \<Rightarrow> string \<Rightarrow> key_files \<Rightarrow> 'w \<Rightarrow> (key_files \<times> 'w) \<times> (genkey_stop + genkey_done)" where
  "create_key env fl region fs w =
     (let path = key_path (ge_conf_dir env) (gk_key fl)
      in if \<not> key_is_path (gk_key fl) \<and> \<not> ge_mkdir_ok env then ((fs, w), Inl KeyDir)
         else if mget fs path \<noteq> None \<and> \<not> gk_force fl \<and> region \<noteq> ''list'' then ((fs, w), Inl KeyExists)
         else if \<not> gk_psk fl then ((fs, w), Inl GenkeyNeedsPsk)
         else
           (case new_private_key (ge_public env) (ge_disco env) (ge_new_node env) (ge_new_psk env) of
              (priv, ci) \<Rightarrow>
                if gk_client fl then
                  (case write_key (ge_write_ok env) path (priv, ci) (ClientKey (ge_public env priv)) fs of (fs, r) \<Rightarrow> ((fs, w), r))
                else
                  (case genkey_region env (gk_embed fl) region ci w of
                     (w, Inl e) \<Rightarrow> ((fs, w), Inl e)
                   | (w, Inr ci) \<Rightarrow>
                       (case write_key (ge_write_ok env) path (priv, ci) (ServerKey ci) fs of (fs, r) \<Rightarrow> ((fs, w), r)))))"

definition gen_key ::
  "'w genkey_env \<Rightarrow> genkey_flags \<Rightarrow> key_files \<Rightarrow> 'w \<Rightarrow> (key_files \<times> 'w) \<times> (genkey_stop + genkey_done)" where
  "gen_key env fl fs w =
     (if gk_global_key fl \<noteq> [] then ((fs, w), Inl KeyBeforeCommand)
      else if gk_args fl \<noteq> [] then ((fs, w), Inl TakesNoArgs)
      else if gk_list fl then
        ((fs, w), (case ge_names env of None \<Rightarrow> Inl ReadNames | Some ents \<Rightarrow> Inr (Names (key_names ents))))
      else if gk_delete fl then
        (if gk_key fl = [] then ((fs, w), Inl DeleteWhich)
         else if key_is_path (gk_key fl) then ((fs, w), Inl DeletesPath)
         else
           let path = key_path (ge_conf_dir env) (gk_key fl)
           in if ge_remove_ok env \<and> mget fs path \<noteq> None then ((mdel path fs, w), Inr Removed)
              else ((fs, w), Inl RemoveKey))
      else
        (case genkey_check fl of
           Inl e \<Rightarrow> ((fs, w), Inl e)
         | Inr region \<Rightarrow> create_key env fl region fs w))"


section \<open>Lemmas\<close>

text \<open>Only the \<open>--region\<close> flag itself changes the region from its default.\<close>

definition flags_ok :: "genkey_flags \<Rightarrow> bool" where
  "flags_ok fl = (''region'' \<notin> gk_set fl \<longrightarrow> gk_region fl = ''auto'')"

lemma atoi_letter: "\<not> is_digit c \<Longrightarrow> c \<noteq> CHR ''-'' \<Longrightarrow> c \<noteq> CHR ''+'' \<Longrightarrow> atoi (c # s) = None"
  by (simp add: atoi_def)

lemma region_match_list: "region_match ''list'' = ''list''"
  by (simp add: region_match_def atoi_letter is_digit_def)

lemma map_region_list: "map_region env emb ''list'' dm ci = Inl RegionsListed"
  by (simp add: map_region_def region_match_list find_region_id_def)

lemma genkey_region_list: "genkey_region env emb ''list'' ci w \<noteq> (w', Inr ci')"
  by (auto simp: genkey_region_def region_match_list map_region_list split: prod.splits sum.splits)

lemma genkey_check_client:
  "genkey_check fl = Inr region \<Longrightarrow> gk_client fl \<Longrightarrow> flags_ok fl \<Longrightarrow> region \<noteq> ''list''"
  by (auto simp: genkey_check_def flags_ok_def Let_def find_None_iff split: if_splits option.splits)

lemma create_key_cases:
  assumes "create_key env fl region fs w = ((fs', w'), r)" "gk_client fl \<longrightarrow> region \<noteq> ''list''"
  shows "fs' = fs \<and> (\<exists>e. r = Inl e)
    \<or> (\<exists>ci res. r = Inr res \<and> fs' = mset_key (key_path (ge_conf_dir env) (gk_key fl)) (ge_new_node env, ci) fs
        \<and> (mget fs (key_path (ge_conf_dir env) (gk_key fl)) = None \<or> gk_force fl)
        \<and> (if gk_client fl then res = ClientKey (ge_public env (ge_new_node env))
            else res = ServerKey ci \<and> genkey_region env (gk_embed fl) region
                   (snd (new_private_key (ge_public env) (ge_disco env) (ge_new_node env) (ge_new_psk env))) w = (w', Inr ci)))"
proof (cases "region = ''list''")
  case True
  then have c: "\<not> gk_client fl" using assms(2) by blast
  show ?thesis
    using assms(1) c genkey_region_list [of env "gk_embed fl"] True
    by (auto simp: create_key_def Let_def new_private_key_def write_key_def split: if_splits prod.splits sum.splits)
next
  case False
  then show ?thesis
    using assms(1)
    by (auto simp: create_key_def Let_def new_private_key_def write_key_def split: if_splits prod.splits sum.splits)
qed



definition sample_genkey_env :: "unit genkey_env" where
  "sample_genkey_env =
     \<lparr>ge_conf_dir = ''/c'', ge_names = Some [], ge_mkdir_ok = True, ge_remove_ok = True, ge_write_ok = True,
      ge_new_node = replicate 32 1, ge_new_psk = replicate 32 3, ge_public = (\<lambda>k. replicate 32 2), ge_disco = (\<lambda>k. replicate 32 5),
      ge_fetch = (\<lambda>w. (w, Inr [(9, sample_region)])), ge_pick = (\<lambda>dm. Inr 9), ge_uni = (=), ge_contains = (=)\<rparr>"

definition sample_genkey_flags :: "string \<Rightarrow> genkey_flags" where
  "sample_genkey_flags region =
     \<lparr>gk_global_key = [], gk_args = [], gk_key = ''a'', gk_client = False, gk_force = True, gk_delete = False, gk_list = False,
      gk_region = region, gk_fixed = False, gk_embed = False, gk_psk = True, gk_set = {''region''}\<rparr>"

lemma sample_key_path: "key_path ''/c'' ''a'' = ''/c/tailcat/keys/a.private.json''"
  by (simp add: key_path_def key_is_path_def contains_any_def)

lemma sample_gen_key:
  "genkey_region sample_genkey_env False region
      \<lparr>ci_server_public = replicate 32 2, ci_disco = replicate 32 5, ci_psk = replicate 32 3, ci_region = [], ci_region_id = 0\<rparr> ()
     = ((), Inr ci) \<Longrightarrow> region \<noteq> [] \<Longrightarrow>
   gen_key sample_genkey_env (sample_genkey_flags region) fs () =
     ((mset_key ''/c/tailcat/keys/a.private.json'' (replicate 32 1, ci) fs, ()), Inr (ServerKey ci))"
  by (simp add: gen_key_def genkey_check_def create_key_def write_key_def new_private_key_def sample_key_path
      sample_genkey_flags_def) (simp add: sample_genkey_env_def sample_key_path new_private_key_def write_key_def)

lemma sample_region_zero:
  "genkey_region sample_genkey_env False ''0'' ci () = ((), Inr (ci\<lparr>ci_region_id := 0\<rparr>))"
  by (simp add: genkey_region_def region_match_def named_region_def map_region_def atoi_def digits_val_def digit_val_def is_digit_def)


section \<open>Serving a generated key\<close>

lemma find_region_list: "find_region_id uni cf dm ''list'' = 0"
  by (simp add: find_region_id_def)

lemma map_region_Inr:
  assumes "map_region env emb region dm ci = Inr ci'" "ci = named_region region ci0" "ci_region ci0 = []" "ci_region_id ci0 = 0"
  shows "same_identity ci' ci0"
    "ci_region ci' = [] \<and> ci_region_id ci' = 0 \<longleftrightarrow> atoi region = Some 0 \<and> \<not> emb"
proof -
  have auto_no: "atoi ''auto'' = None" by (simp add: atoi_letter is_digit_def)
  have nil: "atoi [] = None" by (simp add: atoi_def)
  have pos: "find_region_id u c d s \<noteq> 0 \<Longrightarrow> True" for u c d s by simp
  show "same_identity ci' ci0"
    using assms
    by (auto simp: map_region_def named_region_def embed_region_def same_identity_def Let_def split: if_splits sum.splits option.splits)
  show "ci_region ci' = [] \<and> ci_region_id ci' = 0 \<longleftrightarrow> atoi region = Some 0 \<and> \<not> emb"
    using assms auto_no nil
    by (auto simp: map_region_def named_region_def region_match_def embed_region_def Let_def split: if_splits sum.splits option.splits)
qed

lemma genkey_region_Inr:
  assumes "genkey_region env emb region ci0 w = (w', Inr ci')" "ci_region ci0 = []" "ci_region_id ci0 = 0"
  shows "same_identity ci' ci0"
    "ci_region ci' = [] \<and> ci_region_id ci' = 0 \<longleftrightarrow> atoi region = Some 0 \<and> \<not> emb"
proof -
  obtain dm where "map_region env emb region dm (named_region region ci0) = Inr ci'"
    using assms(1) by (auto simp: genkey_region_def Let_def split: if_splits prod.splits sum.splits)
  from map_region_Inr [OF this refl assms(2,3)]
  show "same_identity ci' ci0" "ci_region ci' = [] \<and> ci_region_id ci' = 0 \<longleftrightarrow> atoi region = Some 0 \<and> \<not> emb" by blast+
qed



end
