(* ===== verification/CliSsh.thy ===== *)
theory CliSsh
  imports CliAddr
begin

text \<open>
  \<open>tailcat ssh\<close>, \<open>cp\<close> and \<open>ls\<close> (\<open>cmd/tailcat/ssh.go\<close>, \<open>cp.go\<close>, \<open>ls.go\<close>): the system ssh or scp is run
  with a ProxyCommand that runs tailcat again. The quoting of that command is the delicate part: it
  passes through OpenSSH's token expansion and a shell, or through \<open>cmd.exe\<close> and Go's parser of the
  Windows command line. The probe's connection, the executable searches, the hash and the SFTP
  session are parameters.
\<close>

section \<open>Quoting the proxy command\<close>

abbreviation squote :: char where "squote \<equiv> CHR 0x27"
abbreviation dquote :: char where "dquote \<equiv> CHR 0x22"
abbreviation backslash :: char where "backslash \<equiv> CHR 0x5C"

definition replace_char :: "char \<Rightarrow> string \<Rightarrow> string \<Rightarrow> string" where
  "replace_char c r s = concat (map (\<lambda>x. if x = c then r else [x]) s)"

definition unix_quote :: "string \<Rightarrow> string" where
  "unix_quote arg =
     [squote] @ replace_char squote [squote, dquote, squote, dquote, squote] (replace_char CHR ''%'' ''%%'' arg) @ [squote]"

text \<open>The argument that cannot be quoted, or the command.\<close>

definition proxy_command_join_unix :: "string list \<Rightarrow> string + string" where
  "proxy_command_join_unix args =
     (case find (contains_any [CHR 0x0D, CHR 0x0A, CHR 0x00]) args of
        Some a \<Rightarrow> Inl a
      | None \<Rightarrow> Inr (join '' '' (map unix_quote args)))"

definition trailing_backslashes :: "string \<Rightarrow> nat" where
  "trailing_backslashes arg = length arg - length (rev (dropWhile (\<lambda>c. c = backslash) (rev arg)))"

definition quote_windows_command_arg :: "string \<Rightarrow> string" where
  "quote_windows_command_arg arg =
     [dquote] @ arg @ replicate (trailing_backslashes arg) backslash @ [dquote]"

definition proxy_command_join_windows :: "string list \<Rightarrow> string + string" where
  "proxy_command_join_windows args =
     (case find (contains_any [dquote, CHR ''%'', CHR ''!'', CHR 0x0D, CHR 0x0A, CHR 0x00]) args of
        Some a \<Rightarrow> Inl a
      | None \<Rightarrow> Inr (join '' '' (map quote_windows_command_arg args)))"

definition proxy_args :: "string \<Rightarrow> string \<Rightarrow> string \<Rightarrow> string \<Rightarrow> string \<Rightarrow> string list" where
  "proxy_args exe key_name url addr dest =
     [exe] @ (if key_name \<noteq> [] then [''--key='' @ key_name] else [])
     @ (if url \<noteq> default_derp_map_url then [''--derpmap-url='' @ url] else []) @ [addr, dest]"

definition ssh_proxy_command :: "bool \<Rightarrow> string \<Rightarrow> string \<Rightarrow> string \<Rightarrow> string \<Rightarrow> string \<Rightarrow> string + string" where
  "ssh_proxy_command windows exe key_name url addr dest =
     (let args = proxy_args exe key_name url addr dest
      in if windows then proxy_command_join_windows args else proxy_command_join_unix args)"

subsection \<open>What OpenSSH and the shell read\<close>

text \<open>OpenSSH's token expansion on the doubled percent sign; any other token is outside.\<close>

fun ssh_expand :: "string \<Rightarrow> string option" where
  "ssh_expand [] = Some []"
| "ssh_expand (c # s) =
     (if c = CHR ''%'' then
        (case s of [] \<Rightarrow> None | d # s' \<Rightarrow> if d = CHR ''%'' then map_option ((#) c) (ssh_expand s') else None)
      else map_option ((#) c) (ssh_expand s))"

text \<open>The POSIX rules for quoted words: text in single quotes is literal, text in double quotes is literal
  without dollar, backquote and backslash, adjacent pieces form one word and spaces end it. None is a
  text outside these rules.\<close>

datatype sh_mode = Blank | Plain | Single | Double

fun sh_scan :: "sh_mode \<Rightarrow> string \<Rightarrow> string \<Rightarrow> string list option" where
  "sh_scan Blank w [] = Some []"
| "sh_scan Plain w [] = Some [w]"
| "sh_scan Single w [] = None"
| "sh_scan Double w [] = None"
| "sh_scan Blank w (c # s) =
     (if c = CHR '' '' then sh_scan Blank [] s
      else if c = squote then sh_scan Single [] s
      else if c = dquote then sh_scan Double [] s else None)"
| "sh_scan Plain w (c # s) =
     (if c = CHR '' '' then map_option ((#) w) (sh_scan Blank [] s)
      else if c = squote then sh_scan Single w s
      else if c = dquote then sh_scan Double w s else None)"
| "sh_scan Single w (c # s) = (if c = squote then sh_scan Plain w s else sh_scan Single (w @ [c]) s)"
| "sh_scan Double w (c # s) =
     (if c = dquote then sh_scan Plain w s
      else if c \<in> {CHR ''$'', CHR 0x60, backslash} then None
      else sh_scan Double (w @ [c]) s)"

definition sh_words :: "string \<Rightarrow> string list option" where
  "sh_words s = sh_scan Blank [] s"

lemma replace_char_Nil [simp]: "replace_char c r [] = []"
  by (simp add: replace_char_def)

lemma replace_char_Cons [simp]: "replace_char c r (x # s) = (if x = c then r else [x]) @ replace_char c r s"
  by (simp add: replace_char_def)

lemma replace_char_append [simp]: "replace_char c r (s @ t) = replace_char c r s @ replace_char c r t"
  by (simp add: replace_char_def)

lemma ssh_expand_doubled: "ssh_expand (replace_char CHR ''%'' ''%%'' s @ t) = map_option ((@) s) (ssh_expand t)"
  by (induction s) (auto simp: option.map_comp comp_def option.map_ident)

definition plain_quote :: "string \<Rightarrow> string" where
  "plain_quote arg = [squote] @ replace_char squote [squote, dquote, squote, dquote, squote] arg @ [squote]"

lemma unix_quote_doubled: "unix_quote arg = replace_char CHR ''%'' ''%%'' (plain_quote arg)"
proof -
  have "replace_char squote r (replace_char CHR ''%'' ''%%'' s) = replace_char CHR ''%'' ''%%'' (replace_char squote r s)"
    if "CHR ''%'' \<notin> set r" for r s
  proof (induction s)
    case (Cons c s)
    have "replace_char CHR ''%'' ''%%'' r = r" using that by (induction r) auto
    then show ?case using Cons by simp
  qed simp
  then show ?thesis by (simp add: unix_quote_def plain_quote_def)
qed

lemma join_doubled:
  "join '' '' (map unix_quote args) = replace_char CHR ''%'' ''%%'' (join '' '' (map plain_quote args))"
  by (induction args rule: induct_list012) (simp_all add: unix_quote_doubled)

lemma sh_scan_single:
  "sh_scan Single w (replace_char squote [squote, dquote, squote, dquote, squote] a @ squote # s) = sh_scan Plain (w @ a) s"
  by (induction a arbitrary: w) simp_all

lemma sh_words_join: "sh_scan Blank [] (join '' '' (map plain_quote args)) = Some args"
proof (induction args rule: induct_list012)
  case (3 a b as)
  then show ?case by (simp add: plain_quote_def sh_scan_single)
qed (simp_all add: plain_quote_def sh_scan_single)

lemma replace_char_set: "set (replace_char c r s) \<subseteq> set r \<union> set s"
  by (induction s) auto

lemma join_set: "set (join sep xs) \<subseteq> set sep \<union> (\<Union>x \<in> set xs. set x)"
  by (induction sep xs rule: join.induct) auto

text \<open>C27. On Unix the proxy command means what it was built from: after OpenSSH's expansion the shell reads
  exactly the given arguments, whatever characters they contain, the command has no line breaks or
  NULs, and it is refused exactly when an argument has one.\<close>

theorem unix_command_roundtrip:
  "(case proxy_command_join_unix args of
      Inr cmd \<Rightarrow> (case ssh_expand cmd of None \<Rightarrow> False | Some t \<Rightarrow> sh_words t = Some args)
        \<and> \<not> contains_any [CHR 0x0D, CHR 0x0A, CHR 0x00] cmd
    | Inl a \<Rightarrow> a \<in> set args \<and> contains_any [CHR 0x0D, CHR 0x0A, CHR 0x00] a)"
proof (cases "find (contains_any [CHR 0x0D, CHR 0x0A, CHR 0x00]) args")
  case (Some a)
  then show ?thesis using find_SomeD [OF Some] by (simp add: proxy_command_join_unix_def)
next
  case None
  let ?bad = "{CHR 0x0D, CHR 0x0A, CHR 0x00}"
  have c: "contains_any [CHR 0x0D, CHR 0x0A, CHR 0x00] s \<longleftrightarrow> set s \<inter> ?bad \<noteq> {}" for s
    by (auto simp: contains_any_def list_ex_iff)
  have "set (unix_quote a) \<inter> ?bad = {}" if "a \<in> set args" for a
  proof -
    have "set a \<inter> ?bad = {}" using None that by (simp add: find_None_iff c)
    then show ?thesis
      using replace_char_set [of squote "[squote, dquote, squote, dquote, squote]" "replace_char CHR ''%'' ''%%'' a"]
        replace_char_set [of "CHR ''%''" "''%%''" a]
      by (auto simp: unix_quote_def)
  qed
  then have "set (join '' '' (map unix_quote args)) \<inter> ?bad = {}"
    using join_set [of "'' ''" "map unix_quote args"] by fastforce
  moreover have "ssh_expand (join '' '' (map unix_quote args)) = Some (join '' '' (map plain_quote args))"
    using ssh_expand_doubled [of _ "[]"] by (simp add: join_doubled)
  ultimately show ?thesis
    using None by (simp add: proxy_command_join_unix_def c sh_words_def sh_words_join)
qed

subsection \<open>What Go reads on Windows\<close>

text \<open>\<open>readNextArg\<close> and \<open>commandLineToArgv\<close> of Go's package \<open>os\<close>.\<close>

fun read_next_arg :: "string \<Rightarrow> bool \<Rightarrow> nat \<Rightarrow> string \<Rightarrow> string \<times> string" where
  "read_next_arg b inquote n [] = (b @ replicate n backslash, [])"
| "read_next_arg b inquote n (c # cmd) =
     (if (c = CHR '' '' \<or> c = CHR 0x09) \<and> \<not> inquote then (b @ replicate n backslash, cmd)
      else if c = dquote then
        let b = b @ replicate (n div 2) backslash
        in if even n then
             (case cmd of
                [] \<Rightarrow> (b, [])
              | d # cmd' \<Rightarrow>
                  if inquote \<and> d = dquote then read_next_arg (b @ [dquote]) (\<not> inquote) 0 cmd'
                  else read_next_arg b (\<not> inquote) 0 cmd)
           else read_next_arg (b @ [dquote]) inquote 0 cmd
      else if c = backslash then read_next_arg b inquote (Suc n) cmd
      else read_next_arg (b @ replicate n backslash @ [c]) inquote 0 cmd)"

declare read_next_arg.simps(2) [simp del]

lemma read_next_arg_shorter: "length (snd (read_next_arg b q n s)) \<le> length s"
proof (induction s arbitrary: b q n rule: length_induct)
  case (1 s)
  show ?case
  proof (cases s)
    case (Cons c cmd)
    have ih: "length (snd (read_next_arg b' q' n' t)) \<le> length t" if "length t < length s" for b' q' n' t
      using 1 that by blast
    show ?thesis
    proof (cases cmd)
      case Nil
      then show ?thesis unfolding Cons by (subst read_next_arg.simps(2)) (simp add: Let_def)
    next
      case (Cons d t)
      note st = \<open>s = c # cmd\<close> Cons
      have "length (snd (read_next_arg b' q' n' (d # t))) \<le> Suc (Suc (length t))"
        "length (snd (read_next_arg b' q' n' t)) \<le> Suc (Suc (length t))" for b' q' n'
        using ih [of "d # t" b' q' n'] ih [of t b' q' n'] st by simp_all
      then show ?thesis unfolding st by (subst read_next_arg.simps(2)) (simp add: Let_def)
    qed
  qed simp
qed

lemma read_next_arg_less: "length (snd (read_next_arg [] False 0 (c # s))) < Suc (length s)"
  using read_next_arg_shorter [of _ _ _ s] read_next_arg_shorter [of "[]" True 0 s]
  by (subst read_next_arg.simps(2)) (auto simp: Let_def less_Suc_eq_le split: list.splits)

function command_line_to_argv :: "string \<Rightarrow> string list" where
  "command_line_to_argv [] = []"
| "command_line_to_argv (c # s) =
     (if c = CHR '' '' \<or> c = CHR 0x09 then command_line_to_argv s
      else fst (read_next_arg [] False 0 (c # s)) # command_line_to_argv (snd (read_next_arg [] False 0 (c # s))))"
  by pat_completeness auto
termination
  by (relation "measure length") (use read_next_arg_less in auto)

declare command_line_to_argv.simps [simp del]

text \<open>Inside quotes the backslashes before the current position are pending.\<close>

lemma read_quoted:
  assumes "dquote \<notin> set w" "b = [] \<or> last b \<noteq> backslash"
  shows "\<exists>b' n'. read_next_arg b True n (w @ s) = read_next_arg b' True n' s
    \<and> b' @ replicate n' backslash = b @ replicate n backslash @ w \<and> (b' = [] \<or> last b' \<noteq> backslash)"
  using assms
proof (induction w arbitrary: b n)
  case Nil
  then show ?case by auto
next
  case (Cons c w)
  show ?case
  proof (cases "c = backslash")
    case True
    then have "read_next_arg b True n ((c # w) @ s) = read_next_arg b True (Suc n) (w @ s)"
      by (simp add: read_next_arg.simps(2))
    moreover have "replicate (Suc n) backslash @ w = replicate n backslash @ c # w"
      using True by (simp add: replicate_app_Cons_same)
    ultimately show ?thesis using Cons.IH [of b "Suc n"] Cons.prems by simp
  next
    case False
    moreover have "c \<noteq> dquote" using Cons.prems(1) by auto
    ultimately have "read_next_arg b True n ((c # w) @ s) = read_next_arg (b @ replicate n backslash @ [c]) True 0 (w @ s)"
      by (simp add: read_next_arg.simps(2))
    then show ?thesis using Cons.IH [of "b @ replicate n backslash @ [c]" 0] Cons.prems False by simp
  qed
qed

lemma trailing_unique:
  assumes "b = [] \<or> last b \<noteq> backslash"
  shows "trailing_backslashes (b @ replicate n backslash) = n"
proof -
  have "dropWhile (\<lambda>c. c = backslash) (replicate n backslash @ rev b) = rev b"
    using assms by (induction n) (cases b rule: rev_cases; simp)+
  then show ?thesis by (simp add: trailing_backslashes_def)
qed

lemma read_backslashes: "read_next_arg b True n (replicate k backslash @ s) = read_next_arg b True (n + k) s"
  by (induction k arbitrary: n) (simp_all add: read_next_arg.simps(2))

lemma read_windows_arg:
  assumes "dquote \<notin> set a" "s = [] \<or> hd s = CHR '' ''"
  shows "read_next_arg [] False 0 (quote_windows_command_arg a @ s) = (a, tl s)"
proof -
  obtain b n where b: "read_next_arg [] True 0 (a @ replicate (trailing_backslashes a) backslash @ dquote # s)
      = read_next_arg b True n (replicate (trailing_backslashes a) backslash @ dquote # s)"
    "b @ replicate n backslash = a" "b = [] \<or> last b \<noteq> backslash"
    using read_quoted [OF assms(1), of "[]" 0 "replicate (trailing_backslashes a) backslash @ dquote # s"] by auto
  have t: "trailing_backslashes a = n" using trailing_unique [OF b(3), of n] b(2) by simp
  have "read_next_arg [] True 0 (a @ replicate n backslash @ dquote # s) = read_next_arg b True (n + n) (dquote # s)"
    using b(1) t read_backslashes [of b n n "dquote # s"] by simp
  also have "\<dots> = (a, tl s)"
  proof (cases s)
    case Nil
    then show ?thesis using b(2) by (simp add: read_next_arg.simps(2))
  next
    case (Cons c s')
    then have c: "c = CHR '' ''" using assms(2) by simp
    have "(n + n) div 2 = n" by simp
    then show ?thesis using b(2) Cons by (simp add: c read_next_arg.simps(2))
  qed
  finally have r: "read_next_arg [] True 0 (a @ replicate n backslash @ dquote # s) = (a, tl s)" .
  have "read_next_arg [] False 0 (quote_windows_command_arg a @ s) = read_next_arg [] True 0 (a @ replicate n backslash @ dquote # s)"
    by (simp add: quote_windows_command_arg_def t read_next_arg.simps(2) split: list.splits)
  then show ?thesis using r by simp
qed

lemma quote_windows_Cons: "\<exists>r. quote_windows_command_arg a = dquote # r"
  by (simp add: quote_windows_command_arg_def)

lemma argv_step:
  assumes "dquote \<notin> set a" "s = [] \<or> hd s = CHR '' ''"
  shows "command_line_to_argv (quote_windows_command_arg a @ s) = a # command_line_to_argv (tl s)"
proof -
  obtain r where r: "quote_windows_command_arg a @ s = dquote # r" using quote_windows_Cons [of a] by auto
  show ?thesis
    unfolding r command_line_to_argv.simps(2) [of dquote r] using read_windows_arg [OF assms] r by simp
qed

lemma argv_join:
  "\<forall>a \<in> set args. dquote \<notin> set a \<Longrightarrow> command_line_to_argv (join '' '' (map quote_windows_command_arg args)) = args"
proof (induction args rule: induct_list012)
  case 1
  show ?case by (simp add: command_line_to_argv.simps)
next
  case (2 a)
  then show ?case using argv_step [of a "[]"] by (simp add: command_line_to_argv.simps)
next
  case (3 a b as)
  then show ?case
    using argv_step [of a "'' '' @ join '' '' (map quote_windows_command_arg (b # as))"] by simp
qed

text \<open>On Windows the child's arguments are those the command was built from, backslashes included, and a
  command contains nothing that OpenSSH or \<open>cmd.exe\<close> would expand inside its quotes; it is refused
  exactly when an argument has such a character.\<close>

theorem windows_command_roundtrip:
  "(case proxy_command_join_windows args of
      Inr cmd \<Rightarrow> command_line_to_argv cmd = args \<and> ssh_expand cmd = Some cmd
        \<and> \<not> contains_any [CHR ''%'', CHR ''!'', CHR 0x0D, CHR 0x0A, CHR 0x00] cmd
    | Inl a \<Rightarrow> a \<in> set args \<and> contains_any [dquote, CHR ''%'', CHR ''!'', CHR 0x0D, CHR 0x0A, CHR 0x00] a)"
proof (cases "find (contains_any [dquote, CHR ''%'', CHR ''!'', CHR 0x0D, CHR 0x0A, CHR 0x00]) args")
  case (Some a)
  then show ?thesis using find_SomeD [OF Some] by (simp add: proxy_command_join_windows_def)
next
  case None
  let ?bad = "{CHR ''%'', CHR ''!'', CHR 0x0D, CHR 0x0A, CHR 0x00}"
  have no: "dquote \<notin> set a" "set a \<inter> ?bad = {}" if "a \<in> set args" for a
    using None that by (auto simp: find_None_iff contains_any_def list_ex_iff)
  have "set (quote_windows_command_arg a) \<inter> ?bad = {}" if "a \<in> set args" for a
    using no(2) [OF that] by (auto simp: quote_windows_command_arg_def)
  then have s: "set (join '' '' (map quote_windows_command_arg args)) \<inter> ?bad = {}"
    using join_set [of "'' ''" "map quote_windows_command_arg args"] by fastforce
  have "CHR ''%'' \<notin> set x \<Longrightarrow> ssh_expand x = Some x" for x by (induction x) auto
  then have "ssh_expand (join '' '' (map quote_windows_command_arg args)) = Some (join '' '' (map quote_windows_command_arg args))"
    using s by blast
  moreover have "\<not> contains_any [CHR ''%'', CHR ''!'', CHR 0x0D, CHR 0x0A, CHR 0x00] (join '' '' (map quote_windows_command_arg args))"
    using s by (auto simp: contains_any_def list_ex_iff)
  ultimately show ?thesis
    using None argv_join no(1) by (simp add: proxy_command_join_windows_def)
qed


section \<open>Destinations\<close>

datatype ssh_stop = NoDestination | InvalidPort string | DnsFailed arg_error | InvalidAddr string | WideOpen
  | NoExecutable | NoClient | Unquotable string | TooFewArgs | DifferentServers string string | NoRemote

definition validated_ssh_port :: "string \<Rightarrow> ssh_stop + string" where
  "validated_ssh_port v =
     (case parse_uint 16 v of
        Some n \<Rightarrow> if n \<noteq> 0 then Inr (itoa n) else Inl (InvalidPort v)
      | None \<Rightarrow>
          (case parse_addr v of
             Some ip \<Rightarrow> Inr (addr_port_string (ip, 22))
           | None \<Rightarrow>
               (case parse_addr_port v of
                  Some (ip, p) \<Rightarrow> if p \<noteq> 0 then Inr (addr_port_string (ip, p)) else Inl (InvalidPort v)
                | None \<Rightarrow> Inl (InvalidPort v))))"

text \<open>\<open>validatedAddr\<close>: the address and whether it came from DNS.\<close>

definition validated_addr ::
  "(bytes \<Rightarrow> wire_conn_info option) \<Rightarrow> (string \<Rightarrow> string list option) \<Rightarrow> string \<Rightarrow> ssh_stop + (string \<times> bool)" where
  "validated_addr um lookup_txt arg =
     (let via_dns = contains_char CHR ''.'' arg
      in (case (if via_dns then snd (tailcat_addr_arg um lookup_txt arg) else Inr arg) of
            Inl e \<Rightarrow> Inl (DnsFailed e)
          | Inr a \<Rightarrow> if is_addr um a then Inr (a, via_dns) else Inl (InvalidAddr arg)))"

text \<open>The label that ssh is told, over SHA-256.\<close>

definition ssh_dest_host :: "(string \<Rightarrow> bytes) \<Rightarrow> string \<Rightarrow> string" where
  "ssh_dest_host sha256 addr = ''tailcat-'' @ hex_encode (take 8 (sha256 addr))"

section \<open>The stranger's probe\<close>

text \<open>What the probe dials.\<close>

definition probe_dest :: "string \<Rightarrow> pipe_dest option" where
  "probe_dest port_or_ip =
     (case parse_addr_port port_or_ip of
        Some ap \<Rightarrow> Some (ExitTarget ap)
      | None \<Rightarrow> map_option (\<lambda>n. ServerPort (of_nat n)) (parse_uint 16 port_or_ip))"

text \<open>\<open>probeStrangerSSH\<close>: \<open>dial\<close> is whether the dial succeeds, \<open>local_user\<close> the current user and \<open>login\<close>
  whether a handshake without credentials succeeds. None is an error, else whether the server is
  open.\<close>

definition probe_stranger_ssh ::
  "(string \<Rightarrow> pipe_dest \<Rightarrow> bool) \<Rightarrow> string option \<Rightarrow> (string \<Rightarrow> pipe_dest \<Rightarrow> string \<Rightarrow> bool) \<Rightarrow> string \<Rightarrow> string \<Rightarrow> string
     \<Rightarrow> bool option" where
  "probe_stranger_ssh dial local_user login addr port_or_ip ssh_user =
     (case probe_dest port_or_ip of
        None \<Rightarrow> None
      | Some d \<Rightarrow>
          if \<not> dial addr d then None
          else
            (case (if ssh_user = [] then local_user else Some ssh_user) of
               None \<Rightarrow> None
             | Some u \<Rightarrow> Some (login addr d u)))"

section \<open>The commands\<close>

text \<open>What the process knows: the flags, its executable, the client programs and the outside world.\<close>

record ssh_env =
  sh_unmarshal :: "bytes \<Rightarrow> wire_conn_info option"
  sh_lookup_txt :: "string \<Rightarrow> string list option"
  sh_sha256 :: "string \<Rightarrow> bytes"
  sh_windows :: bool
  sh_key_flag :: string
  sh_url_flag :: string
  sh_exe :: "string option"
  sh_ssh :: "string option"
  sh_scp :: "string option"
  sh_scp_msg :: string
  sh_dev_null :: string
  sh_dial :: "string \<Rightarrow> pipe_dest \<Rightarrow> bool"
  sh_user :: "string option"
  sh_login :: "string \<Rightarrow> pipe_dest \<Rightarrow> string \<Rightarrow> bool"

definition ssh_opts :: "ssh_env \<Rightarrow> string \<Rightarrow> string list" where
  "ssh_opts env proxy =
     [''-o'', ''UpdateHostKeys no'', ''-o'', ''StrictHostKeyChecking no'', ''-o'', ''UserKnownHostsFile '' @ sh_dev_null env,
      ''-o'', ''LogLevel ERROR'', ''-o'', ''ProxyCommand='' @ proxy]"

definition proxy_for :: "ssh_env \<Rightarrow> string \<Rightarrow> string \<Rightarrow> string \<Rightarrow> ssh_stop + string" where
  "proxy_for env exe addr dest =
     (case ssh_proxy_command (sh_windows env) exe (sh_key_flag env) (sh_url_flag env) addr dest of
        Inl a \<Rightarrow> Inl (Unquotable a)
      | Inr c \<Rightarrow> Inr c)"

text \<open>\<open>refuseWideOpenDNS\<close>: whether it refuses.\<close>

definition refuse_wide_open :: "ssh_env \<Rightarrow> string \<Rightarrow> string \<Rightarrow> string \<Rightarrow> bool" where
  "refuse_wide_open env addr port_or_ip user =
     (probe_stranger_ssh (sh_dial env) (sh_user env) (sh_login env) addr port_or_ip user = Some True)"

definition client_ssh_mode :: "ssh_env \<Rightarrow> string \<Rightarrow> bool \<Rightarrow> string list \<Rightarrow> ssh_stop + (string \<times> string list)" where
  "client_ssh_mode env port_or_ip skip_check args =
     (case args of
        [] \<Rightarrow> Inl NoDestination
      | dst # cmd_args \<Rightarrow>
          (case validated_ssh_port port_or_ip of
             Inl e \<Rightarrow> Inl e
           | Inr port \<Rightarrow>
               let (user, arg) = (case cut CHR ''@'' dst of None \<Rightarrow> ([], dst) | Some (u, a) \<Rightarrow> (u, a))
               in (case validated_addr (sh_unmarshal env) (sh_lookup_txt env) arg of
                     Inl e \<Rightarrow> Inl e
                   | Inr (addr, via_dns) \<Rightarrow>
                       if via_dns \<and> \<not> skip_check \<and> refuse_wide_open env addr port user then Inl WideOpen
                       else
                         (case sh_exe env of
                            None \<Rightarrow> Inl NoExecutable
                          | Some exe \<Rightarrow>
                              (case sh_ssh env of
                                 None \<Rightarrow> Inl NoClient
                               | Some ssh \<Rightarrow>
                                   let host = ssh_dest_host (sh_sha256 env) addr;
                                       dest = (if user \<noteq> [] then user @ ''@'' @ host else host)
                                   in (case proxy_for env exe addr port of
                                         Inl e \<Rightarrow> Inl e
                                       | Inr proxy \<Rightarrow>
                                           Inr (ssh, [ssh] @ ssh_opts env proxy @ [''--'', dest] @ cmd_args)))))))"

text \<open>\<open>splitRemoteArg\<close>: host and path of a remote argument.\<close>

definition split_remote_arg :: "string \<Rightarrow> (string \<times> string) option" where
  "split_remote_arg arg =
     (case index_char CHR '':'' arg of
        None \<Rightarrow> None
      | Some i \<Rightarrow>
          if i \<le> 1 then None
          else if contains_any [CHR ''/'', backslash] (take i arg) then None
          else Some (take i arg, drop (Suc i) arg))"

fun remote_host :: "string \<Rightarrow> string list \<Rightarrow> ssh_stop + string" where
  "remote_host addr [] = Inr addr"
| "remote_host addr (a # as) =
     (case split_remote_arg a of
        None \<Rightarrow> remote_host addr as
      | Some (host, path) \<Rightarrow>
          if addr \<noteq> [] \<and> host \<noteq> addr then Inl (DifferentServers addr host) else remote_host host as)"

definition scp_arg :: "string \<Rightarrow> string \<Rightarrow> string" where
  "scp_arg label arg = (case split_remote_arg arg of None \<Rightarrow> arg | Some (host, path) \<Rightarrow> label @ '':'' @ path)"

text \<open>Whether a text contains another, as \<open>strings.Contains\<close>; the message is in lower case.\<close>

definition contains_str :: "string \<Rightarrow> string \<Rightarrow> bool" where
  "contains_str s t = list_ex (prefix t) (suffixes s)"

definition scp_supports_sftp_flag :: "string \<Rightarrow> bool" where
  "scp_supports_sftp_flag msg =
     (\<not> contains_str msg ''unknown option -- s'' \<and> \<not> contains_str msg ''illegal option -- s''
      \<and> \<not> contains_str msg ''invalid option -- s'')"

definition client_cp_mode :: "ssh_env \<Rightarrow> bool \<Rightarrow> bool \<Rightarrow> string \<Rightarrow> string list \<Rightarrow> ssh_stop + (string \<times> string list)" where
  "client_cp_mode env recursive preserve port_or_ip args =
     (if length args < 2 then Inl TooFewArgs
      else
        (case validated_ssh_port port_or_ip of
           Inl e \<Rightarrow> Inl e
         | Inr port \<Rightarrow>
             (case remote_host [] args of
                Inl e \<Rightarrow> Inl e
              | Inr host \<Rightarrow>
                  if host = [] then Inl NoRemote
                  else
                    (case validated_addr (sh_unmarshal env) (sh_lookup_txt env) host of
                       Inl e \<Rightarrow> Inl e
                     | Inr (addr, via_dns) \<Rightarrow>
                         let scp_args = map (scp_arg (ssh_dest_host (sh_sha256 env) addr)) args
                         in (case sh_exe env of
                               None \<Rightarrow> Inl NoExecutable
                             | Some exe \<Rightarrow>
                                 (case sh_scp env of
                                    None \<Rightarrow> Inl NoClient
                                  | Some scp \<Rightarrow>
                                      (case proxy_for env exe addr port of
                                         Inl e \<Rightarrow> Inl e
                                       | Inr proxy \<Rightarrow>
                                           Inr (scp,
                                             [scp] @ (if scp_supports_sftp_flag (sh_scp_msg env) then [''-s''] else [])
                                             @ ssh_opts env proxy @ (if recursive then [''-r''] else [])
                                             @ (if preserve then [''-p''] else []) @ [''--''] @ scp_args)))))))) "

section \<open>Listing\<close>

text \<open>\<open>clientLSMode\<close> over an SFTP session: \<open>stat\<close> gives whether a path is a directory, if it exists, and
  \<open>read_dir\<close> its entries, names and whether they are directories.\<close>

definition ls_name :: "string \<times> bool \<Rightarrow> string" where
  "ls_name e = (if snd e then fst e @ ''/'' else fst e)"

definition client_ls_mode ::
  "(string \<Rightarrow> arg_error + string) \<Rightarrow> (string \<Rightarrow> bool) \<Rightarrow> (string \<Rightarrow> bool option) \<Rightarrow> (string \<Rightarrow> (string \<times> bool) list option)
     \<Rightarrow> string list \<Rightarrow> string list option" where
  "client_ls_mode addr_of session stat read_dir args =
     (case args of
        [arg] \<Rightarrow>
          (let (host, path) = (case split_remote_arg arg of None \<Rightarrow> (arg, []) | Some hp \<Rightarrow> hp);
               path = (if path = [] then ''.'' else path)
           in (case addr_of host of
                 Inl e \<Rightarrow> None
               | Inr addr \<Rightarrow>
                   if \<not> session addr then None
                   else
                     (case stat path of
                        None \<Rightarrow> None
                      | Some False \<Rightarrow> Some [ls_name (trim_prefix path ''./'', False)]
                      | Some True \<Rightarrow>
                          (case read_dir path of
                             None \<Rightarrow> None
                           | Some es \<Rightarrow> Some (map ls_name (sort_key fst es))))))
      | _ \<Rightarrow> None)"


section \<open>Correctness\<close>

lemma proxy_for_unix:
  assumes "proxy_for env exe addr dest = Inr proxy" "\<not> sh_windows env"
  shows "\<exists>t. ssh_expand proxy = Some t \<and> sh_words t =
     Some (proxy_args exe (sh_key_flag env) (sh_url_flag env) addr dest)"
proof -
  let ?args = "proxy_args exe (sh_key_flag env) (sh_url_flag env) addr dest"
  have "proxy_command_join_unix ?args = Inr proxy"
    using assms by (simp add: proxy_for_def ssh_proxy_command_def split: sum.splits)
  then have p: "proxy = join '' '' (map unix_quote ?args)"
    by (simp add: proxy_command_join_unix_def split: option.splits)
  have e: "ssh_expand (join '' '' (map unix_quote as)) = Some (join '' '' (map plain_quote as))" for as
    using ssh_expand_doubled [of "join '' '' (map plain_quote as)" "[]"] by (simp add: join_doubled)
  show ?thesis unfolding p e sh_words_def by (rule exI, rule conjI, rule refl, rule sh_words_join)
qed

text \<open>C28. \<open>tailcat ssh\<close> runs ssh on the label of the address with the client's command after it, nothing of the
  user's arguments before the \<open>--\<close>, and a proxy command that the shell reads as this program on the
  address and port; an address that came from public DNS is only used if a stranger with a fresh key
  and no credentials could not log in there, unless the check is skipped.\<close>

theorem ssh_command_exact:
  assumes "client_ssh_mode env port_or_ip skip (dst # cmd) = Inr (prog, argv)" "\<not> sh_windows env"
  shows "\<exists>user host addr port exe proxy t. sh_ssh env = Some prog \<and> sh_exe env = Some exe
    \<and> (dst = host \<and> user = [] \<or> dst = user @ ''@'' @ host) \<and> is_addr (sh_unmarshal env) addr
    \<and> validated_ssh_port port_or_ip = Inr port
    \<and> argv = prog # ssh_opts env proxy
        @ [''--'', (if user = [] then [] else user @ ''@'') @ ssh_dest_host (sh_sha256 env) addr] @ cmd
    \<and> ssh_expand proxy = Some t
    \<and> sh_words t = Some (proxy_args exe (sh_key_flag env) (sh_url_flag env) addr port)
    \<and> (CHR ''.'' \<notin> set host \<longrightarrow> addr = host)
    \<and> (CHR ''.'' \<in> set host \<and> \<not> skip \<longrightarrow>
         probe_stranger_ssh (sh_dial env) (sh_user env) (sh_login env) addr port user \<noteq> Some True)"
proof -
  obtain port where port: "validated_ssh_port port_or_ip = Inr port"
    using assms(1) by (auto simp: client_ssh_mode_def split: sum.splits)
  obtain user host where uh: "(case cut CHR ''@'' dst of None \<Rightarrow> ([], dst) | Some (u, a) \<Rightarrow> (u, a)) = (user, host)"
    by (cases "case cut CHR ''@'' dst of None \<Rightarrow> ([], dst) | Some (u, a) \<Rightarrow> (u, a)")
  then have dst: "dst = host \<and> user = [] \<or> dst = user @ ''@'' @ host"
    by (auto simp: cut_Some_iff split: option.splits)
  obtain addr via where a: "validated_addr (sh_unmarshal env) (sh_lookup_txt env) host = Inr (addr, via)"
    using assms(1) by (auto simp: client_ssh_mode_def port uh split: sum.splits)
  then have addr: "is_addr (sh_unmarshal env) addr" "via \<longleftrightarrow> CHR ''.'' \<in> set host" "\<not> via \<longrightarrow> addr = host"
    by (auto simp: validated_addr_def Let_def contains_char_def split: sum.splits if_splits)
  have safe: "\<not> (via \<and> \<not> skip \<and> refuse_wide_open env addr port user)"
    using assms(1) by (auto simp: client_ssh_mode_def port uh a)
  obtain exe proxy where p: "sh_exe env = Some exe" "sh_ssh env = Some prog" "proxy_for env exe addr port = Inr proxy"
    "argv = prog # ssh_opts env proxy @ [''--'', (if user = [] then [] else user @ ''@'') @ ssh_dest_host (sh_sha256 env) addr] @ cmd"
    using assms(1) safe
    by (auto simp: client_ssh_mode_def port uh a Let_def simp del: split_paired_All split: option.splits sum.splits if_splits)
  obtain t where t: "ssh_expand proxy = Some t" "sh_words t =
     Some (proxy_args exe (sh_key_flag env) (sh_url_flag env) addr port)"
    using proxy_for_unix [OF p(3) assms(2)] by blast
  have pr: "CHR ''.'' \<in> set host \<and> \<not> skip \<longrightarrow>
         probe_stranger_ssh (sh_dial env) (sh_user env) (sh_login env) addr port user \<noteq> Some True"
    using safe addr(2) unfolding refuse_wide_open_def by blast
  show ?thesis
    by (rule exI [of _ user], rule exI [of _ host], rule exI [of _ addr], rule exI [of _ port], rule exI [of _ exe],
        rule exI [of _ proxy], rule exI [of _ t])
      (use p(1,2,4) dst addr port t pr in blast)
qed

lemma split_remote_nonempty: "split_remote_arg a = Some (h, p) \<Longrightarrow> h \<noteq> [] \<and> a = h @ '':'' @ p \<and> CHR '':'' \<notin> set h"
  using index_char_bound [of "CHR '':''" a] id_take_nth_drop [of _ a]
  by (force simp: split_remote_arg_def split: option.splits if_splits)

lemma remote_host_Inr:
  "remote_host addr as = Inr h \<Longrightarrow>
     (\<forall>a \<in> set as. \<forall>h' p. split_remote_arg a = Some (h', p) \<longrightarrow> h' = h) \<and> (addr \<noteq> [] \<longrightarrow> h = addr)
     \<and> (addr = [] \<and> h \<noteq> [] \<longrightarrow> (\<exists>a \<in> set as. split_remote_arg a \<noteq> None))"
proof (induction as arbitrary: addr)
  case (Cons a as)
  show ?case
  proof (cases "split_remote_arg a")
    case None
    then show ?thesis using Cons by auto
  next
    case (Some hp)
    obtain h' p where s: "split_remote_arg a = Some (h', p)" using Some by (cases hp) auto
    then show ?thesis using Cons.IH [of h'] Cons.prems split_remote_nonempty [OF s] by (auto split: if_splits)
  qed
qed simp

text \<open>\<open>tailcat cp\<close> copies to and from one server only: every remote argument names the same host, there is
  at least one, it stands for one valid address, and scp gets the arguments in order after \<open>--\<close>, each
  remote one with that address's label in place of the host and its path as it was.\<close>

theorem cp_one_server:
  assumes "client_cp_mode env recursive preserve port_or_ip args = Inr (prog, argv)"
  shows "\<exists>host addr via opts.
    (\<forall>a \<in> set args. \<forall>h p. split_remote_arg a = Some (h, p) \<longrightarrow> h = host) \<and> (\<exists>a \<in> set args. split_remote_arg a \<noteq> None)
    \<and> validated_addr (sh_unmarshal env) (sh_lookup_txt env) host = Inr (addr, via) \<and> is_addr (sh_unmarshal env) addr
    \<and> argv = prog # opts @ [''--''] @ map (\<lambda>a. case split_remote_arg a of
          None \<Rightarrow> a | Some (h, p) \<Rightarrow> ssh_dest_host (sh_sha256 env) addr @ '':'' @ p) args"
proof -
  obtain port host where h: "validated_ssh_port port_or_ip = Inr port" "remote_host [] args = Inr host" "host \<noteq> []"
    using assms by (auto simp: client_cp_mode_def split: sum.splits if_splits)
  obtain addr via where a: "validated_addr (sh_unmarshal env) (sh_lookup_txt env) host = Inr (addr, via)"
    using assms h by (auto simp: client_cp_mode_def split: sum.splits if_splits)
  have v: "is_addr (sh_unmarshal env) addr"
    using a by (auto simp: validated_addr_def Let_def split: sum.splits if_splits)
  obtain exe proxy where p: "sh_exe env = Some exe" "proxy_for env exe addr port = Inr proxy" "sh_scp env = Some prog"
    using assms h a by (auto simp: client_cp_mode_def Let_def split: option.splits sum.splits if_splits)
  have g: "argv = prog # ((if scp_supports_sftp_flag (sh_scp_msg env) then [''-s''] else [])
      @ ssh_opts env proxy @ (if recursive then [''-r''] else []) @ (if preserve then [''-p''] else [])) @ [''--'']
      @ map (scp_arg (ssh_dest_host (sh_sha256 env) addr)) args"
    using assms h a p by (auto simp: client_cp_mode_def Let_def split: if_splits)
  have f: "scp_arg l = (\<lambda>a. case split_remote_arg a of None \<Rightarrow> a | Some (h, p) \<Rightarrow> l @ '':'' @ p)" for l
    by (rule ext) (simp add: scp_arg_def)
  show ?thesis using remote_host_Inr [OF h(2)] h(3) a v g unfolding f by blast
qed

text \<open>The port that reaches the child is the one that was asked for.\<close>

lemma ssh_child_port:
  "validated_ssh_port v = Inr s \<Longrightarrow> parse_uint 16 v = Some n \<Longrightarrow> client_dest s = Some (ServerPort (of_nat n)) \<and> n \<noteq> 0"
  using itoa_no_char [of "CHR '':''" n] parse_uint_bound [of 16 v n]
  by (auto simp: validated_ssh_port_def client_dest_def contains_char_def split: if_splits)


section \<open>Concrete runs\<close>

definition sample_ssh_env :: ssh_env where
  "sample_ssh_env =
     \<lparr>sh_unmarshal = (\<lambda>x. Some (wire_of sample_info)), sh_lookup_txt = (\<lambda>n. Some [''v=1'', ''tailcat=tch3AQID'']),
      sh_sha256 = (\<lambda>s. [0, 1, 2, 3, 4, 5, 6, 7, 8]), sh_windows = False, sh_key_flag = [], sh_url_flag = default_derp_map_url,
      sh_exe = Some ''/bin/tailcat'', sh_ssh = Some ''/bin/ssh'', sh_scp = Some ''/bin/scp'', sh_scp_msg = [],
      sh_dev_null = ''/dev/null'', sh_dial = (\<lambda>a d. False), sh_user = Some ''me'', sh_login = (\<lambda>a d u. True)\<rparr>"

lemma sample_is_addr: "is_addr (sh_unmarshal sample_ssh_env) ''tch3AQID''"
proof -
  have a: "h3_address_prefix @ b64_encode [1, 2, 3] = ''tch3AQID''" by code_simp
  have "parse_wire (\<lambda>x. Some (wire_of sample_info)) (h3_address_prefix @ b64_encode [1, 2, 3]) = Inr (wire_of sample_info)"
    by (rule parse_wire_encode [OF sample_addressable, of "\<lambda>w. Some [1, 2, 3]"]) (simp_all add: conn_addr_def h3_address_prefix_def)
  then have "parse_conn_addr (\<lambda>x. Some (wire_of sample_info)) (h3_address_prefix @ b64_encode [1, 2, 3]) = Inr (carried sample_info)"
    by (rule parse_conn_addr_wire_of [OF sample_addressable])
  then show ?thesis unfolding a by (simp add: is_addr_def sample_ssh_env_def)
qed

lemma sample_port: "validated_ssh_port ''22'' = Inr ''22''"
proof -
  have "parse_uint 16 ''22'' = Some 22" by (simp add: parse_uint_def digits_val_def digit_val_def is_digit_def)
  moreover have "itoa 22 = ''22''" by (simp add: itoa.simps digit_char_def hex_digits_def)
  ultimately show ?thesis by (simp add: validated_ssh_port_def)
qed

lemma sample_validated:
  "validated_addr (sh_unmarshal sample_ssh_env) (sh_lookup_txt sample_ssh_env) ''tch3AQID'' = Inr (''tch3AQID'', False)"
  by (simp add: validated_addr_def contains_char_def sample_is_addr)

lemma sample_proxy: "\<exists>proxy. proxy_for sample_ssh_env ''/bin/tailcat'' ''tch3AQID'' ''22'' = Inr proxy"
proof -
  have "find (contains_any [CHR 0x0D, CHR 0x0A, CHR 0x00]) [''/bin/tailcat'', ''tch3AQID'', ''22''] = None" by code_simp
  then show ?thesis
    by (simp add: proxy_for_def ssh_proxy_command_def proxy_args_def proxy_command_join_unix_def sample_ssh_env_def)
qed

theorem ssh_command_exact_witness:
  "\<exists>argv proxy t. client_ssh_mode sample_ssh_env ''22'' False [''root@tch3AQID'', ''uptime''] = Inr (''/bin/ssh'', argv)
     \<and> ssh_expand proxy = Some t \<and> sh_words t = Some [''/bin/tailcat'', ''tch3AQID'', ''22'']
     \<and> argv ! 10 = ''ProxyCommand='' @ proxy"
proof -
  obtain proxy where p: "proxy_for sample_ssh_env ''/bin/tailcat'' ''tch3AQID'' ''22'' = Inr proxy" using sample_proxy by blast
  have e: "sh_exe sample_ssh_env = Some ''/bin/tailcat''" "sh_ssh sample_ssh_env = Some ''/bin/ssh''" "\<not> sh_windows sample_ssh_env"
    "sh_key_flag sample_ssh_env = []" "sh_url_flag sample_ssh_env = default_derp_map_url"
    by (simp_all add: sample_ssh_env_def)
  obtain argv where c: "client_ssh_mode sample_ssh_env ''22'' False [''root@tch3AQID'', ''uptime''] = Inr (''/bin/ssh'', argv)"
    by (simp add: client_ssh_mode_def sample_port sample_validated p e)
  have ad: "addr = ''tch3AQID''" if "''root@tch3AQID'' = host \<and> user = [] \<or> ''root@tch3AQID'' = user @ ''@'' @ host"
    "argv = ''/bin/ssh'' # ssh_opts sample_ssh_env proxy'
        @ [''--'', (if user = [] then [] else user @ ''@'') @ ssh_dest_host (sh_sha256 sample_ssh_env) addr] @ [''uptime'']"
    "CHR ''.'' \<notin> set host \<longrightarrow> addr = host" for user host addr proxy' :: string
  proof -
    have "argv = [''/bin/ssh''] @ ssh_opts sample_ssh_env proxy @ [''--'', ''root@'' @ ssh_dest_host (sh_sha256 sample_ssh_env) ''tch3AQID'', ''uptime'']"
      using c by (simp add: client_ssh_mode_def sample_port sample_validated p e)
    then have "user \<noteq> []" using that(2) by (auto simp: ssh_opts_def ssh_dest_host_def)
    then have "cut CHR ''@'' ''root@tch3AQID'' = Some (user, host)" using that(1) by (auto simp: cut_Some_iff Cons_eq_append_conv)
    then show ?thesis using that(3) by auto
  qed
  from ssh_command_exact [OF c e(3)]
  obtain user host addr port exe proxy t where x: "sh_exe sample_ssh_env = Some exe"
    "''root@tch3AQID'' = host \<and> user = [] \<or> ''root@tch3AQID'' = user @ ''@'' @ host" "validated_ssh_port ''22'' = Inr port"
    "argv = ''/bin/ssh'' # ssh_opts sample_ssh_env proxy
        @ [''--'', (if user = [] then [] else user @ ''@'') @ ssh_dest_host (sh_sha256 sample_ssh_env) addr] @ [''uptime'']"
    "ssh_expand proxy = Some t" "sh_words t = Some (proxy_args exe (sh_key_flag sample_ssh_env) (sh_url_flag sample_ssh_env) addr port)"
    "CHR ''.'' \<notin> set host \<longrightarrow> addr = host"
    by blast
  have "addr = ''tch3AQID''" by (rule ad [OF x(2,4,7)])
  then have "sh_words t = Some [''/bin/tailcat'', ''tch3AQID'', ''22'']"
    using x(1,3,6) e sample_port by (simp add: proxy_args_def)
  moreover have "argv ! 10 = ''ProxyCommand='' @ proxy" unfolding x(4) ssh_opts_def by simp
  ultimately show ?thesis using c x(5) by blast
qed

theorem cp_one_server_witness:
  "\<exists>argv. client_cp_mode sample_ssh_env False False ''22'' [''tch3AQID:a'', ''b''] = Inr (''/bin/scp'', argv)
     \<and> drop (length argv - 2) argv = [ssh_dest_host (sh_sha256 sample_ssh_env) ''tch3AQID'' @ '':a'', ''b'']"
proof -
  obtain proxy where p: "proxy_for sample_ssh_env ''/bin/tailcat'' ''tch3AQID'' ''22'' = Inr proxy" using sample_proxy by blast
  have e: "sh_exe sample_ssh_env = Some ''/bin/tailcat''" "sh_scp sample_ssh_env = Some ''/bin/scp''"
    by (simp_all add: sample_ssh_env_def)
  have s: "split_remote_arg ''tch3AQID:a'' = Some (''tch3AQID'', ''a'')" "split_remote_arg ''b'' = None" by code_simp+
  obtain argv where c: "client_cp_mode sample_ssh_env False False ''22'' [''tch3AQID:a'', ''b''] = Inr (''/bin/scp'', argv)"
    by (simp add: client_cp_mode_def sample_port s sample_validated p e)
  from cp_one_server [OF c]
  obtain host addr via opts where x: "\<forall>a \<in> set [''tch3AQID:a'', ''b'']. \<forall>h p. split_remote_arg a = Some (h, p) \<longrightarrow> h = host"
    "validated_addr (sh_unmarshal sample_ssh_env) (sh_lookup_txt sample_ssh_env) host = Inr (addr, via)"
    "argv = ''/bin/scp'' # opts @ [''--''] @ map (\<lambda>a. case split_remote_arg a of
          None \<Rightarrow> a | Some (h, p) \<Rightarrow> ssh_dest_host (sh_sha256 sample_ssh_env) addr @ '':'' @ p) [''tch3AQID:a'', ''b'']"
    by blast
  have "host = ''tch3AQID''" using x(1) s by simp
  then have "addr = ''tch3AQID''" using x(2) sample_validated by simp
  then have "argv = (''/bin/scp'' # opts @ [''--'']) @ [ssh_dest_host (sh_sha256 sample_ssh_env) ''tch3AQID'' @ '':a'', ''b'']"
    using x(3) s by simp
  then show ?thesis using c by simp
qed

end
