(* ===== verification/CliForward.thy ===== *)
theory CliForward
  imports CliAddr
begin

text \<open>
  \<open>tailcat forward\<close> (\<open>cmd/tailcat/forward.go\<close>): the port mappings of the command line, what a forwarded
  connection dials, and the life of the listeners, their accept loops and their connections as a step
  relation, up to the return of \<open>runForward\<close>.
\<close>

section \<open>Mappings\<close>

record forward_spec =
  fw_listen :: string
  fw_target :: addrport
  fw_port :: port

datatype forward_error = BadLocalPort string | BadRemote string | CannotListen string

definition parse_forward_port :: "string \<Rightarrow> nat option" where
  "parse_forward_port s = (case parse_uint 16 s of None \<Rightarrow> None | Some p \<Rightarrow> if p = 0 then None else Some p)"

definition parse_forward_spec :: "string \<Rightarrow> string \<Rightarrow> forward_error + forward_spec" where
  "parse_forward_spec bind spec =
     (let (local, target, has_colon) = (case cut CHR '':'' spec of Some (l, t) \<Rightarrow> (l, t, True) | None \<Rightarrow> (spec, spec, False))
      in (case (if \<not> has_colon \<or> local \<noteq> ''0'' then parse_forward_port local else Some 0) of
            None \<Rightarrow> Inl (BadLocalPort local)
          | Some lp \<Rightarrow>
              let mapping = \<lparr>fw_listen = join_host_port bind (itoa lp), fw_target = (NoIP, 0), fw_port = 0\<rparr>
              in (case parse_forward_port target of
                    Some rp \<Rightarrow> Inr (mapping\<lparr>fw_port := of_nat rp\<rparr>)
                  | None \<Rightarrow>
                      if \<not> has_colon then Inl (BadRemote target)
                      else
                        (case parse_addr_port target of
                           None \<Rightarrow> Inl (BadRemote target)
                         | Some ap \<Rightarrow> Inr (mapping\<lparr>fw_target := ap\<rparr>)))))"

definition remote_target :: "forward_spec \<Rightarrow> string" where
  "remote_target m =
     (if ip_valid (fst (fw_target m)) then addr_port_string (fw_target m)
      else join_host_port ''localhost'' (itoa (unat (fw_port m))))"

text \<open>What a connection accepted for a mapping dials through the client.\<close>

definition forward_dial :: "forward_spec \<Rightarrow> pipe_dest" where
  "forward_dial m = (if ip_valid (fst (fw_target m)) then ExitTarget (fw_target m) else ServerPort (fw_port m))"

text \<open>The listening loop of \<open>runForward\<close>: the listeners opened so far, and the error that stopped it.\<close>

fun forward_listen ::
  "string \<Rightarrow> (string \<Rightarrow> 'l option) \<Rightarrow> string list \<Rightarrow> ('l \<times> forward_spec) list \<Rightarrow> ('l \<times> forward_spec) list \<times> forward_error option" where
  "forward_listen bind lis [] acc = (acc, None)"
| "forward_listen bind lis (spec # specs) acc =
     (case parse_forward_spec bind spec of
        Inl e \<Rightarrow> (acc, Some e)
      | Inr m \<Rightarrow>
          (case lis (fw_listen m) of
             None \<Rightarrow> (acc, Some (CannotListen (fw_listen m)))
           | Some l \<Rightarrow> forward_listen bind lis specs (acc @ [(l, m)])))"

lemma parse_forward_port_itoa: "n < 65536 \<Longrightarrow> parse_forward_port (itoa n) = (if n = 0 then None else Some n)"
  by (simp add: parse_forward_port_def)

lemma itoa_0: "itoa 0 = ''0''"
  by (simp add: itoa.simps digit_char_def hex_digits_def)

lemma cut_itoa: "cut CHR '':'' (itoa n @ '':'' @ s) = Some (itoa n, s)"
  using itoa_no_char [of "CHR '':''" n] by (simp add: cut_Some_iff)

lemma forward_port_digits: "parse_forward_port s = Some n \<Longrightarrow> list_all is_digit s \<and> 0 < n \<and> n < 65536"
  using parse_uint_digits [of 16 s n] parse_uint_bound [of 16 s n]
  by (auto simp: parse_forward_port_def split: option.splits if_splits)

lemma ipv4_target_no_port: "length b = 4 \<Longrightarrow> parse_forward_port (addr_port_string (IP4 b, p)) = None"
proof (rule ccontr)
  assume "parse_forward_port (addr_port_string (IP4 b, p)) \<noteq> None"
  then have "list_all is_digit (addr_port_string (IP4 b, p))" using forward_port_digits by blast
  then show False by (simp add: list_all_iff)
qed

lemma parse_ipv4_target:
  assumes "length b = 4"
  shows "parse_addr_port (addr_port_string (IP4 b, p)) = Some (IP4 b, p)"
proof -
  have n: "CHR '':'' \<notin> set (itoa (unat p))" by (rule itoa_no_char) simp
  have c: "CHR '':'' \<notin> set (ipv4_string b) \<and> CHR ''['' \<notin> set (ipv4_string b)"
  proof -
    have "set (ipv4_string b) \<subseteq> set ''.'' \<union> (\<Union>x \<in> set b. set (itoa (unat x)))"
    proof -
      have "set (join sep xs) \<subseteq> set sep \<union> (\<Union>x \<in> set xs. set x)" for sep xs
        by (induction sep xs rule: join.induct) auto
      then show ?thesis unfolding ipv4_string_def by fastforce
    qed
    moreover have "CHR '':'' \<notin> set (itoa k)" "CHR ''['' \<notin> set (itoa k)" for k by (rule itoa_no_char, simp)+
    ultimately show ?thesis by auto
  qed
  obtain w x y z where b: "b = [w, x, y, z]"
    using assms by (auto simp: length_Suc_conv numeral_eq_Suc)
  have ne: "ipv4_string b \<noteq> []" by (simp add: ipv4_string_def b)
  have dot: "find (\<lambda>c. c = CHR ''.'' \<or> c = CHR '':'' \<or> c = CHR ''%'') (ipv4_string b) = Some CHR ''.''"
  proof -
    have d: "CHR ''.'' \<notin> set (itoa k)" "CHR '':'' \<notin> set (itoa k)" "CHR ''%'' \<notin> set (itoa k)" for k
      by (rule itoa_no_char, simp add: is_digit_def)+
    have "find P (u @ c # v) = Some c" if "\<forall>y \<in> set u. \<not> P y" "P c" for P u c and v :: string
      using that by (induction u) auto
    from this [of "itoa (unat w)" "\<lambda>c. c = CHR ''.'' \<or> c = CHR '':'' \<or> c = CHR ''%''" "CHR ''.''"]
    show ?thesis using d by (auto simp: ipv4_string_def b)
  qed
  have pa: "parse_addr (ipv4_string b) = Some (IP4 b)"
    using parse_ipv4_string [OF assms] by (simp add: parse_addr_def dot)
  have l: "last_index_char CHR '':'' (ipv4_string b @ CHR '':'' # itoa (unat p)) = Some (length (ipv4_string b))"
    by (rule last_index_char_append [OF n])
  have "hd (ipv4_string b) \<noteq> CHR ''[''" using c ne by (metis hd_in_set)
  then have "split_addr_port (ipv4_string b @ CHR '':'' # itoa (unat p)) = Some (ipv4_string b, itoa (unat p), False)"
    using l ne by (simp add: split_addr_port_def)
  moreover have "parse_uint 16 (itoa (unat p)) = Some (unat p)"
    using unsigned_less [of p, where ?'a = nat] by simp
  ultimately show ?thesis using pa by (simp add: parse_addr_port_def)
qed

lemma itoa_is_0: "itoa l = ''0'' \<longleftrightarrow> l = 0"
  using itoa_inj [of l 0] itoa_0 by auto

lemma parse_pair:
  "l < 65536 \<Longrightarrow> 0 < r \<Longrightarrow> r < 65536 \<Longrightarrow> parse_forward_spec bind (itoa l @ '':'' @ itoa r) =
     Inr \<lparr>fw_listen = join_host_port bind (itoa l), fw_target = (NoIP, 0), fw_port = of_nat r\<rparr>"
  unfolding parse_forward_spec_def cut_itoa by (simp add: parse_forward_port_itoa itoa_is_0)

lemma parse_single:
  "0 < r \<Longrightarrow> r < 65536 \<Longrightarrow> parse_forward_spec bind (itoa r) =
     Inr \<lparr>fw_listen = join_host_port bind (itoa r), fw_target = (NoIP, 0), fw_port = of_nat r\<rparr>"
proof -
  have c: "cut CHR '':'' (itoa r) = None" using itoa_no_char [of "CHR '':''" r] by (simp add: cut_None_iff)
  show "0 < r \<Longrightarrow> r < 65536 \<Longrightarrow> ?thesis"
    unfolding parse_forward_spec_def c by (simp add: parse_forward_port_itoa)
qed

lemma parse_target:
  "l < 65536 \<Longrightarrow> length b = 4 \<Longrightarrow> parse_forward_spec bind (itoa l @ '':'' @ addr_port_string (IP4 b, p)) =
     Inr \<lparr>fw_listen = join_host_port bind (itoa l), fw_target = (IP4 b, p), fw_port = 0\<rparr>"
  unfolding parse_forward_spec_def cut_itoa
  by (simp add: parse_forward_port_itoa itoa_is_0 parse_ipv4_target ipv4_target_no_port del: addr_port_string.simps)

lemma parse_addr_port_valid: "parse_addr_port t = Some ap \<Longrightarrow> ip_valid (fst ap)"
  by (auto simp: parse_addr_port_def parse_addr_def parse_ipv6_def Let_def split: option.splits prod.splits if_splits)

lemma forward_spec_sound:
  assumes "parse_forward_spec bind spec = Inr m"
  shows "case forward_dial m of ServerPort q \<Rightarrow> q \<noteq> 0 | ExitTarget ap \<Rightarrow> (\<exists>u t. spec = u @ '':'' @ t \<and> parse_addr_port t = Some ap)"
proof -
  obtain loc target hc where c: "(case cut CHR '':'' spec of Some (l, t) \<Rightarrow> (l, t, True) | None \<Rightarrow> (spec, spec, False)) = (loc, target, hc)"
    by (cases "case cut CHR '':'' spec of Some (l, t) \<Rightarrow> (l, t, True) | None \<Rightarrow> (spec, spec, False)") auto
  have nz: "of_nat n \<noteq> (0 :: port)" if "parse_forward_port target = Some n" for n
  proof -
    have "0 < n" "n < 65536" using forward_port_digits [OF that] by auto
    then have "unat (of_nat n :: port) = n" by (simp add: unat_of_nat take_bit_nat_eq_self)
    then show ?thesis using \<open>0 < n\<close> by auto
  qed
  have tgt: "spec = loc @ '':'' @ target" if hc
    using c that by (auto simp: cut_Some_iff split: option.splits)
  have key: "\<exists>u t. spec = u @ '':'' @ t \<and> parse_addr_port t = Some ap" if hc "parse_addr_port target = Some ap" for ap
    using tgt [OF that(1)] that(2) by blast
  show ?thesis
    using assms unfolding parse_forward_spec_def c
    by (auto simp: Let_def forward_dial_def nz dest: parse_addr_port_valid intro!: key simp del: append.simps split: option.splits if_splits)
qed

text \<open>A mapping means what it says: every written form is read back (one port, local and remote port,
  local port and IPv4 target), a lone port 0 is refused, and a mapping that is accepted dials either a non-zero port of the server or an address that was given.\<close>

theorem forward_spec_exact:
  "(l < 65536 \<and> 0 < r \<and> r < 65536 \<longrightarrow>
      (\<exists>m. parse_forward_spec bind (itoa l @ '':'' @ itoa r) = Inr m
         \<and> fw_listen m = join_host_port bind (itoa l) \<and> forward_dial m = ServerPort (of_nat r))
      \<and> (\<exists>m. parse_forward_spec bind (itoa r) = Inr m
         \<and> fw_listen m = join_host_port bind (itoa r) \<and> forward_dial m = ServerPort (of_nat r)))
   \<and> (l < 65536 \<and> length b = 4 \<longrightarrow>
      (\<exists>m. parse_forward_spec bind (itoa l @ '':'' @ addr_port_string (IP4 b, p)) = Inr m
         \<and> fw_listen m = join_host_port bind (itoa l) \<and> forward_dial m = ExitTarget (IP4 b, p)))
   \<and> (\<forall>e. parse_forward_spec bind ''0'' \<noteq> Inr e)
   \<and> (\<forall>m. parse_forward_spec bind spec = Inr m \<longrightarrow>
        (case forward_dial m of
           ServerPort q \<Rightarrow> q \<noteq> 0
         | ExitTarget ap \<Rightarrow> (\<exists>u t. spec = u @ '':'' @ t \<and> parse_addr_port t = Some ap)))"
proof (intro conjI impI allI)
  show "parse_forward_spec bind ''0'' \<noteq> Inr e" for e
    using parse_forward_port_itoa [of 0] by (simp add: parse_forward_spec_def itoa_0 Let_def)
next
  show "case forward_dial m of ServerPort q \<Rightarrow> q \<noteq> 0 | ExitTarget ap \<Rightarrow> (\<exists>u t. spec = u @ '':'' @ t \<and> parse_addr_port t = Some ap)"
    if "parse_forward_spec bind spec = Inr m" for m
    by (rule forward_spec_sound [OF that])
qed (auto simp: forward_dial_def parse_pair parse_single parse_target simp del: append.simps addr_port_string.simps)

theorem forward_spec_exact_witness:
  "\<exists>m. parse_forward_spec ''127.0.0.1'' (itoa 13306 @ '':'' @ addr_port_string (IP4 [192, 168, 1, 10], 3306)) = Inr m
     \<and> forward_dial m = ExitTarget (IP4 [192, 168, 1, 10], 3306)"
proof -
  have "length [192, 168, 1, 10 :: byte] = 4" "(13306 :: nat) < 65536" by simp_all
  with forward_spec_exact [of 13306 1 "''127.0.0.1''" "[192, 168, 1, 10]" 3306 "[]"] show ?thesis by blast
qed


section \<open>Listeners and connections\<close>

text \<open>
  The state of one \<open>runForward\<close>: the listeners that are open and the accept loops that still run, the
  connections whose handler still runs (the map \<open>active\<close>), those that have been closed, and how far
  the function has come: it listens and then waits for the end of its context, the deferred function
  waits for the loops, then for the handlers, and then closes the client.
\<close>

datatype fw_phase = FwRunning | FwWaitLoops | FwWaitConns | FwReturned

record fw_state =
  fwd_open :: "nat set"
  fwd_loops :: "nat set"
  fwd_listeners :: nat
  fwd_active :: "nat set"
  fwd_closed :: "nat set"
  fwd_conns :: nat
  fwd_phase :: fw_phase
  fwd_client_closed :: bool

definition fw_init :: fw_state where
  "fw_init =
     \<lparr>fwd_open = {}, fwd_loops = {}, fwd_listeners = 0, fwd_active = {}, fwd_closed = {}, fwd_conns = 0,
      fwd_phase = FwRunning, fwd_client_closed = False\<rparr>"

text \<open>An accept loop that meets a closed listener ends; a handler ends when the dial fails or the proxied
  connection does, closing its connection. An error in the mappings and the end of the context both
  close all listeners.\<close>

inductive fw_step :: "fw_state \<Rightarrow> fw_state \<Rightarrow> bool" where
  fw_open: "fwd_phase s = FwRunning \<Longrightarrow>
     fw_step s (s\<lparr>fwd_open := insert (fwd_listeners s) (fwd_open s), fwd_loops := insert (fwd_listeners s) (fwd_loops s),
                  fwd_listeners := Suc (fwd_listeners s)\<rparr>)"
| fw_accept: "l \<in> fwd_loops s \<Longrightarrow> l \<in> fwd_open s \<Longrightarrow>
     fw_step s (s\<lparr>fwd_active := insert (fwd_conns s) (fwd_active s), fwd_conns := Suc (fwd_conns s)\<rparr>)"
| fw_loop_end: "l \<in> fwd_loops s \<Longrightarrow> l \<notin> fwd_open s \<Longrightarrow> fw_step s (s\<lparr>fwd_loops := fwd_loops s - {l}\<rparr>)"
| fw_conn_end: "c \<in> fwd_active s \<Longrightarrow>
     fw_step s (s\<lparr>fwd_active := fwd_active s - {c}, fwd_closed := insert c (fwd_closed s)\<rparr>)"
| fw_stop: "fwd_phase s = FwRunning \<Longrightarrow> fw_step s (s\<lparr>fwd_open := {}, fwd_phase := FwWaitLoops\<rparr>)"
| fw_close_conns: "fwd_phase s = FwWaitLoops \<Longrightarrow> fwd_loops s = {} \<Longrightarrow>
     fw_step s (s\<lparr>fwd_closed := fwd_closed s \<union> fwd_active s, fwd_phase := FwWaitConns\<rparr>)"
| fw_return: "fwd_phase s = FwWaitConns \<Longrightarrow> fwd_active s = {} \<Longrightarrow>
     fw_step s (s\<lparr>fwd_phase := FwReturned, fwd_client_closed := True\<rparr>)"

inductive_cases fw_step_cases: "fw_step s t"

definition fw_inv :: "fw_state \<Rightarrow> bool" where
  "fw_inv s =
     (finite (fwd_loops s) \<and> finite (fwd_active s) \<and> fwd_open s \<subseteq> fwd_loops s
      \<and> fwd_active s \<union> fwd_closed s = {..<fwd_conns s}
      \<and> (fwd_phase s \<noteq> FwRunning \<longrightarrow> fwd_open s = {})
      \<and> (fwd_phase s \<in> {FwWaitConns, FwReturned} \<longrightarrow> fwd_loops s = {} \<and> fwd_active s \<subseteq> fwd_closed s)
      \<and> (fwd_phase s = FwReturned \<longrightarrow> fwd_active s = {})
      \<and> (fwd_client_closed s \<longleftrightarrow> fwd_phase s = FwReturned))"

lemma fw_inv_init: "fw_inv fw_init"
  by (simp add: fw_inv_def fw_init_def)

lemma fw_inv_step: "fw_step s t \<Longrightarrow> fw_inv s \<Longrightarrow> fw_inv t"
proof (induction rule: fw_step.induct)
  case (fw_conn_end c s)
  then show ?case unfolding fw_inv_def by auto
next
  case (fw_accept l s)
  then have "fwd_phase s = FwRunning" by (auto simp: fw_inv_def)
  then show ?case using fw_accept unfolding fw_inv_def by (auto simp: lessThan_Suc)
qed (auto simp: fw_inv_def)

lemma fw_inv_steps: "fw_step\<^sup>*\<^sup>* s t \<Longrightarrow> fw_inv s \<Longrightarrow> fw_inv t"
  by (induction rule: rtranclp_induct) (auto intro: fw_inv_step)

text \<open>Once stopping, nothing new is accepted.\<close>

lemma fw_stopped_step: "fw_step s t \<Longrightarrow> fw_inv s \<Longrightarrow> fwd_phase s \<noteq> FwRunning \<Longrightarrow> fwd_conns t = fwd_conns s \<and> fwd_phase t \<noteq> FwRunning"
  by (induction rule: fw_step.induct) (auto simp: fw_inv_def)

lemma fw_stopped_steps:
  "fw_step\<^sup>*\<^sup>* s t \<Longrightarrow> fw_inv s \<Longrightarrow> fwd_phase s \<noteq> FwRunning \<Longrightarrow> fwd_conns t = fwd_conns s \<and> fwd_phase t \<noteq> FwRunning"
proof (induction rule: rtranclp_induct)
  case (step t u)
  then show ?case using fw_stopped_step [OF step.hyps(2) fw_inv_steps [OF step.hyps(1) step.prems(1)]] by simp
qed simp

text \<open>The ways down: the loops end, the handlers end.\<close>

lemma fw_end_loops:
  assumes "fw_inv s" "fwd_open s = {}"
  shows "fw_step\<^sup>*\<^sup>* s (s\<lparr>fwd_loops := {}\<rparr>)"
proof -
  have "finite (fwd_loops s)" using assms(1) by (simp add: fw_inv_def)
  then show ?thesis using assms(2)
  proof (induction "fwd_loops s" arbitrary: s rule: finite_induct)
    case empty
    then have "s\<lparr>fwd_loops := {}\<rparr> = s" by (cases s) simp
    then show ?case by simp
  next
    case (insert l ls)
    let ?t = "s\<lparr>fwd_loops := fwd_loops s - {l}\<rparr>"
    have "fw_step s ?t" using insert.hyps insert.prems by (intro fw_loop_end) auto
    moreover have "fw_step\<^sup>*\<^sup>* ?t (?t\<lparr>fwd_loops := {}\<rparr>)"
      using insert.hyps insert.prems by (intro insert.hyps(3)) auto
    ultimately show ?case by (simp add: converse_rtranclp_into_rtranclp)
  qed
qed

lemma fw_end_conns:
  assumes "fw_inv s"
  shows "fw_step\<^sup>*\<^sup>* s (s\<lparr>fwd_active := {}, fwd_closed := fwd_closed s \<union> fwd_active s\<rparr>)"
proof -
  have "finite (fwd_active s)" using assms by (simp add: fw_inv_def)
  then show ?thesis
  proof (induction "fwd_active s" arbitrary: s rule: finite_induct)
    case empty
    then have "s\<lparr>fwd_active := {}, fwd_closed := fwd_closed s \<union> fwd_active s\<rparr> = s" by (cases s) simp
    then show ?case by simp
  next
    case (insert c cs)
    let ?t = "s\<lparr>fwd_active := fwd_active s - {c}, fwd_closed := insert c (fwd_closed s)\<rparr>"
    have "fw_step s ?t" using insert.hyps(4) by (intro fw_conn_end) auto
    moreover have "fw_step\<^sup>*\<^sup>* ?t (?t\<lparr>fwd_active := {}, fwd_closed := fwd_closed ?t \<union> fwd_active ?t\<rparr>)"
      using insert.hyps by (intro insert.hyps(3)) auto
    moreover have "fwd_closed ?t \<union> fwd_active ?t = fwd_closed s \<union> fwd_active s" using insert.hyps(4) by auto
    ultimately show ?case by (simp add: converse_rtranclp_into_rtranclp)
  qed
qed

lemma fw_can_return:
  assumes "fw_inv s"
  shows "\<exists>t. fw_step\<^sup>*\<^sup>* s t \<and> fwd_phase t = FwReturned"
proof -
  have conns: "\<exists>t. fw_step\<^sup>*\<^sup>* s t \<and> fwd_phase t = FwReturned" if "fw_inv s" "fwd_phase s = FwWaitConns" for s
  proof -
    let ?t = "s\<lparr>fwd_active := {}, fwd_closed := fwd_closed s \<union> fwd_active s\<rparr>"
    have "fw_step ?t (?t\<lparr>fwd_phase := FwReturned, fwd_client_closed := True\<rparr>)" using that(2) by (intro fw_return) simp_all
    then have "fw_step\<^sup>*\<^sup>* s (?t\<lparr>fwd_phase := FwReturned, fwd_client_closed := True\<rparr>)"
      using fw_end_conns [OF that(1)] by (rule rtranclp.rtrancl_into_rtrancl [rotated])
    then show ?thesis by (intro exI conjI) (assumption, simp)
  qed
  have loops: "\<exists>t. fw_step\<^sup>*\<^sup>* s t \<and> fwd_phase t = FwReturned" if "fw_inv s" "fwd_phase s = FwWaitLoops" for s
  proof -
    let ?u = "s\<lparr>fwd_loops := {}\<rparr>"
    let ?t = "?u\<lparr>fwd_closed := fwd_closed ?u \<union> fwd_active ?u, fwd_phase := FwWaitConns\<rparr>"
    have "fwd_open s = {}" using that by (simp add: fw_inv_def)
    from fw_end_loops [OF that(1) this] have "fw_step\<^sup>*\<^sup>* s ?u" .
    moreover have "fw_step ?u ?t" using that(2) by (intro fw_close_conns) simp_all
    ultimately have st: "fw_step\<^sup>*\<^sup>* s ?t" by (rule rtranclp.rtrancl_into_rtrancl)
    from conns [OF fw_inv_steps [OF st that(1)]] obtain v where "fw_step\<^sup>*\<^sup>* ?t v" "fwd_phase v = FwReturned" by auto
    then show ?thesis using st by (meson rtranclp_trans)
  qed
  show ?thesis
  proof (cases "fwd_phase s")
    case FwRunning
    let ?t = "s\<lparr>fwd_open := {}, fwd_phase := FwWaitLoops\<rparr>"
    have st: "fw_step s ?t" using FwRunning by (rule fw_stop)
    from loops [OF fw_inv_step [OF st assms]] obtain v where "fw_step\<^sup>*\<^sup>* ?t v" "fwd_phase v = FwReturned" by auto
    then show ?thesis using st by (meson converse_rtranclp_into_rtranclp)
  qed (use assms conns loops in auto)
qed



end
