(* ===== verification/Joining.thy ===== *)
theory Joining
  imports ClientSide
begin

text \<open>
  The composition of the parts: a server that has been started and has run for a while, the
  address it prints, a client that is brought up from that string, the announcement the client
  sends, the admission on the server, the acknowledgement, and the policies both ends then
  enforce. The lemmas here carry facts across the borders of the components; the property they
  lead to is in the root theory.
\<close>

section \<open>From the address to the client's backend\<close>

lemma loco_start_netmap_only:
  "loco_start ns rc mc b = Some (b', es, e) \<Longrightarrow> \<exists>nm. b' = b\<lparr>lb_nm := nm\<rparr>"
proof -
  assume a: "loco_start ns rc mc b = Some (b', es, e)"
  have "b' = b \<or> (\<exists>nm. b' = b\<lparr>lb_nm := Some nm\<rparr>)"
    using a by (auto simp: loco_start_def Let_def split: if_splits option.splits)
  moreover have "b = b\<lparr>lb_nm := lb_nm b\<rparr>" by simp
  ultimately show ?thesis by metis
qed

text \<open>What a client knows after it came up: the server's keys from the address, its own from its
  configuration.\<close>

definition client_of :: "'w client_env \<Rightarrow> conn_info \<Rightarrow> key32 \<Rightarrow> backend \<Rightarrow> bool" where
  "client_of env ci priv b =
     (lb_server_pub b = ci_server_public ci \<and> lb_server_disco b = ci_disco ci \<and> lb_psk b = ci_psk ci
      \<and> lb_nonce b = ce_nonce env \<and> lb_pub b = ce_public env priv \<and> lb_disco_public b = ce_disco env priv
      \<and> lb_addr b = tc_addr_for_key (lb_pub b))"

lemma client_of_updates [simp]:
  "client_of env ci priv (b\<lparr>lb_dm := dm\<rparr>) = client_of env ci priv b"
  "client_of env ci priv (b\<lparr>lb_nm := nm\<rparr>) = client_of env ci priv b"
  by (simp_all add: client_of_def)

lemma init_locked_client_of:
  assumes "init_locked env c = (c', None)" "cl_lb c = None"
  shows "\<exists>ci b priv. parse_conn_addr (ce_unmarshal env) (cl_server c) = Inr ci \<and> cl_lb c' = Some b \<and> client_of env ci priv b
     \<and> cl_server_addr c' = tc_addr_for_key (ci_server_public ci)"
proof (cases "parse_conn_addr (ce_unmarshal env) (cl_server c)")
  case (Inl x)
  then show ?thesis using assms by (simp add: init_locked_def)
next
  case (Inr ci)
  have "\<not> key_is_zero (ci_disco ci)"
    using parse_conn_addr_keys [OF Inr] by (simp add: addressable_def key_is_zero_def)
  moreover obtain c2 priv where n: "node_key_locked (ce_fresh_key env) c = (c2, priv)"
    by (cases "node_key_locked (ce_fresh_key env) c")
  ultimately have "cl_lb c' = Some ((new_loco_backend priv (ce_public env priv) (ci_psk ci) (ce_nonce env) (ce_disco env priv))
      \<lparr>lb_dm := Some [], lb_server_pub := ci_server_public ci, lb_server_disco := ci_disco ci\<rparr>)"
    "cl_server_addr c' = tc_addr_for_key (ci_server_public ci)"
    using assms Inr n by (auto simp: init_locked_def Let_def split: if_splits)
  moreover have "client_of env ci priv ((new_loco_backend priv (ce_public env priv) (ci_psk ci) (ce_nonce env) (ce_disco env priv))
      \<lparr>lb_dm := Some [], lb_server_pub := ci_server_public ci, lb_server_disco := ci_disco ci\<rparr>)"
    by (simp add: client_of_def new_loco_backend_def Let_def)
  ultimately show ?thesis using Inr by blast
qed

lemma ensure_started_client_of:
  assumes "ensure_started env c w = Some (c', w', None)" "cl_lb c = None" "\<not> cl_started c"
  obtains ci priv cb where "parse_conn_addr (ce_unmarshal env) (cl_server c) = Inr ci" "client_of env ci priv cb" "cl_lb c' = Some cb"
    "cl_server_addr c' = tc_addr_for_key (ci_server_public ci)"
proof -
  note ns = assms(3)
  obtain c1 e1 where i: "init_locked env c = (c1, e1)" by (cases "init_locked env c")
  have e1: "e1 = None" using assms(1) ns i by (cases e1) (simp_all add: ensure_started_def)
  obtain w2 x where x: "ce_expand env (cl_ci c1) w = (w2, x)" by (cases "ce_expand env (cl_ci c1) w")
  obtain ci where ci: "x = Inr ci" using assms(1) ns i e1 x by (cases x) (simp_all add: ensure_started_def)
  obtain pci b priv where b: "parse_conn_addr (ce_unmarshal env) (cl_server c) = Inr pci" "cl_lb c1 = Some b" "client_of env pci priv b"
      "cl_server_addr c1 = tc_addr_for_key (ci_server_public pci)"
    using init_locked_client_of [OF i [unfolded e1] assms(2)] by blast
  have ne: "ci_region ci \<noteq> []" using assms(1) ns i e1 x ci by (auto simp: ensure_started_def Let_def split: if_splits)
  define lb where "lb = b\<lparr>lb_dm := Some (foldl (\<lambda>m r. mset_key (dr_id r) r m) (case lb_dm b of None \<Rightarrow> [] | Some m \<Rightarrow> m) (ci_region ci))\<rparr>"
  have "(case loco_start (ce_ns_start_ok env) (ce_reconfig_ok env) (ce_mc_disco env) lb of
      None \<Rightarrow> None
    | Some (lb, es, Some e) \<Rightarrow> Some (c1\<lparr>cl_ci := ci, cl_lb := Some lb\<rparr>, w2, Some (ClBackend e))
    | Some (lb, es, None) \<Rightarrow> Some (c1\<lparr>cl_ci := ci, cl_lb := Some lb, cl_started := True\<rparr>, w2, None)) = Some (c', w', None)"
    using assms(1) ns i e1 x ci ne b(2) by (simp add: ensure_started_def Let_def lb_def)
  then obtain cb es where l: "loco_start (ce_ns_start_ok env) (ce_reconfig_ok env) (ce_mc_disco env) lb = Some (cb, es, None)"
    "c' = c1\<lparr>cl_ci := ci, cl_lb := Some cb, cl_started := True\<rparr>"
    by (auto split: option.splits)
  from loco_start_netmap_only [OF l(1)] obtain nm where "cb = lb\<lparr>lb_nm := nm\<rparr>" by blast
  then have "client_of env pci priv cb" using b(3) by (simp add: lb_def)
  then show ?thesis by (rule that [OF b(1)]) (use l(2) b(4) in simp_all)
qed

text \<open>A printed address that parses at all names the printing backend.\<close>

lemma parse_conn_addr_printed:
  assumes "conn_addr marshal ci = Some addr" "parse_conn_addr unmarshal addr = Inr ci'"
    "\<And>x. marshal (wire_of ci) = Some x \<Longrightarrow> unmarshal x = Some (wire_of ci)"
  shows "addressable ci" "ci' = carried ci"
proof -
  obtain x where x: "marshal (wire_of ci) = Some x" "addr = h3_address_prefix @ b64_encode x"
    using assms(1) by (auto simp: conn_addr_def split: option.splits)
  obtain w where w: "parse_wire unmarshal addr = Inr w" using assms(2) by (auto simp: parse_conn_addr_def split: sum.splits)
  then have we: "w = wire_of ci" and len: "length addr \<le> 65536"
    using assms(3) [OF x(1)] x(2) by (auto simp: parse_wire_def split: if_splits option.splits)
  show a: "addressable ci"
    using w parse_wire_Inr_D [OF w] we psk_is_zero_iff [of "ci_psk ci"] by (auto simp: addressable_def wire_of_def key_is_zero_def)
  show "ci' = carried ci" using parse_conn_addr_wire_of [OF a, of unmarshal addr] w we assms(2) by simp
qed

lemma tailcat_addr_names:
  assumes "tailcat_addr marshal b = Some addr" "parse_conn_addr unmarshal addr = Inr ci"
    "\<And>c x. marshal (wire_of c) = Some x \<Longrightarrow> unmarshal x = Some (wire_of c)"
  shows "ci_server_public ci = lb_pub b \<and> ci_disco ci = lb_disco_public b \<and> ci_psk ci = lb_psk b \<and> addressable ci
    \<and> derp_region_id b \<noteq> None"
proof -
  obtain i r rs where r: "lb_dm b = Some ((i, r) # rs)"
    using assms(1) by (cases "lb_dm b") (auto simp: tailcat_addr_def neq_Nil_conv split: if_splits)
  define pc where "pc = \<lparr>ci_server_public = lb_pub b, ci_disco = lb_disco_public b, ci_psk = lb_psk b,
      ci_region = map snd ((i, r) # rs), ci_region_id = 0\<rparr>"
  have c: "conn_addr marshal pc = Some addr" using assms(1) r by (simp add: tailcat_addr_def pc_def)
  note p = parse_conn_addr_printed [OF c assms(2) assms(3) [of pc]]
  have "ci_server_public pc = lb_pub b" "ci_disco pc = lb_disco_public b" "ci_psk pc = lb_psk b" by (simp_all add: pc_def)
  then show ?thesis using p r by (simp add: carried_def addressable_def derp_region_id_def)
qed

section \<open>Admission of a client that is not yet known\<close>

lemma on_meow_fresh:
  assumes "src \<notin> mkeys (lb_clients b)" "length (lb_clients b) < h3_max_clients"
  shows "on_meow est hs now now2 race gap src disco b =
     (if allowed_in b src then admit_client hs now2 src disco b else Some (b, [], False))"
proof -
  have "mget (lb_clients b) src = None" using assms(1) by (simp only: mget_None_iff simp_thms)
  then show ?thesis using assms(2) by (simp only: on_meow_def not_allowed_iff) simp
qed

lemma on_meow_known:
  assumes "allowed_in b src" "mget (lb_clients b) src = Some n"
  shows "on_meow est hs now now2 race gap src disco b = Some (b, [], nd_disco n = disco)"
  using assms by (simp only: on_meow_def not_allowed_iff) simp

lemma admit_client_total:
  "derp_region_id b \<noteq> None \<Longrightarrow> \<exists>b' es. admit_client hs now src disco b = Some (b', es, True) \<and> lb_allowed b' = lb_allowed b"
  by (auto simp: admit_client_def Let_def derp_region_id_def)

text \<open>A fresh, allowed client: the table afterwards, what it may send, and a repeated announcement.\<close>

lemma admit_fresh:
  assumes "lb_inv b" "src \<notin> mkeys (lb_clients b)" "length (lb_clients b) < h3_max_clients" "key_ok src" "src \<noteq> key_zero"
    "src \<noteq> lb_pub b" "allowed_in b src" "derp_region_id b \<noteq> None"
  shows "\<exists>b' es. on_meow est hs now now2 race gap src disco b = Some (b', es, True)
     \<and> lb_pub b' = lb_pub b \<and> lb_psk b' = lb_psk b
     \<and> (\<forall>a. ip_wf a \<longrightarrow> (source_policy b' (lb_pub b) src a \<longleftrightarrow> a = tc_addr_for_key src))
     \<and> on_meow est hs later later2 race gap src disco b' = Some (b', [], True)"
proof -
  obtain b' es where a: "admit_client hs now2 src disco b = Some (b', es, True)" "lb_allowed b' = lb_allowed b"
    using admit_client_total [OF assms(8)] by blast
  note t = lb_inv_table [OF assms(1)] and i = admit_identity [OF a(1)]
  have inv: "lb_inv b'" by (rule admit_client_spec(1) [OF t assms(2,4,5,3) a(1)])
  obtain n where n: "mget (lb_clients b') src = Some n" "nd_disco n = disco"
    using admitted_node [OF t assms(2,4,5,3) a(1)] by blast
  have k: "src \<in> mkeys (lb_clients b')" using n(1) by (rule mget_Some_key)
  have "allowed_in b' src" using assms(7) a(2) by (simp add: allowed_in_def)
  from on_meow_known [OF this n(1)] have again: "on_meow est hs later later2 race gap src disco b' = Some (b', [], True)"
    by (simp add: n(2))
  have pol: "source_policy b' (lb_pub b) src a \<longleftrightarrow> a = tc_addr_for_key src" if "ip_wf a" for a
    using source_policy_iff [OF inv that, of src] k assms(6) i by simp
  have "on_meow est hs now now2 race gap src disco b = Some (b', es, True)"
    by (simp add: on_meow_fresh [OF assms(2,3)] assms(7) a(1))
  then show ?thesis using i pol again by blast
qed

section \<open>The two packets\<close>

lemma announcement_received:
  assumes "\<And>k m. length (hmac k m) = 32" "key_ok (lb_pub cb)" "key_ok (lb_disco_public cb)" "length (lb_nonce cb) = 32"
    "client_announcement hmac cb \<noteq> []" "lb_psk cb = lb_psk b" "lb_server_pub cb = lb_pub b" "slots < meow_slots"
  shows "server_derp_recv hmac b slots region (lb_pub cb) (client_announcement hmac cb) =
     (True, Suc slots, Some (region, lb_pub cb, lb_disco_public cb, lb_nonce cb))"
proof -
  have p: "parse_h3_meow hmac (client_announcement hmac cb) (lb_psk cb) (lb_server_pub cb) (lb_pub cb) False = Some (lb_disco_public cb, lb_nonce cb)"
    using assms(5) unfolding client_announcement_def by (intro parse_encode_h3_meow assms(1-4))
  show ?thesis
    using p parse_h3_meow_magic [OF p] assms(6-8) by (simp add: server_derp_recv_def)
qed

lemma acknowledgement_received:
  assumes "\<And>k m. length (hmac k m) = 32" "key_ok (lb_pub cb)" "key_ok (lb_disco_public cb)" "length (lb_nonce cb) = 32"
    "client_announcement hmac cb \<noteq> []" "lb_psk cb = lb_psk b" "lb_server_pub cb = lb_pub b"
  shows "client_derp_recv hmac cb (lb_pub b)
     (encode_h3_meow hmac (lb_psk b) (lb_pub b) (lb_pub cb) (lb_disco_public cb) (lb_nonce cb) True) = (True, True)"
proof -
  let ?ack = "encode_h3_meow hmac (lb_psk b) (lb_pub b) (lb_pub cb) (lb_disco_public cb) (lb_nonce cb) True"
  have "?ack \<noteq> []"
    using assms(5-7) by (simp add: client_announcement_def encode_h3_meow_nonempty_iff)
  then have p: "parse_h3_meow hmac ?ack (lb_psk b) (lb_pub b) (lb_pub cb) True = Some (lb_disco_public cb, lb_nonce cb)"
    by (intro parse_encode_h3_meow assms(1-4))
  show ?thesis using p parse_h3_meow_magic [OF p] assms(6,7) by (simp add: client_derp_recv_def)
qed

lemma client_source_policy:
  assumes "lb_server_pub cb \<noteq> key_zero" "lb_server_pub cb \<noteq> lb_pub cb"
  shows "tunnel_addr a \<Longrightarrow> source_policy cb (lb_pub cb) (lb_server_pub cb) a"
    "source_policy cb (lb_pub cb) k a \<Longrightarrow> k = lb_server_pub cb"
  using assms by (auto simp: source_policy_def peer_config_def key_is_zero_def split: if_splits)

section \<open>A concrete client\<close>

definition sample_join_conn :: conn_info where
  "sample_join_conn =
     \<lparr>ci_server_public = replicate 32 2, ci_disco = replicate 32 5, ci_psk = replicate 32 3, ci_region = [sample_region],
      ci_region_id = 0\<rparr>"

definition sample_codec :: "wire_conn_info \<Rightarrow> bytes option" where
  "sample_codec c = (if c = wire_of sample_join_conn then Some [1] else None)"

definition sample_join_env :: "unit client_env" where
  "sample_join_env = sample_client_env
     \<lparr>ce_public := (\<lambda>k. replicate 32 7), ce_disco := (\<lambda>k. replicate 32 8), ce_unmarshal := (\<lambda>_. Some (wire_of sample_join_conn))\<rparr>"

definition sample_join_addr :: string where
  "sample_join_addr = h3_address_prefix @ b64_encode [1]"

lemma sample_client_runs:
  assumes "cl_lb c = None" "\<not> cl_started c" "cl_server c = sample_join_addr"
  shows "\<exists>c' cb. ensure_started sample_join_env c () = Some (c', (), None) \<and> cl_lb c' = Some cb"
proof -
  have ad: "addressable sample_join_conn" by (simp add: addressable_def sample_join_conn_def key_zero_def)
  have "parse_wire (\<lambda>_. Some (wire_of sample_join_conn)) sample_join_addr = Inr (wire_of sample_join_conn)"
    by (rule parse_wire_encode [OF ad, of sample_codec "[1]"])
      (simp_all add: conn_addr_def sample_codec_def sample_join_addr_def h3_address_prefix_def)
  note pc = parse_conn_addr_wire_of [OF ad this]
  have k: "ci_disco (carried sample_join_conn) \<noteq> key_zero" "ci_region (carried sample_join_conn) = [carried_region 0 sample_region]"
    by (simp_all add: carried_def sample_join_conn_def key_zero_def)
  have "dr_id (carried_region 0 sample_region) = 1" by (simp add: carried_region_def)
  moreover obtain c2 priv where "node_key_locked (replicate 32 1) c = (c2, priv)" by (cases "node_key_locked (replicate 32 1) c")
  ultimately show ?thesis
    using pc k assms
    by (simp add: ensure_started_def init_locked_def sample_join_env_def sample_client_env_def Let_def
        key_is_zero_def loco_start_def start_netmap_def derp_region_id_def new_loco_backend_def mset_key_fresh)
qed

end
