(* ===== verification/CliMain.thy ===== *)
theory CliMain
  imports CliServer Joining
begin

text \<open>
  The entry points of the command line (\<open>newRootCommand\<close>, \<open>main\<close>, \<open>clientMode\<close>,
  \<open>clientSOCKSMode\<close> and the end of \<open>server\<close> in \<open>cmd/tailcat/tailcat.go\<close>): which mode the
  positional arguments select, what a receiving server offers, what a started server publishes,
  how the pipe client ends, and the clients of a SOCKS proxy. The flag library's parse is a
  parameter: the definitions start from the flag values and the arguments it leaves over.
\<close>

section \<open>Choosing a mode\<close>

datatype usage = BothServeForms | ServeWithArgs | CommandNeedsServer | TooManyArgs | RecvOneDir | RecvNotFiles
  | OneAddress | BadPipePort | BadPipeTarget

datatype root_run = RootHelp | RootServe serve_flags | RootClient string string | RootUsage usage

text \<open>The \<open>Exec\<close> function of the root command; None is the panic of \<open>splitExecArgs\<close>.\<close>

definition root_exec :: "string list \<Rightarrow> serve_flags \<Rightarrow> string list \<Rightarrow> root_run option" where
  "root_exec os_args fl args =
     (if args \<noteq> [] \<and> hd args = ''help'' then Some RootHelp
      else
        (case split_exec_args os_args args of
           None \<Rightarrow> None
         | Some (args, exec_args) \<Rightarrow>
             let server_mode = (args = [] \<or> sf_spec fl \<noteq> [])
             in Some (if args \<noteq> [] \<and> server_mode then RootUsage ServeWithArgs
                      else if server_mode then RootServe (fl\<lparr>sf_exec := exec_args\<rparr>)
                      else if exec_args \<noteq> None then RootUsage CommandNeedsServer
                      else if length args > 2 then RootUsage TooManyArgs
                      else RootClient (hd args) (if length args = 2 then args ! 1 else []))))"

definition serve_exec :: "string list \<Rightarrow> serve_flags \<Rightarrow> string list \<Rightarrow> (usage + serve_flags) option" where
  "serve_exec os_args fl args =
     (case split_exec_args os_args args of
        None \<Rightarrow> None
      | Some (args, exec_args) \<Rightarrow>
          if args \<noteq> [] then
            if sf_spec fl \<noteq> [] then Some (Inl BothServeForms)
            else Some (Inr (fl\<lparr>sf_spec := join '','' args, sf_exec := exec_args\<rparr>))
          else Some (Inr (fl\<lparr>sf_exec := exec_args\<rparr>)))"

definition recv_exec :: "bool \<Rightarrow> serve_flags \<Rightarrow> string list \<Rightarrow> usage + serve_flags" where
  "recv_exec accept_dirs fl args =
     (if length args > 1 then Inl RecvOneDir
      else if sf_files fl \<noteq> [] then Inl RecvNotFiles
      else
        let dir = (if length args = 1 then hd args else ''.'');
            mode = (if accept_dirs then '':wo+'' else '':wo'')
        in Inr (fl\<lparr>sf_files := dir @ mode, sf_spec := [], sf_exec := None\<rparr>))"

text \<open>\<open>clientParseMode\<close> and \<open>clientResolveMode\<close> up to what they print.\<close>

definition client_parse_mode :: "(string \<Rightarrow> addr_error + 'a) \<Rightarrow> string list \<Rightarrow> usage + (addr_error + 'a)" where
  "client_parse_mode parse_raw args = (if length args \<noteq> 1 then Inl OneAddress else Inr (parse_raw (hd args)))"

datatype 'e resolve_stop = ResolveUsage | ResolveArg arg_error | ResolveFailed 'e

definition client_resolve_mode ::
  "(bytes \<Rightarrow> wire_conn_info option) \<Rightarrow> (string \<Rightarrow> string list option) \<Rightarrow> (string \<Rightarrow> 'w \<Rightarrow> 'w \<times> ('e + string))
     \<Rightarrow> string list \<Rightarrow> 'w \<Rightarrow> 'w \<times> ('e resolve_stop + string)" where
  "client_resolve_mode um lookup_txt resolve args w =
     (if length args \<noteq> 1 then (w, Inl ResolveUsage)
      else
        (case snd (tailcat_addr_arg um lookup_txt (hd args)) of
           Inl e \<Rightarrow> (w, Inl (ResolveArg e))
         | Inr addr \<Rightarrow>
             (case resolve addr w of
                (w, Inl e) \<Rightarrow> (w, Inl (ResolveFailed e))
              | (w, Inr out) \<Rightarrow> (w, Inr out))))"

text \<open>\<open>main\<close>: where output goes and the exit status. \<open>parsed\<close> is the error of the flag parse and
  \<open>run_err\<close> the error of the command, which is run after a successful parse only.\<close>

datatype cli_error = ErrHelp | ErrUsage usage | ErrUnknownFlag | ErrMissingValue | ErrOther

datatype main_output = PrintVersion | HelpSelected | HelpServe | HelpAndError | ErrorOnly | Quiet

definition main_exit :: "string list \<Rightarrow> cli_error option \<Rightarrow> cli_error option \<Rightarrow> main_output \<times> nat" where
  "main_exit os_args parsed run_err =
     (if parsed \<noteq> None \<and> ''--version'' \<in> set (tl os_args) then (PrintVersion, 0)
      else
        (case (case parsed of Some e \<Rightarrow> Some e | None \<Rightarrow> run_err) of
           None \<Rightarrow> (Quiet, 0)
         | Some e \<Rightarrow>
             if e = ErrHelp then (HelpSelected, 0)
             else if e = ErrMissingValue \<and> last os_args = ''--serve'' then (HelpServe, 0)
             else if (case e of ErrUsage u \<Rightarrow> True | _ \<Rightarrow> e = ErrUnknownFlag) then (HelpAndError, 1)
             else (ErrorOnly, 1)))"

section \<open>A receiving server\<close>

lemma parse_port_set_empty: "parse_port_set ssh [] = Inr ({}, {})"
  by (simp add: parse_port_set_def)

lemma recv_exec_Inr:
  assumes "recv_exec accept_dirs fl args = Inr fl'"
  obtains dir where "args = [] \<and> dir = ''.'' \<or> args = [dir]"
    "sf_files fl' = dir @ mode_suffix (if accept_dirs then FileServeWOPlus else FileServeWO)" "sf_spec fl' = []" "sf_exec fl' = None"
proof (cases args)
  case Nil
  then show ?thesis using assms that [of "''.''"] by (auto simp: recv_exec_def Let_def split: if_splits)
next
  case (Cons a as)
  then show ?thesis using assms that [of a] by (auto simp: recv_exec_def Let_def split: if_splits)
qed

lemma recv_services:
  assumes "serve_services env fl = Inr p" "sf_spec fl = []" "sf_exec fl = None" "sf_files fl \<noteq> []"
  shows "p = \<lparr>sp_ports = {}, sp_services = {''files''}, sp_exec = None, sp_keys = None\<rparr>"
  using assms
  by (auto simp: serve_services_def parse_port_set_empty exec_service_def check_services_def Let_def split: if_splits)

lemma parse_files_flag_suffix:
  "parse_files_flag abs_path is_dir (dir @ mode_suffix m) = Inr f \<Longrightarrow>
     \<exists>a. abs_path (if dir = [] then ''.'' else dir) = Some a \<and> is_dir a = Some True \<and> f = \<lparr>fs_dir = a, fs_mode = m\<rparr>"
  by (auto simp: parse_files_flag_def files_mode_suffix Let_def split: option.splits bool.splits)

text \<open>C15. \<open>tailcat recv\<close> offers exactly one thing, whatever the directory is called: on port 22 an SSH
  server without a shell, a command or keys that serves the named directory as a drop box, flat
  unless directories are accepted; no other port has a handler and nothing is forwarded.\<close>

theorem recv_is_drop_box:
  assumes "recv_exec accept_dirs fl args = Inr fl'" "cli_serve env fl' w = (w', Inr (addr, s))"
  shows "\<exists>dir a opts. (args = [] \<and> dir = ''.'' \<or> args = [dir]) \<and> sn_abs env (if dir = [] then ''.'' else dir) = Some a
     \<and> opts = \<lparr>so_shell = False, so_exec = [], so_keys = None,
          so_files = Some \<lparr>fs_dir = a, fs_mode = (if accept_dirs then FileServeWOPlus else FileServeWO)\<rparr>\<rparr>
     \<and> sv_on_tcp s = Some (\<lambda>p. if p = 22 then Some (SshConn opts) else None)
     \<and> sv_on_tcp_forward s = None \<and> sv_on_udp_forward s = None \<and> sv_on_udp s = None \<and> sv_served_tcp s = Some [(22, 22)]"
proof -
  obtain dir where d: "args = [] \<and> dir = ''.'' \<or> args = [dir]"
    "sf_files fl' = dir @ mode_suffix (if accept_dirs then FileServeWOPlus else FileServeWO)" "sf_spec fl' = []" "sf_exec fl' = None"
    by (rule recv_exec_Inr [OF assms(1)])
  have ne: "sf_files fl' \<noteq> []" by (simp add: d(2))
  obtain p priv psk reg where p: "serve_services env fl' = Inr p" "build_server env fl' p priv psk reg = Inr s"
    using assms(2) by (auto simp: cli_serve_def split: sum.splits prod.splits option.splits)
  have plan: "p = \<lparr>sp_ports = {}, sp_services = {''files''}, sp_exec = None, sp_keys = None\<rparr>"
    by (rule recv_services [OF p(1) d(3,4) ne])
  have served: "served_tcp_ports p = Some [(22, 22)]"
    by (simp add: plan served_tcp_ports_def one_shot_stdout_def ssh_services_def port_ranges_def extend_ranges_def)
  define s0 where "s0 = (base_server priv psk (\<not> sf_psk fl') reg)\<lparr>sv_served_tcp := served_tcp_ports p\<rparr>"
  obtain s1 ssh where s1: "(if sf_allow fl' = [] then Inr s0 else allow_list (sn_parse_key env) (split_on CHR '','' (sf_allow fl')) s0) = Inr s1"
    "cli_ssh_options env fl' p = Inr ssh" "s = cli_server p ssh s1"
    using p(2) by (auto simp: build_server_def Let_def s0_def split: if_splits sum.splits)
  have "\<exists>ks. s1 = s0\<lparr>sv_allowed_clients := ks\<rparr>"
  proof (cases "sf_allow fl' = []")
    case True
    then have "s1 = s0\<lparr>sv_allowed_clients := sv_allowed_clients s0\<rparr>" using s1(1) by simp
    then show ?thesis by blast
  next
    case False
    have "sv_lb s0 = None" by (simp add: s0_def base_server_def)
    then show ?thesis using False s1(1) allow_list_fields by fastforce
  qed
  then have f: "sv_served_tcp s1 = Some [(22, 22)]" "sv_on_udp s1 = None"
    by (auto simp: s0_def served base_server_def)
  obtain svc where svc: "parse_files_flag (sn_abs env) (sn_is_dir env) (sf_files fl') = Inr svc"
    "ssh = Some \<lparr>so_shell = False, so_exec = [], so_keys = None, so_files = Some svc\<rparr>"
    using s1(2) by (auto simp: cli_ssh_options_def plan ssh_services_def Let_def split: sum.splits)
  obtain a where a: "sn_abs env (if dir = [] then ''.'' else dir) = Some a"
    "svc = \<lparr>fs_dir = a, fs_mode = (if accept_dirs then FileServeWOPlus else FileServeWO)\<rparr>"
    using parse_files_flag_suffix [OF svc(1) [unfolded d(2)]] by auto
  have h: "cli_on_tcp p ssh = (\<lambda>p. if p = 22 then Some (SshConn (the ssh)) else None)"
    by (rule ext) (simp add: cli_on_tcp_def plan one_shot_stdout_def svc(2))
  have "sv_on_tcp s = Some (\<lambda>p. if p = 22 then Some (SshConn (the ssh)) else None)" "sv_on_tcp_forward s = None"
    "sv_on_udp_forward s = None" "sv_on_udp s = None" "sv_served_tcp s = Some [(22, 22)]"
    using f by (simp_all add: s1(3) cli_server_def h) (simp_all add: plan)
  then show ?thesis
    using d(1) a(1) by (intro exI [of _ dir] exI [of _ a] exI [of _ "the ssh"]) (simp add: svc(2) a(2))
qed

definition sample_recv_env :: "unit serve_env" where
  "sample_recv_env = sample_serve_env\<lparr>sn_abs := (\<lambda>d. Some (''/'' @ d)), sn_is_dir := (\<lambda>d. Some True)\<rparr>"

definition sample_recv_flags :: serve_flags where
  "sample_recv_flags = sample_flags\<lparr>sf_spec := [], sf_files := [], sf_allow := []\<rparr>"

lemma sample_recv_serve:
  "\<exists>fl' addr s. recv_exec False sample_recv_flags [''in:rw''] = Inr fl' \<and> cli_serve sample_recv_env fl' () = ((), Inr (addr, s))"
proof -
  let ?fl = "sample_recv_flags\<lparr>sf_files := ''in:rw:wo'', sf_spec := [], sf_exec := None\<rparr>"
  let ?p = "\<lparr>sp_ports = {}, sp_services = {''files''}, sp_exec = None, sp_keys = None\<rparr> :: serve_plan"
  let ?ci = "\<lparr>ci_server_public = replicate 32 2, ci_disco = replicate 32 5, ci_psk = replicate 32 3, ci_region = [], ci_region_id = -1\<rparr>"
  have r: "recv_exec False sample_recv_flags [''in:rw''] = Inr ?fl"
    by (simp add: recv_exec_def sample_recv_flags_def sample_flags_def)
  have v: "serve_services sample_recv_env ?fl = Inr ?p"
    by (simp add: serve_services_def parse_port_set_empty exec_service_def check_services_def sample_recv_env_def
        sample_serve_env_def sample_recv_flags_def sample_flags_def)
  have k: "serve_key sample_recv_env ?fl = Inr (''new'', replicate 32 1, ?ci)"
    by (simp add: serve_key_def sample_recv_env_def sample_serve_env_def sample_recv_flags_def sample_flags_def new_private_key_def)
  have c: "serve_conn sample_recv_env ?fl (replicate 32 1) ?ci () = ((), Inr (clear_unnecessary_region_fields sample_region, sample_conn))"
    by (simp add: serve_conn_def sample_conn_def sample_recv_env_def sample_serve_env_def sample_recv_flags_def sample_flags_def
        zero_conn_info_def clear_unnecessary_region_fields_def sample_region_def Let_def)
  have m: "sn_marshal sample_recv_env (wire_of sample_conn) = Some [1]" by (simp add: sample_recv_env_def sample_serve_env_def)
  have f: "parse_files_flag (sn_abs sample_recv_env) (sn_is_dir sample_recv_env) (''in:rw'' @ mode_suffix FileServeWO) =
      Inr \<lparr>fs_dir = ''/in:rw'', fs_mode = FileServeWO\<rparr>"
    unfolding parse_files_flag_def files_mode_suffix by (simp add: sample_recv_env_def)
  have "\<exists>x. build_server sample_recv_env ?fl ?p (replicate 32 1) (replicate 32 3) (clear_unnecessary_region_fields sample_region) = Inr x"
    using f by (simp add: build_server_def ssh_services_def cli_ssh_options_def sample_recv_flags_def sample_flags_def Let_def)
      (simp add: sample_recv_env_def sample_serve_env_def)
  then show ?thesis using r v k c m by (auto simp: cli_serve_def conn_addr_def)
qed

theorem recv_is_drop_box_witness:
  "\<exists>fl' addr s opts. recv_exec False sample_recv_flags [''in:rw''] = Inr fl' \<and> cli_serve sample_recv_env fl' () = ((), Inr (addr, s))
     \<and> sv_on_tcp s = Some (\<lambda>p. if p = 22 then Some (SshConn opts) else None)
     \<and> so_files opts = Some \<lparr>fs_dir = ''/in:rw'', fs_mode = FileServeWO\<rparr>"
proof -
  obtain fl' addr s where r: "recv_exec False sample_recv_flags [''in:rw''] = Inr fl'" "cli_serve sample_recv_env fl' () = ((), Inr (addr, s))"
    using sample_recv_serve by blast
  have a: "sn_abs sample_recv_env ''in:rw'' = Some ''/in:rw''" by (simp add: sample_recv_env_def)
  from recv_is_drop_box [OF r] show ?thesis using r a by auto
qed

section \<open>What a started server publishes\<close>

datatype announce_effect = WarnNoAuth bool | ListeningNew string | ListeningSaved string string | JsonAddr string
  | SendAddr string string | WriteAddr string string

datatype announce_stop = DerpTimeout | AddrDialFailed | AddrWriteFailed

record announce_env =
  ae_json :: bool
  ae_addr_file :: string
  ae_dial_ok :: bool
  ae_write_ok :: bool

text \<open>The wait for the development relay: whether the server is connected to it and whether the deadline has passed, at
  each poll; None is a wait that goes on.\<close>

fun dev_derp_wait :: "(bool \<times> bool) list \<Rightarrow> bool option" where
  "dev_derp_wait [] = None"
| "dev_derp_wait ((connected, late) # polls) = (if connected then Some True else if late then Some False else dev_derp_wait polls)"

definition announce_file :: "announce_env \<Rightarrow> string \<Rightarrow> announce_effect list \<times> announce_stop option" where
  "announce_file ae addr =
     (if ae_addr_file ae = [] then ([], None)
      else
        (case cut_prefix (ae_addr_file ae) ''tcp:'' of
           Some tcp \<Rightarrow> if ae_dial_ok ae then ([SendAddr tcp addr], None) else ([], Some AddrDialFailed)
         | None \<Rightarrow> if ae_write_ok ae then ([WriteAddr (ae_addr_file ae) addr], None) else ([], Some AddrWriteFailed)))"

text \<open>\<open>server\<close> from \<open>Start\<close> on. \<open>name\<close> is the key flag after it was filled in; the command is given when
  \<open>--\<close> was.\<close>

definition serve_announce ::
  "announce_env \<Rightarrow> bool \<Rightarrow> bool \<Rightarrow> serve_flags \<Rightarrow> string \<Rightarrow> (bool \<times> bool) list option \<Rightarrow> string
     \<Rightarrow> (announce_effect list \<times> announce_stop option) option" where
  "serve_announce ae no_auth command fl name dev addr =
     (let warn = (if no_auth \<and> sf_allow fl = [] then [WarnNoAuth command] else [])
      in (case (case dev of None \<Rightarrow> Some True | Some polls \<Rightarrow> dev_derp_wait polls) of
            None \<Rightarrow> None
          | Some False \<Rightarrow> Some (warn, Some DerpTimeout)
          | Some True \<Rightarrow>
              let say = (if name = ''new'' then ListeningNew addr else ListeningSaved name addr);
                  js = (if ae_json ae then [JsonAddr addr] else []);
                  (out, stop) = announce_file ae addr
              in Some (warn @ [say] @ js @ out, stop)))"

definition published :: "announce_effect \<Rightarrow> string option" where
  "published e = (case e of WarnNoAuth c \<Rightarrow> None | ListeningNew a \<Rightarrow> Some a | ListeningSaved n a \<Rightarrow> Some a | JsonAddr a \<Rightarrow> Some a
     | SendAddr t a \<Rightarrow> Some a | WriteAddr f a \<Rightarrow> Some a)"

text \<open>\<open>server\<close> as a whole; None is a panic of the start or a wait for the relay that goes on.\<close>

datatype server_stop = ServeStop serve_error | StartStop server_error | AnnounceStop announce_stop

definition server_main ::
  "'w serve_env \<Rightarrow> 'w start_env \<Rightarrow> announce_env \<Rightarrow> (bool \<times> bool) list option \<Rightarrow> serve_flags \<Rightarrow> 'w
     \<Rightarrow> ('w \<times> announce_effect list \<times> server_stop option \<times> cli_handler server option) option" where
  "server_main env senv ae dev fl w =
     (case cli_serve env fl w of
        (w, Inl e) \<Rightarrow> Some (w, [], Some (ServeStop e), None)
      | (w, Inr (addr, s)) \<Rightarrow>
          (case (serve_services env fl, serve_key env fl) of
             (Inr p, Inr (name, priv, ci)) \<Rightarrow>
               (case start_locked senv s w of
                  None \<Rightarrow> None
                | Some (s, w, closed, Some e) \<Rightarrow> Some (w, [], Some (StartStop e), Some s)
                | Some (s, w, closed, None) \<Rightarrow>
                    map_option (\<lambda>(es, stop). (w, es, map_option AnnounceStop stop, Some s))
                      (serve_announce ae (''no-auth-ssh'' \<in> sp_services p) (sp_exec p \<noteq> None) fl name dev addr))
           | _ \<Rightarrow> None))"

lemma serve_announce_published:
  assumes "serve_announce ae no_auth command fl name dev addr = Some (es, stop)"
  shows "e \<in> set es \<Longrightarrow> published e = Some a \<Longrightarrow> a = addr"
    "stop = None \<Longrightarrow> (if name = ''new'' then ListeningNew addr else ListeningSaved name addr) \<in> set es"
    "WarnNoAuth c \<in> set es \<longleftrightarrow> no_auth \<and> sf_allow fl = [] \<and> c = command"
    "(ae_json ae \<longleftrightarrow> JsonAddr addr \<in> set es) \<or> stop = Some DerpTimeout"
proof -
  obtain out st where f: "announce_file ae addr = (out, st)" by (cases "announce_file ae addr")
  have o: "set out \<subseteq> {SendAddr t addr | t. True} \<union> {WriteAddr t addr | t. True}"
    using f by (auto simp: announce_file_def split: if_splits option.splits)
  let ?warn = "if no_auth \<and> sf_allow fl = [] then [WarnNoAuth command] else []"
  have es: "es = ?warn \<and> stop = Some DerpTimeout
     \<or> es = ?warn @ [if name = ''new'' then ListeningNew addr else ListeningSaved name addr]
         @ (if ae_json ae then [JsonAddr addr] else []) @ out \<and> stop = st"
    using assms f by (auto simp: serve_announce_def Let_def split: option.splits bool.splits)
  show "e \<in> set es \<Longrightarrow> published e = Some a \<Longrightarrow> a = addr"
    using es o by (fastforce simp: published_def split: if_splits)
  show "stop = None \<Longrightarrow> (if name = ''new'' then ListeningNew addr else ListeningSaved name addr) \<in> set es"
    using es by auto
  show "WarnNoAuth c \<in> set es \<longleftrightarrow> no_auth \<and> sf_allow fl = [] \<and> c = command" using es o by (fastforce split: if_splits)
  show "(ae_json ae \<longleftrightarrow> JsonAddr addr \<in> set es) \<or> stop = Some DerpTimeout" using es o by (fastforce split: if_splits)
qed

lemma server_main_Some:
  assumes "server_main env senv ae dev fl w = Some (w', es, stop, srv)"
  obtains (stopped) "es = []" "stop \<noteq> None" | (started) addr s w1 s' closed p name priv ci st
    where "cli_serve env fl w = (w1, Inr (addr, s))" "start_locked senv s w1 = Some (s', w', closed, None)" "srv = Some s'"
    "serve_services env fl = Inr p" "serve_key env fl = Inr (name, priv, ci)"
    "serve_announce ae (''no-auth-ssh'' \<in> sp_services p) (sp_exec p \<noteq> None) fl name dev addr = Some (es, st)"
    "stop = map_option AnnounceStop st"
proof -
  obtain w1 r where c: "cli_serve env fl w = (w1, r)" by fastforce
  show ?thesis
  proof (cases r)
    case (Inl e)
    then show ?thesis using assms c by (intro stopped) (auto simp: server_main_def)
  next
    case (Inr x)
    obtain addr s where x: "x = (addr, s)" by (cases x)
    obtain p name priv ci where p: "serve_services env fl = Inr p" "serve_key env fl = Inr (name, priv, ci)"
      by (rule cli_serve_Inr [OF c [unfolded Inr x]])
    obtain s' w2 closed e where st: "start_locked senv s w1 = Some (s', w2, closed, e)"
      using assms c Inr x p by (cases "start_locked senv s w1") (auto simp: server_main_def)
    show ?thesis
    proof (cases e)
      case (Some y)
      then show ?thesis using assms c Inr x p st by (intro stopped) (auto simp: server_main_def)
    next
      case None
      then obtain es' st' where a: "serve_announce ae (''no-auth-ssh'' \<in> sp_services p) (sp_exec p \<noteq> None) fl name dev addr = Some (es', st')"
        "(w2, es', map_option AnnounceStop st', Some s') = (w', es, stop, srv)"
        using assms c Inr x p st by (auto simp: server_main_def)
      then show ?thesis using c Inr x p st None by (intro started [of w1 addr s s' closed p name priv ci st']) auto
    qed
  qed
qed

lemma serve_key_nonzero:
  assumes "serve_key env fl = Inr (name, priv, ci)" "sn_new_node env \<noteq> key_zero" "\<And>j k c. sn_json_key env j = Some (k, c) \<Longrightarrow> k \<noteq> key_zero"
  shows "priv \<noteq> key_zero"
proof -
  have "priv = sn_new_node env \<or> (\<exists>j c. sn_json_key env j = Some (priv, c))"
    using assms(1) by (auto simp: serve_key_def new_private_key_def split: if_splits option.splits)
  then show ?thesis using assms(2) assms(3) by metis
qed

text \<open>C14. A server publishes nothing before it runs, and what it then writes to standard error, as JSON or
  to the address file is in each place the address of that running server: it parses to its public
  key, its discovery key and its secret. The warning about open SSH appears exactly when such a
  server has no allow list.\<close>

theorem published_is_running:
  assumes main: "server_main env senv ae dev fl w = Some (w', es, stop, srv)"
    and keys: "se_public senv = sn_public env" "se_disco senv = sn_disco env" "sn_new_psk env \<noteq> key_zero"
      "sn_new_node env \<noteq> key_zero" "\<And>j k c. sn_json_key env j = Some (k, c) \<Longrightarrow> k \<noteq> key_zero"
      "\<And>k. sn_public env k \<noteq> key_zero \<and> sn_disco env k \<noteq> key_zero"
    and codec: "\<And>c x. sn_marshal env (wire_of c) = Some x \<Longrightarrow> unmarshal x = Some (wire_of c)"
    and len: "\<And>e a. e \<in> set es \<Longrightarrow> published e = Some a \<Longrightarrow> length a \<le> 65536"
  shows "(\<forall>e \<in> set es. \<forall>a. published e = Some a \<longrightarrow>
        (\<exists>ci s b. parse_conn_addr unmarshal a = Inr ci \<and> srv = Some s \<and> sv_lb s = Some b \<and> lb_inv b
           \<and> ci_server_public ci = lb_pub b \<and> ci_disco ci = lb_disco_public b \<and> ci_psk ci = lb_psk b))
    \<and> (stop = None \<longrightarrow> (\<exists>e \<in> set es. published e \<noteq> None))
    \<and> (\<forall>c. WarnNoAuth c \<in> set es \<longrightarrow> sf_allow fl = [])"
  using main
proof (cases rule: server_main_Some)
  case stopped
  then show ?thesis by simp
next
  case (started addr s w1 s' closed p name priv ci st)
  note pub = serve_announce_published [OF started(6)]
  have key: "sv_key s \<noteq> key_zero"
  proof -
    obtain p' ssh reg conn name' priv' ci' where c: "serve_key env fl = Inr (name', priv', ci')" "s = plan_server env fl p' ssh priv' (ci_psk ci') reg"
      by (rule cli_serve_Inr [OF started(1)])
    then have "sv_key s = priv'" by (simp add: plan_server_def cli_server_def base_server_def)
    then show ?thesis using serve_key_nonzero [OF c(1) keys(4,5)] by simp
  qed
  obtain g where "s' = s\<lparr>sv_lb := Some (started_backend senv s g), sv_filter := Some (build_filter s (start_backend senv s g))\<rparr>"
    by (rule start_locked_running [OF started(2)])
  then have inv: "\<And>b. sv_lb s' = Some b \<Longrightarrow> lb_inv b" using started_backend by auto
  have "\<exists>ci s b. parse_conn_addr unmarshal a = Inr ci \<and> srv = Some s \<and> sv_lb s = Some b \<and> lb_inv b
     \<and> ci_server_public ci = lb_pub b \<and> ci_disco ci = lb_disco_public b \<and> ci_psk ci = lb_psk b"
    if e: "e \<in> set es" "published e = Some a" for e a
  proof -
    have a: "a = addr" by (rule pub(1) [OF e])
    have l: "length addr \<le> 65536" using len [OF e] by (simp add: a)
    from cli_address_matches [where unmarshal = unmarshal, OF started(1,2) keys(1,2) key keys(3) keys(6) codec l]
    obtain ci b where "parse_conn_addr unmarshal addr = Inr ci" "sv_lb s' = Some b" "ci_server_public ci = lb_pub b"
      "ci_disco ci = lb_disco_public b" "ci_psk ci = lb_psk b" by blast
    then show ?thesis using inv started(3) a by blast
  qed
  moreover have "\<exists>e \<in> set es. published e \<noteq> None" if "stop = None"
  proof -
    have "st = None" using that started(7) by simp
    from pub(2) [OF this] show ?thesis by (rule bexI [rotated]) (simp add: published_def)
  qed
  moreover have "sf_allow fl = []" if "WarnNoAuth c \<in> set es" for c using that pub(3) [of c] by blast
  ultimately show ?thesis by blast
qed

definition sample_announce :: announce_env where
  "sample_announce = \<lparr>ae_json = True, ae_addr_file = ''/tmp/a'', ae_dial_ok = True, ae_write_ok = True\<rparr>"

lemma sample_server_main:
  "\<exists>es srv. server_main sample_serve_env sample_senv sample_announce (Some [(False, False), (True, True)]) sample_flags ()
     = Some ((), es, None, Some srv) \<and> JsonAddr (h3_address_prefix @ b64_encode [1]) \<in> set es
     \<and> (\<forall>e \<in> set es. \<forall>a. published e = Some a \<longrightarrow> a = h3_address_prefix @ b64_encode [1])"
proof -
  obtain s' where s: "start_locked sample_senv sample_cli_server () = Some (s', (), False, None)" using sample_cli_start by blast
  obtain ci where k: "serve_key sample_serve_env sample_flags = Inr (''new'', replicate 32 1, ci)"
    by (simp add: serve_key_def sample_serve_env_def sample_flags_def new_private_key_def)
  have c: "cut_prefix ''/tmp/a'' ''tcp:'' = None" by (simp add: cut_prefix_def)
  have f: "announce_file sample_announce addr = ([WriteAddr ''/tmp/a'' addr], None)" for addr
    unfolding announce_file_def by (simp add: sample_announce_def c)
  have al: "sf_allow sample_flags \<noteq> []" "ae_json sample_announce" by (simp_all add: sample_flags_def sample_announce_def)
  have "serve_announce sample_announce no_auth cmd sample_flags ''new'' (Some [(False, False), (True, True)]) addr =
      Some ([ListeningNew addr, JsonAddr addr, WriteAddr ''/tmp/a'' addr], None)" for no_auth cmd addr
    by (simp add: serve_announce_def f al)
  then show ?thesis
    by (simp add: server_main_def sample_cli_serve sample_services k s published_def)
qed

theorem published_is_running_witness:
  "\<exists>es srv b ci. server_main sample_serve_env sample_senv sample_announce (Some [(False, False), (True, True)]) sample_flags ()
     = Some ((), es, None, Some srv) \<and> sv_lb srv = Some b
     \<and> parse_conn_addr (\<lambda>_. Some (wire_of sample_conn)) (h3_address_prefix @ b64_encode [1]) = Inr ci
     \<and> ci_server_public ci = lb_pub b \<and> ci_psk ci = lb_psk b"
proof -
  obtain es srv where m: "server_main sample_serve_env sample_senv sample_announce (Some [(False, False), (True, True)]) sample_flags ()
     = Some ((), es, None, Some srv)" "JsonAddr (h3_address_prefix @ b64_encode [1]) \<in> set es"
     "\<forall>e \<in> set es. \<forall>a. published e = Some a \<longrightarrow> a = h3_address_prefix @ b64_encode [1]"
    using sample_server_main by blast
  have k: "se_public sample_senv = sn_public sample_serve_env" "se_disco sample_senv = sn_disco sample_serve_env"
    "sn_new_psk sample_serve_env \<noteq> key_zero" "sn_new_node sample_serve_env \<noteq> key_zero"
    "\<And>j k c. sn_json_key sample_serve_env j = Some (k, c) \<Longrightarrow> k \<noteq> key_zero"
    "\<And>k. sn_public sample_serve_env k \<noteq> key_zero \<and> sn_disco sample_serve_env k \<noteq> key_zero"
    by (simp_all add: sample_senv_def) (simp_all add: sample_serve_env_def key_zero_def)
  have c: "sn_marshal sample_serve_env (wire_of c) = Some x \<Longrightarrow> (\<lambda>_. Some (wire_of sample_conn)) x = Some (wire_of c)" for c x
    by (simp add: sample_serve_env_def split: if_splits)
  have l: "length a \<le> 65536" if "e \<in> set es" "published e = Some a" for e a
    using m(3) that by (auto simp: h3_address_prefix_def)
  have "published (JsonAddr (h3_address_prefix @ b64_encode [1])) = Some (h3_address_prefix @ b64_encode [1])"
    by (simp add: published_def)
  moreover have "(\<forall>e \<in> set es. \<forall>a. published e = Some a \<longrightarrow>
        (\<exists>ci s b. parse_conn_addr (\<lambda>_. Some (wire_of sample_conn)) a = Inr ci \<and> Some srv = Some s \<and> sv_lb s = Some b \<and> lb_inv b
           \<and> ci_server_public ci = lb_pub b \<and> ci_disco ci = lb_disco_public b \<and> ci_psk ci = lb_psk b))
    \<and> ((None :: server_stop option) = None \<longrightarrow> (\<exists>e \<in> set es. published e \<noteq> None)) \<and> (\<forall>c. WarnNoAuth c \<in> set es \<longrightarrow> sf_allow sample_flags = [])"
    by (rule published_is_running [OF m(1) k(1-4)]) (erule k(5) | rule k(6) | rule c, assumption | rule l, assumption, assumption)+
  moreover note m(2)
  ultimately have "\<exists>ci s b. parse_conn_addr (\<lambda>_. Some (wire_of sample_conn)) (h3_address_prefix @ b64_encode [1]) = Inr ci
      \<and> Some srv = Some s \<and> sv_lb s = Some b \<and> lb_inv b
      \<and> ci_server_public ci = lb_pub b \<and> ci_disco ci = lb_disco_public b \<and> ci_psk ci = lb_psk b" by blast
  then obtain ci b where "parse_conn_addr (\<lambda>_. Some (wire_of sample_conn)) (h3_address_prefix @ b64_encode [1]) = Inr ci"
    "sv_lb srv = Some b" "ci_server_public ci = lb_pub b" "ci_psk ci = lb_psk b" by auto
  then show ?thesis using m(1) by blast
qed

section \<open>The pipe client\<close>

text \<open>\<open>newClient\<close> and the dial of \<open>clientMode\<close>.\<close>

definition new_cli_client :: "string \<Rightarrow> string \<Rightarrow> key32 \<Rightarrow> client" where
  "new_cli_client url addr priv = (new_client addr)\<lparr>cl_conf_key := priv, cl_derp_map_url := url\<rparr>"

definition pipe_dial where
  "pipe_dial env first events d c w =
     (case d of ServerPort p \<Rightarrow> dial_tcp_port env first events p c w | ExitTarget ap \<Rightarrow> dial_tcp env first events ap c w)"

datatype pipe_effect = PDial dial_target | PCloseWrite | PClose | PDrain

datatype pipe_exit = PipeUsage usage | PipePingFailed | PipeDialFailed | PipeInFailed | PipeNoHalfClose | PipeOutFailed
  | PipeDrainFailed | PipeDone

datatype pipe_event = InputEnd bool | OutputEnd bool

text \<open>After the dial: the copy of standard input in its goroutine and that of the connection in the
  main one, as the list of their ends in the order they happen. \<open>half\<close> says whether the connection can be
  half-closed and whether that succeeds; \<open>drained\<close> is the result of \<open>DrainTCP\<close>. None is a pipe
  that is still open.\<close>

fun pipe_run :: "bool option \<Rightarrow> bool \<Rightarrow> pipe_event list \<Rightarrow> (pipe_effect list \<times> pipe_exit) option" where
  "pipe_run half drained [] = None"
| "pipe_run half drained (InputEnd ok # es) =
     (if \<not> ok then Some ([], PipeInFailed)
      else
        (case half of
           None \<Rightarrow> Some ([], PipeNoHalfClose)
         | Some False \<Rightarrow> Some ([PCloseWrite], PipeInFailed)
         | Some True \<Rightarrow> map_option (\<lambda>(fx, r). (PCloseWrite # fx, r)) (pipe_run half drained es)))"
| "pipe_run half drained (OutputEnd ok # es) =
     Some (if \<not> ok then ([], PipeOutFailed) else ([PClose, PDrain], if drained then PipeDone else PipeDrainFailed))"

definition client_mode ::
  "'w client_env \<Rightarrow> string \<Rightarrow> key32 \<Rightarrow> send_result \<Rightarrow> ping_event list \<Rightarrow> (dial_target \<Rightarrow> bool) \<Rightarrow> bool option \<Rightarrow> bool
     \<Rightarrow> pipe_event list \<Rightarrow> string \<Rightarrow> string \<Rightarrow> 'w \<Rightarrow> (pipe_effect list \<times> pipe_exit) option" where
  "client_mode env url priv first events dial_ok half drained es conn_str opt_dest w =
     (case client_dest opt_dest of
        None \<Rightarrow> Some ([], PipeUsage (if contains_char CHR '':'' opt_dest then BadPipeTarget else BadPipePort))
      | Some d \<Rightarrow>
          (case client_ping env first events (new_cli_client url conn_str priv) w of
             None \<Rightarrow> None
           | Some (c, w, Some e) \<Rightarrow> Some ([], PipePingFailed)
           | Some (c, w, None) \<Rightarrow>
               (case pipe_dial env first events d c w of
                  None \<Rightarrow> None
                | Some (c, w, Inl e) \<Rightarrow> Some ([], PipeDialFailed)
                | Some (c, w, Inr t) \<Rightarrow>
                    if \<not> dial_ok t then Some ([PDial t], PipeDialFailed)
                    else map_option (\<lambda>(fx, r). (PDial t # fx, r)) (pipe_run half drained es))))"

text \<open>What a pipe ends with: the input ended \<open>i\<close> times, at most once and with success \<open>i_ok\<close>, before the
  output did.\<close>

lemma pipe_run_ends:
  "pipe_run half drained (ins @ [OutputEnd ok]) = Some (fx, r) \<Longrightarrow> ins = [] \<or> ins = [InputEnd i_ok] \<Longrightarrow>
     (r = PipeDone \<longleftrightarrow> ok \<and> drained \<and> (ins = [] \<or> i_ok \<and> half = Some True))
     \<and> (r = PipeDone \<longrightarrow> fx = (if ins = [] then [] else [PCloseWrite]) @ [PClose, PDrain])
     \<and> (PDrain \<in> set fx \<longrightarrow> r = PipeDone \<or> r = PipeDrainFailed) \<and> (\<forall>t. PDial t \<notin> set fx)"
  by (auto split: if_splits option.splits bool.splits)

lemma pipe_run_total: "OutputEnd ok \<in> set es \<Longrightarrow> pipe_run half drained es \<noteq> None"
proof (induction half drained es rule: pipe_run.induct)
  case (2 half drained i es)
  then have "pipe_run half drained es \<noteq> None" if "i" "half = Some True" using that by simp
  then show ?case by (auto split: option.splits bool.splits)
qed simp_all

text \<open>Once the ping got through, the dial does not bring the client up again, and it goes to the
  server of the address.\<close>

definition named_dial :: "key32 \<Rightarrow> pipe_dest \<Rightarrow> dial_target" where
  "named_dial pub d =
     (case d of
        ServerPort p \<Rightarrow> DialUser ''tcp'' (join_host_port (ip_string (tc_addr_for_key pub)) (itoa (unat p)))
      | ExitTarget ap \<Rightarrow> DialStream pub (nat64_map ap))"

lemma client_ping_up:
  assumes "client_ping env first events c w = Some (c', w', None)" "cl_lb c = None" "\<not> cl_started c"
  obtains ci priv cb where "parse_conn_addr (ce_unmarshal env) (cl_server c) = Inr ci" "client_of env ci priv cb" "cl_lb c' = Some cb"
    "cl_server_addr c' = tc_addr_for_key (ci_server_public ci)" "cl_up c'"
proof -
  obtain c1 e1 where e: "ensure_started env c w = Some (c1, w', e1)" "e1 = None" "c' = c1\<lparr>cl_up := True\<rparr>"
    using assms(1) by (auto simp: client_ping_def split: option.splits prod.splits)
  obtain ci priv cb where ci: "parse_conn_addr (ce_unmarshal env) (cl_server c) = Inr ci" "client_of env ci priv cb" "cl_lb c1 = Some cb"
    "cl_server_addr c1 = tc_addr_for_key (ci_server_public ci)"
    by (rule ensure_started_client_of [OF e(1) [unfolded e(2)] assms(2,3)])
  show ?thesis by (rule that [OF ci(1,2)]) (simp_all add: e(3) ci(3,4))
qed

lemma pipe_dial_named:
  assumes "client_ping env first events c w = Some (c', w', None)" "cl_lb c = None" "\<not> cl_started c"
  shows "\<exists>ci. parse_conn_addr (ce_unmarshal env) (cl_server c) = Inr ci
     \<and> pipe_dial env first events d c' w' = Some (c', w', Inr (named_dial (ci_server_public ci) d))"
proof -
  obtain ci priv cb where ci: "parse_conn_addr (ce_unmarshal env) (cl_server c) = Inr ci" "client_of env ci priv cb" "cl_lb c' = Some cb"
    "cl_server_addr c' = tc_addr_for_key (ci_server_public ci)" "cl_up c'"
    by (rule client_ping_up [OF assms])
  then have "lb_server_pub cb = ci_server_public ci" by (simp add: client_of_def)
  then show ?thesis using ci
    by (cases d) (simp_all add: pipe_dial_def named_dial_def dial_tcp_port_def dial_tcp_def client_up_def after_up_def)
qed



section \<open>The clients of a SOCKS proxy\<close>

text \<open>\<open>clientSOCKSMode\<close>: clients are numbered in the order they are made, each for an address; the
  fixed server's client, if any, is made first. A request goes through \<open>Dialer\<close>.\<close>

record socks_state =
  ss_clients :: "(string, nat) gomap"
  ss_made :: "string list"

definition socks_start :: "string \<Rightarrow> socks_state" where
  "socks_start addr = (if addr = [] then \<lparr>ss_clients = [], ss_made = []\<rparr> else \<lparr>ss_clients = [(addr, 0)], ss_made = [addr]\<rparr>)"

definition socks_fixed :: "string \<Rightarrow> nat option" where
  "socks_fixed addr = (if addr = [] then None else Some 0)"

definition socks_client :: "string \<Rightarrow> socks_state \<Rightarrow> socks_state \<times> nat" where
  "socks_client a st =
     (case client_for_addr (\<lambda>_. length (ss_made st)) a (ss_clients st) of
        (m, c) \<Rightarrow> (st\<lparr>ss_clients := m, ss_made := (if mget (ss_clients st) a = None then ss_made st @ [a] else ss_made st)\<rparr>, c))"

definition socks_request ::
  "(bytes \<Rightarrow> wire_conn_info option) \<Rightarrow> (string \<Rightarrow> ipaddr list option) \<Rightarrow> string \<Rightarrow> string \<times> string \<Rightarrow> socks_state
     \<Rightarrow> socks_state \<times> (socks_error + nat socks_dial)" where
  "socks_request um lookup fixed req st =
     (case req of (network, addr) \<Rightarrow>
        (case classify_socks_addr um lookup addr of
           Inl e \<Rightarrow> (st, Inl e)
         | Inr dst \<Rightarrow>
             if st_addr dst \<noteq> [] then
               (case socks_client (st_addr dst) st of
                  (st, c) \<Rightarrow> (st, dial_socks_target network dst (socks_fixed fixed) (\<lambda>_. c)))
             else (st, dial_socks_target network dst (socks_fixed fixed) (\<lambda>_. 0))))"

fun socks_session ::
  "(bytes \<Rightarrow> wire_conn_info option) \<Rightarrow> (string \<Rightarrow> ipaddr list option) \<Rightarrow> string \<Rightarrow> (string \<times> string) list \<Rightarrow> socks_state
     \<Rightarrow> socks_state \<times> (socks_error + nat socks_dial) list" where
  "socks_session um lookup fixed [] st = (st, [])"
| "socks_session um lookup fixed (r # rs) st =
     (case socks_request um lookup fixed r st of (st, d) \<Rightarrow>
        (case socks_session um lookup fixed rs st of (st, ds) \<Rightarrow> (st, d # ds)))"

definition socks_inv :: "socks_state \<Rightarrow> bool" where
  "socks_inv st = (distinct (ss_made st) \<and> (\<forall>a i. mget (ss_clients st) a = Some i \<longleftrightarrow> i < length (ss_made st) \<and> ss_made st ! i = a))"

lemma socks_inv_start: "socks_inv (socks_start addr)"
  by (auto simp: socks_inv_def socks_start_def)

lemma socks_inv_mget: "socks_inv st \<Longrightarrow> mget (ss_clients st) a = None \<longleftrightarrow> a \<notin> set (ss_made st)"
proof -
  assume i: "socks_inv st"
  have "mget (ss_clients st) a \<noteq> None \<longleftrightarrow> (\<exists>n. mget (ss_clients st) a = Some n)" by simp
  also have "\<dots> \<longleftrightarrow> a \<in> set (ss_made st)" using i by (auto simp: socks_inv_def in_set_conv_nth)
  finally show ?thesis by blast
qed

lemma socks_client_spec:
  assumes "socks_inv st" "socks_client a st = (st', c)"
  shows "socks_inv st'" "c < length (ss_made st')" "ss_made st' ! c = a" "\<exists>new. ss_made st' = ss_made st @ new"
proof -
  have "socks_inv st' \<and> c < length (ss_made st') \<and> ss_made st' ! c = a \<and> (\<exists>new. ss_made st' = ss_made st @ new)"
  proof (cases "mget (ss_clients st) a")
    case None
    then have st': "st' = \<lparr>ss_clients = mset_key a (length (ss_made st)) (ss_clients st), ss_made = ss_made st @ [a]\<rparr>"
      "c = length (ss_made st)"
      using assms(2) by (auto simp: socks_client_def client_for_addr_def)
    have "a \<notin> set (ss_made st)" using None socks_inv_mget [OF assms(1)] by simp
    then have "socks_inv st'"
      using assms(1) by (auto simp: st' socks_inv_def mget_mset_key nth_append less_Suc_eq split: if_splits)
    then show ?thesis by (simp add: st')
  next
    case (Some i)
    then have "st' = st" "c = i" using assms(2) by (auto simp: socks_client_def client_for_addr_def)
    then show ?thesis using assms(1) Some by (simp add: socks_inv_def)
  qed
  then show "socks_inv st'" "c < length (ss_made st')" "ss_made st' ! c = a" "\<exists>new. ss_made st' = ss_made st @ new" by blast+
qed

definition dial_client :: "socks_error + nat socks_dial \<Rightarrow> nat option" where
  "dial_client d = (case d of Inl e \<Rightarrow> None | Inr (DialPort u c p) \<Rightarrow> Some c | Inr (DialTarget u c ap) \<Rightarrow> Some c)"

definition request_addr ::
  "(bytes \<Rightarrow> wire_conn_info option) \<Rightarrow> (string \<Rightarrow> ipaddr list option) \<Rightarrow> string \<Rightarrow> string \<times> string \<Rightarrow> string" where
  "request_addr um lookup fixed req =
     (case classify_socks_addr um lookup (snd req) of Inl e \<Rightarrow> fixed | Inr dst \<Rightarrow> if st_addr dst \<noteq> [] then st_addr dst else fixed)"

definition fixed_first :: "string \<Rightarrow> socks_state \<Rightarrow> bool" where
  "fixed_first fixed st = (fixed \<noteq> [] \<longrightarrow> ss_made st \<noteq> [] \<and> ss_made st ! 0 = fixed)"

lemma fixed_first_grows: "fixed_first fixed st \<Longrightarrow> ss_made st' = ss_made st @ new \<Longrightarrow> fixed_first fixed st'"
  by (auto simp: fixed_first_def nth_append)

lemma dial_client_socks:
  "dial_client (dial_socks_target network dst cl mk) = Some c \<Longrightarrow> if st_addr dst \<noteq> [] then c = mk (st_addr dst) else cl = Some c"
  by (auto simp: dial_client_def dial_socks_target_def Let_def split: if_splits option.splits)

lemma socks_request_spec:
  assumes "socks_inv st" "fixed_first fixed st" "socks_request um lookup fixed req st = (st', d)"
  shows "socks_inv st' \<and> fixed_first fixed st' \<and> (\<exists>new. ss_made st' = ss_made st @ new)
     \<and> (\<forall>c. dial_client d = Some c \<longrightarrow> c < length (ss_made st') \<and> ss_made st' ! c = request_addr um lookup fixed req)
     \<and> (st' \<noteq> st \<longrightarrow> (\<exists>c. dial_client d = Some c))"
proof -
  obtain network addr where req: "req = (network, addr)" by fastforce
  show ?thesis
  proof (cases "classify_socks_addr um lookup addr")
    case (Inl e)
    then show ?thesis using assms by (auto simp: socks_request_def req dial_client_def)
  next
    case (Inr dst)
    show ?thesis
    proof (cases "st_addr dst = []")
      case True
      then have "st' = st" "d = dial_socks_target network dst (socks_fixed fixed) (\<lambda>_. 0)"
        using assms(3) Inr by (simp_all add: socks_request_def req)
      then show ?thesis
        using assms(1,2) True Inr dial_client_socks [of network dst "socks_fixed fixed" "\<lambda>_. 0"]
        by (auto simp: socks_fixed_def fixed_first_def request_addr_def req split: if_splits)
    next
      case False
      obtain st1 c where c: "socks_client (st_addr dst) st = (st1, c)" by fastforce
      then have d: "st' = st1" "d = dial_socks_target network dst (socks_fixed fixed) (\<lambda>_. c)"
        using assms(3) Inr False by (simp_all add: socks_request_def req)
      then have dc: "dial_client d = Some c" using False by (simp add: dial_client_def dial_socks_target_def Let_def)
      note sc = socks_client_spec [OF assms(1) c]
      obtain new where "ss_made st1 = ss_made st @ new" using sc(4) by blast
      then show ?thesis using sc(1-3) fixed_first_grows [OF assms(2)] d(1) dc False Inr by (auto simp: request_addr_def req)
    qed
  qed
qed

lemma socks_session_spec:
  "socks_inv st \<Longrightarrow> fixed_first fixed st \<Longrightarrow> socks_session um lookup fixed rs st = (st', ds) \<Longrightarrow>
     socks_inv st' \<and> (\<exists>new. ss_made st' = ss_made st @ new) \<and> length ds = length rs
     \<and> (\<forall>i c. i < length rs \<longrightarrow> dial_client (ds ! i) = Some c \<longrightarrow>
          c < length (ss_made st') \<and> ss_made st' ! c = request_addr um lookup fixed (rs ! i))"
proof (induction rs arbitrary: st ds)
  case (Cons r rs)
  obtain st1 d where r: "socks_request um lookup fixed r st = (st1, d)" by fastforce
  obtain ds' where s: "socks_session um lookup fixed rs st1 = (st', ds')" "ds = d # ds'"
    using Cons.prems(3) r by (auto split: prod.splits)
  note q = socks_request_spec [OF Cons.prems(1,2) r]
  obtain n1 where n1: "ss_made st1 = ss_made st @ n1" using q by blast
  have ih: "socks_inv st' \<and> (\<exists>new. ss_made st' = ss_made st1 @ new) \<and> length ds' = length rs
     \<and> (\<forall>i c. i < length rs \<longrightarrow> dial_client (ds' ! i) = Some c \<longrightarrow>
          c < length (ss_made st') \<and> ss_made st' ! c = request_addr um lookup fixed (rs ! i))"
    by (rule Cons.IH [OF _ _ s(1)]) (use q in simp_all)
  then obtain n2 where n2: "ss_made st' = ss_made st1 @ n2" by blast
  have "c < length (ss_made st') \<and> ss_made st' ! c = request_addr um lookup fixed ((r # rs) ! i)"
    if "i < length (r # rs)" "dial_client (ds ! i) = Some c" for i c
  proof (cases i)
    case 0
    then have "c < length (ss_made st1)" "ss_made st1 ! c = request_addr um lookup fixed r" using that q s(2) by auto
    then show ?thesis using 0 n2 by (simp add: nth_append)
  next
    case (Suc j)
    then show ?thesis using that ih s(2) by simp
  qed
  then show ?case using ih n1 n2 s(2) by simp
qed simp

text \<open>Over any sequence of SOCKS requests a proxy makes at most one client per address, the fixed
  server's first, and every dial goes through the one client made for the address it names, or for
  the fixed server when it names none; two dials to one address therefore share their client.\<close>

theorem socks_one_client_each:
  assumes "socks_session um lookup fixed rs (socks_start fixed) = (st, ds)"
  shows "distinct (ss_made st) \<and> length ds = length rs
    \<and> (fixed \<noteq> [] \<longrightarrow> (\<exists>new. ss_made st = fixed # new))
    \<and> (\<forall>i c. i < length rs \<longrightarrow> dial_client (ds ! i) = Some c \<longrightarrow>
         c < length (ss_made st) \<and> ss_made st ! c = request_addr um lookup fixed (rs ! i))
    \<and> (\<forall>i j c d. i < length rs \<longrightarrow> j < length rs \<longrightarrow> dial_client (ds ! i) = Some c \<longrightarrow> dial_client (ds ! j) = Some d \<longrightarrow>
         (c = d \<longleftrightarrow> request_addr um lookup fixed (rs ! i) = request_addr um lookup fixed (rs ! j)))"
proof -
  have f: "fixed_first fixed (socks_start fixed)" by (simp add: fixed_first_def socks_start_def)
  note s = socks_session_spec [OF socks_inv_start f assms]
  have d: "distinct (ss_made st)" using s by (simp add: socks_inv_def)
  have "\<exists>new. ss_made st = fixed # new" if "fixed \<noteq> []"
    using s that by (auto simp: socks_start_def)
  moreover have "c = d \<longleftrightarrow> request_addr um lookup fixed (rs ! i) = request_addr um lookup fixed (rs ! j)"
    if "i < length rs" "j < length rs" "dial_client (ds ! i) = Some c" "dial_client (ds ! j) = Some d" for i j c d
  proof -
    have "c < length (ss_made st)" "ss_made st ! c = request_addr um lookup fixed (rs ! i)"
      "d < length (ss_made st)" "ss_made st ! d = request_addr um lookup fixed (rs ! j)"
      using s that by blast+
    then show ?thesis using nth_eq_iff_index_eq [OF d] by metis
  qed
  ultimately show ?thesis using s d by blast
qed

theorem socks_one_client_each_witness:
  "\<exists>st ds. socks_session (\<lambda>_. None) (\<lambda>_. None) ''tch3x'' [(''tcp'', ''server.tailcat:80''), (''tcp'', ''10.0.0.1:22'')]
       (socks_start ''tch3x'') = (st, ds) \<and> distinct (ss_made st) \<and> (\<exists>new. ss_made st = ''tch3x'' # new)"
proof -
  obtain st ds where s: "socks_session (\<lambda>_. None) (\<lambda>_. None) ''tch3x'' [(''tcp'', ''server.tailcat:80''), (''tcp'', ''10.0.0.1:22'')]
       (socks_start ''tch3x'') = (st, ds)" by fastforce
  from socks_one_client_each [OF s] s show ?thesis by auto
qed

end
