(* ===== verification/Web.thy ===== *)
theory Web
  imports CliMain
begin

text \<open>
  The browser build (\<open>web/bridge_js.go\<close> and \<open>web/main_js.go\<close>): the registry through which
  JavaScript calls Go, the life of a connection object handed to the page, and the two functions
  the page sees, \<open>tailcatListen\<close> and \<open>tailcatDial\<close>. The JavaScript engine, JSON, the relay map and
  the transport are parameters; a panic is an error value.
\<close>

section \<open>The callback registry\<close>

text \<open>Every connection object and every server object owns a number; its methods are bound to one
  dispatcher that looks the number up. An owner's struct outlives its entry in the registry.
  \<open>jo_pending\<close> counts the goroutines that are about to close the owner's resource, \<open>jo_closed\<close>
  the closes done, \<open>jo_notified\<close> the calls of \<open>onClose\<close>.\<close>

datatype owner_kind = ConnOwner bool | ServerOwner

record js_owner =
  jo_kind :: owner_kind
  jo_methods :: "string list"
  jo_once :: bool
  jo_pending :: nat
  jo_closed :: nat
  jo_notified :: nat

record bridge =
  br_next :: nat
  br_structs :: "js_owner list"
  br_owners :: "nat list"

definition bridge_init :: bridge where
  "bridge_init = \<lparr>br_next = 0, br_structs = [], br_owners = []\<rparr>"

definition new_js_callbacks :: "owner_kind \<Rightarrow> bridge \<Rightarrow> bridge \<times> nat" where
  "new_js_callbacks kind b =
     (let i = Suc (br_next b);
          o' = \<lparr>jo_kind = kind, jo_methods = [], jo_once = False, jo_pending = 0, jo_closed = 0, jo_notified = 0\<rparr>
      in (b\<lparr>br_next := i, br_structs := br_structs b @ [o'], br_owners := i # br_owners b\<rparr>, i))"

definition owner_of :: "bridge \<Rightarrow> nat \<Rightarrow> js_owner" where
  "owner_of b i = br_structs b ! (i - 1)"

definition set_owner :: "nat \<Rightarrow> (js_owner \<Rightarrow> js_owner) \<Rightarrow> bridge \<Rightarrow> bridge" where
  "set_owner i f b = b\<lparr>br_structs := (br_structs b)[i - 1 := f (owner_of b i)]\<rparr>"

definition js_bind :: "nat \<Rightarrow> string \<Rightarrow> bridge \<Rightarrow> bridge" where
  "js_bind i name = set_owner i (\<lambda>o'. o'\<lparr>jo_methods := name # jo_methods o'\<rparr>)"

definition js_release :: "nat \<Rightarrow> bridge \<Rightarrow> bridge" where
  "js_release i b = b\<lparr>br_owners := removeAll i (br_owners b)\<rparr>"

text \<open>\<open>closeConn\<close> of \<open>makeJSConn\<close>, and the \<open>close\<close> of a server object.\<close>

definition close_conn :: "nat \<Rightarrow> bridge \<Rightarrow> bridge" where
  "close_conn i b =
     (if jo_once (owner_of b i) then b
      else set_owner i (\<lambda>o'. o'\<lparr>jo_once := True, jo_pending := Suc (jo_pending o')\<rparr>) (js_release i b))"

definition close_server :: "nat \<Rightarrow> bridge \<Rightarrow> bridge" where
  "close_server i b = set_owner i (\<lambda>o'. o'\<lparr>jo_pending := Suc (jo_pending o')\<rparr>) (js_release i b)"

text \<open>The goroutine that closes.\<close>

definition finish_close :: "nat \<Rightarrow> bridge \<Rightarrow> bridge" where
  "finish_close i =
     set_owner i (\<lambda>o'. o'\<lparr>jo_pending := jo_pending o' - 1, jo_closed := Suc (jo_closed o'),
       jo_notified := (if jo_kind o' = ConnOwner True then Suc (jo_notified o') else jo_notified o')\<rparr>)"

datatype js_answer = AnsNull | AnsClosedPipe | AnsPromise

definition callback_dispatch :: "nat \<Rightarrow> string \<Rightarrow> bridge \<Rightarrow> bridge \<times> js_answer" where
  "callback_dispatch i name b =
     (if i \<in> set (br_owners b) \<and> name \<in> set (jo_methods (owner_of b i)) then
        if name = ''close'' then
          (case jo_kind (owner_of b i) of ConnOwner n \<Rightarrow> (close_conn i b, AnsNull) | ServerOwner \<Rightarrow> (close_server i b, AnsNull))
        else (b, AnsPromise)
      else (b, if name = ''close'' then AnsNull else AnsClosedPipe))"

definition js_methods :: "owner_kind \<Rightarrow> string set" where
  "js_methods kind = (case kind of ConnOwner n \<Rightarrow> {''read'', ''write'', ''closeWrite'', ''close''} | ServerOwner \<Rightarrow> {''close''})"

text \<open>What the promises of a connection's methods settle with: a read of some bytes wins over its error,
  and the end of the stream and an empty read are null; \<open>half\<close> says whether the connection can be
  half-closed and the error of doing so.\<close>

datatype js_settled = Bytes bytes | SettledNull | SettledUndefined | Rejected string

definition js_read :: "bytes \<Rightarrow> string option \<Rightarrow> js_settled" where
  "js_read got err =
     (if got \<noteq> [] then Bytes got
      else (case err of None \<Rightarrow> SettledNull | Some e \<Rightarrow> if e = ''EOF'' then SettledNull else Rejected e))"

definition js_write :: "nat \<Rightarrow> string option \<Rightarrow> js_settled" where
  "js_write args err =
     (if args \<noteq> 1 then Rejected ''write requires a Uint8Array''
      else (case err of None \<Rightarrow> SettledUndefined | Some e \<Rightarrow> Rejected e))"

definition js_close_write :: "string option option \<Rightarrow> js_settled" where
  "js_close_write half =
     (case half of
        None \<Rightarrow> Rejected ''connection does not support half-close''
      | Some None \<Rightarrow> SettledUndefined
      | Some (Some e) \<Rightarrow> Rejected e)"

text \<open>Reading to the end gives the page the bytes of the stream: every chunk once, then null.\<close>

lemma js_read_stream:
  "list_all (\<lambda>c. c \<noteq> []) chunks \<Longrightarrow>
     map (\<lambda>c. js_read c None) chunks @ [js_read [] (Some ''EOF'')] = map Bytes chunks @ [SettledNull]"
  by (induction chunks) (auto simp: js_read_def)

text \<open>What happens in a page: objects are made and their methods bound, JavaScript calls a method of
  any object it ever got, a connection's session ends (\<open>Done\<close>), and closing goroutines run.\<close>

inductive bridge_step :: "bridge \<Rightarrow> bridge \<Rightarrow> bool" where
  make: "bridge_step b (fst (new_js_callbacks kind b))"
| bind: "1 \<le> i \<Longrightarrow> i \<le> br_next b \<Longrightarrow> name \<in> js_methods (jo_kind (owner_of b i)) \<Longrightarrow> bridge_step b (js_bind i name b)"
| call: "1 \<le> i \<Longrightarrow> i \<le> br_next b \<Longrightarrow> bridge_step b (fst (callback_dispatch i name b))"
| lifetime: "1 \<le> i \<Longrightarrow> i \<le> br_next b \<Longrightarrow> jo_kind (owner_of b i) = ConnOwner n \<Longrightarrow> bridge_step b (close_conn i b)"
| finish: "1 \<le> i \<Longrightarrow> i \<le> br_next b \<Longrightarrow> 0 < jo_pending (owner_of b i) \<Longrightarrow> bridge_step b (finish_close i b)"

inductive_cases bridge_stepE: "bridge_step b b'"

definition owner_ok :: "bool \<Rightarrow> js_owner \<Rightarrow> bool" where
  "owner_ok live o' =
     (jo_pending o' + jo_closed o' = (if live then 0 else 1)
      \<and> (\<forall>n. jo_kind o' = ConnOwner n \<longrightarrow> jo_once o' \<noteq> live)
      \<and> jo_notified o' = (if jo_kind o' = ConnOwner True then jo_closed o' else 0)
      \<and> set (jo_methods o') \<subseteq> js_methods (jo_kind o'))"

definition bridge_inv :: "bridge \<Rightarrow> bool" where
  "bridge_inv b =
     (length (br_structs b) = br_next b \<and> set (br_owners b) \<subseteq> {1..br_next b}
      \<and> (\<forall>i. 1 \<le> i \<longrightarrow> i \<le> br_next b \<longrightarrow> owner_ok (i \<in> set (br_owners b)) (owner_of b i)))"

lemma owner_of_set_owner:
  "1 \<le> i \<Longrightarrow> i \<le> length (br_structs b) \<Longrightarrow> 1 \<le> j \<Longrightarrow>
     owner_of (set_owner i f b) j = (if i = j then f (owner_of b i) else owner_of b j)"
  by (auto simp: owner_of_def set_owner_def nth_list_update)

lemma set_owner_fields [simp]:
  "br_next (set_owner i f b) = br_next b" "br_owners (set_owner i f b) = br_owners b"
  "length (br_structs (set_owner i f b)) = length (br_structs b)"
  by (simp_all add: set_owner_def)

lemma js_release_fields [simp]:
  "br_next (js_release i b) = br_next b" "br_owners (js_release i b) = removeAll i (br_owners b)"
  "br_structs (js_release i b) = br_structs b" "owner_of (js_release i b) = owner_of b"
  by (simp_all add: js_release_def owner_of_def fun_eq_iff)

lemma bridge_inv_owner: "bridge_inv b \<Longrightarrow> 1 \<le> i \<Longrightarrow> i \<le> br_next b \<Longrightarrow> owner_ok (i \<in> set (br_owners b)) (owner_of b i)"
  by (simp add: bridge_inv_def)

text \<open>An update of one owner, with or without its release, keeps the invariant when the owner stays
  well-formed.\<close>

lemma bridge_inv_update:
  assumes "bridge_inv b" "1 \<le> i" "i \<le> br_next b" "owner_ok (i \<in> set (br_owners b)) (f (owner_of b i))"
  shows "bridge_inv (set_owner i f b)"
  using assms by (auto simp: bridge_inv_def owner_of_set_owner)

lemma bridge_inv_release:
  assumes "bridge_inv b" "1 \<le> i" "i \<le> br_next b" "owner_ok False (f (owner_of b i))"
  shows "bridge_inv (set_owner i f (js_release i b))"
  using assms by (auto simp: bridge_inv_def owner_of_set_owner)

lemma close_conn_inv:
  assumes "bridge_inv b" "1 \<le> i" "i \<le> br_next b" "jo_kind (owner_of b i) = ConnOwner n"
  shows "bridge_inv (close_conn i b)" "i \<notin> set (br_owners (close_conn i b))"
proof -
  note ok = bridge_inv_owner [OF assms(1-3)]
  show "bridge_inv (close_conn i b)"
  proof (cases "jo_once (owner_of b i)")
    case False
    then show ?thesis
      using ok assms(4) unfolding close_conn_def by (simp, intro bridge_inv_release assms(1-3)) (auto simp: owner_ok_def)
  qed (simp add: close_conn_def assms(1))
  show "i \<notin> set (br_owners (close_conn i b))" using ok assms(4) by (auto simp: close_conn_def owner_ok_def)
qed

lemma close_server_inv:
  assumes "bridge_inv b" "1 \<le> i" "i \<le> br_next b" "jo_kind (owner_of b i) = ServerOwner" "i \<in> set (br_owners b)"
  shows "bridge_inv (close_server i b)"
  unfolding close_server_def
  by (rule bridge_inv_release [OF assms(1-3)]) (use bridge_inv_owner [OF assms(1-3)] assms(4,5) in \<open>auto simp: owner_ok_def\<close>)

lemma dispatch_inv:
  assumes "bridge_inv b" "1 \<le> i" "i \<le> br_next b"
  shows "bridge_inv (fst (callback_dispatch i name b))"
  using assms close_conn_inv(1) [OF assms] close_server_inv [OF assms]
  by (auto simp: callback_dispatch_def split: owner_kind.splits)

lemma bridge_inv_step: "bridge_step b b' \<Longrightarrow> bridge_inv b \<Longrightarrow> bridge_inv b'"
proof (induction rule: bridge_step.induct)
  case (make b kind)
  then show ?case
    by (auto simp: new_js_callbacks_def bridge_inv_def owner_of_def nth_append owner_ok_def Let_def)
next
  case (bind i b name)
  show ?case unfolding js_bind_def
    by (rule bridge_inv_update) (use bind bridge_inv_owner [of b i] in \<open>auto simp: owner_ok_def\<close>)
next
  case (call i b name)
  then show ?case by (intro dispatch_inv)
next
  case (lifetime i b n)
  then show ?case by (intro close_conn_inv)
next
  case (finish i b)
  show ?case unfolding finish_close_def
    by (rule bridge_inv_update) (use finish bridge_inv_owner [of b i] in \<open>auto simp: owner_ok_def split: if_splits\<close>)
qed

lemma bridge_inv_steps: "bridge_step\<^sup>*\<^sup>* b b' \<Longrightarrow> bridge_inv b \<Longrightarrow> bridge_inv b'"
  by (induction rule: rtranclp_induct) (auto intro: bridge_inv_step)

lemma bridge_inv_init: "bridge_inv bridge_init"
  by (simp add: bridge_inv_def bridge_init_def)

lemma set_owner_kind:
  "1 \<le> i \<Longrightarrow> i \<le> length (br_structs b) \<Longrightarrow> 1 \<le> j \<Longrightarrow> (\<And>o'. jo_kind (f o') = jo_kind o') \<Longrightarrow>
     jo_kind (owner_of (set_owner i f b) j) = jo_kind (owner_of b j)"
  by (simp add: owner_of_set_owner)

text \<open>Steps keep the kinds of the owners there are, and a released number is never an owner again.\<close>

lemma bridge_step_keeps:
  "bridge_step b b' \<Longrightarrow> bridge_inv b \<Longrightarrow> 1 \<le> j \<Longrightarrow> j \<le> br_next b \<Longrightarrow>
     j \<le> br_next b' \<and> jo_kind (owner_of b' j) = jo_kind (owner_of b j) \<and> (j \<notin> set (br_owners b) \<longrightarrow> j \<notin> set (br_owners b'))"
proof (induction rule: bridge_step.induct)
  case (make b kind)
  then show ?case by (auto simp: new_js_callbacks_def Let_def owner_of_def nth_append bridge_inv_def)
next
  case (bind i b name)
  then show ?case by (simp add: js_bind_def set_owner_kind bridge_inv_def)
next
  case (call i b name)
  then show ?case
    by (auto simp: callback_dispatch_def close_conn_def close_server_def set_owner_kind bridge_inv_def split: owner_kind.splits)
next
  case (lifetime i b n)
  then show ?case by (auto simp: close_conn_def set_owner_kind bridge_inv_def)
next
  case (finish i b)
  then show ?case by (simp add: finish_close_def set_owner_kind bridge_inv_def)
qed

lemma bridge_steps_keep:
  "bridge_step\<^sup>*\<^sup>* b b' \<Longrightarrow> bridge_inv b \<Longrightarrow> 1 \<le> j \<Longrightarrow> j \<le> br_next b \<Longrightarrow>
     bridge_inv b' \<and> j \<le> br_next b' \<and> jo_kind (owner_of b' j) = jo_kind (owner_of b j)
     \<and> (j \<notin> set (br_owners b) \<longrightarrow> j \<notin> set (br_owners b'))"
proof (induction rule: rtranclp_induct)
  case (step y z)
  then show ?case using bridge_step_keeps [OF step.hyps(2)] bridge_inv_step [OF step.hyps(2)] by auto
qed simp

lemma dead_finishes:
  assumes "bridge_inv b" "1 \<le> i" "i \<le> br_next b" "i \<notin> set (br_owners b)"
  shows "\<exists>b'. bridge_step\<^sup>*\<^sup>* b b' \<and> jo_closed (owner_of b' i) = 1
     \<and> jo_notified (owner_of b' i) = (if jo_kind (owner_of b i) = ConnOwner True then 1 else 0)"
proof -
  have ok: "owner_ok False (owner_of b i)" using bridge_inv_owner [OF assms(1-3)] assms(4) by simp
  show ?thesis
  proof (cases "jo_pending (owner_of b i) = 0")
    case True
    then show ?thesis using ok by (intro exI [of _ b]) (auto simp: owner_ok_def)
  next
    case False
    then have p: "bridge_step b (finish_close i b)" by (intro bridge_step.finish assms(2,3)) simp
    have "jo_pending (owner_of b i) = 1" "jo_closed (owner_of b i) = 0" "jo_notified (owner_of b i) = 0"
      using ok False by (auto simp: owner_ok_def)
    then have "jo_closed (owner_of (finish_close i b) i) = 1
        \<and> jo_notified (owner_of (finish_close i b) i) = (if jo_kind (owner_of b i) = ConnOwner True then 1 else 0)"
      using assms(1-3) by (simp add: finish_close_def owner_of_set_owner bridge_inv_def)
    then show ?thesis using p by blast
  qed
qed

text \<open>C23. In every page, whatever JavaScript calls and however closes, session ends and goroutines
  interleave: a connection or server object is closed at most once, its \<open>onClose\<close> runs at most once
  and not before, and its number never comes to mean another object. Once it was released, a saved method of it does
  nothing ever after (\<open>close\<close> returns, every other method rejects with a closed pipe), and its
  resource can still be closed; \<open>close\<close> releases it.\<close>

theorem bridge_closes_once:
  assumes "bridge_step\<^sup>*\<^sup>* bridge_init b" "1 \<le> i" "i \<le> br_next b" "bridge_step\<^sup>*\<^sup>* b b'"
  shows "jo_closed (owner_of b' i) \<le> 1 \<and> jo_notified (owner_of b' i) \<le> jo_closed (owner_of b' i)
    \<and> jo_kind (owner_of b' i) = jo_kind (owner_of b i)
    \<and> (i \<in> set (br_owners b') \<longleftrightarrow> jo_pending (owner_of b' i) + jo_closed (owner_of b' i) = 0)
    \<and> (i \<notin> set (br_owners b) \<longrightarrow>
         (\<forall>name. callback_dispatch i name b' = (b', if name = ''close'' then AnsNull else AnsClosedPipe))
         \<and> (\<exists>b''. bridge_step\<^sup>*\<^sup>* b' b'' \<and> jo_closed (owner_of b'' i) = 1
              \<and> jo_notified (owner_of b'' i) = (if jo_kind (owner_of b i) = ConnOwner True then 1 else 0)))
    \<and> (''close'' \<in> set (jo_methods (owner_of b' i)) \<longrightarrow> i \<notin> set (br_owners (fst (callback_dispatch i ''close'' b'))))"
proof -
  have inv: "bridge_inv b" by (rule bridge_inv_steps [OF assms(1) bridge_inv_init])
  note k = bridge_steps_keep [OF assms(4) inv assms(2,3)]
  then have ok: "owner_ok (i \<in> set (br_owners b')) (owner_of b' i)" using bridge_inv_owner assms(2) by blast
  have dead: "(\<forall>name. callback_dispatch i name b' = (b', if name = ''close'' then AnsNull else AnsClosedPipe))
         \<and> (\<exists>b''. bridge_step\<^sup>*\<^sup>* b' b'' \<and> jo_closed (owner_of b'' i) = 1
              \<and> jo_notified (owner_of b'' i) = (if jo_kind (owner_of b i) = ConnOwner True then 1 else 0))"
    if "i \<notin> set (br_owners b)"
  proof -
    have d: "i \<notin> set (br_owners b')" using k that by blast
    then show ?thesis using dead_finishes [of b' i] k assms(2) by (simp add: callback_dispatch_def)
  qed
  have "i \<notin> set (br_owners (fst (callback_dispatch i ''close'' b')))" if "''close'' \<in> set (jo_methods (owner_of b' i))"
    using that close_conn_inv(2) [of b' i] k assms(2)
    by (auto simp: callback_dispatch_def close_server_def split: owner_kind.splits)
  then show ?thesis using ok k dead by (auto simp: owner_ok_def split: if_splits)
qed

theorem bridge_closes_once_witness:
  "\<exists>b b'. bridge_step\<^sup>*\<^sup>* bridge_init b \<and> bridge_step\<^sup>*\<^sup>* b b' \<and> 1 \<notin> set (br_owners b)
     \<and> callback_dispatch 1 ''read'' b' = (b', AnsClosedPipe) \<and> jo_closed (owner_of b' 1) \<le> 1"
proof -
  let ?b1 = "fst (new_js_callbacks (ConnOwner True) bridge_init)"
  have k: "br_next ?b1 = 1" "jo_kind (owner_of ?b1 1) = ConnOwner True"
    by (simp_all add: new_js_callbacks_def bridge_init_def owner_of_def Let_def)
  have s1: "bridge_step bridge_init ?b1" by (rule bridge_step.make)
  have s2: "bridge_step ?b1 (close_conn 1 ?b1)" by (rule bridge_step.lifetime [of 1 _ True]) (simp_all only: k order_refl)
  have r: "bridge_step\<^sup>*\<^sup>* bridge_init (close_conn 1 ?b1)" by (rule rtranclp.rtrancl_into_rtrancl [OF r_into_rtranclp [where r = bridge_step, OF s1] s2])
  have n: "1 \<le> br_next (close_conn 1 ?b1)" "1 \<notin> set (br_owners (close_conn 1 ?b1))"
    by (simp_all add: close_conn_def new_js_callbacks_def bridge_init_def owner_of_def Let_def)
  from bridge_closes_once [OF r order_refl n(1) rtranclp.rtrancl_refl] n(2) r show ?thesis by fastforce
qed

section \<open>Options\<close>

text \<open>A JavaScript value as far as the functions look at it; a number is its integer part.\<close>

datatype js_val = JsUndefined | JsNull | JsBool bool | JsNumber int | JsString string | JsFunction | JsObject

type_synonym js_object = "string \<Rightarrow> js_val"

definition opt_string :: "js_object \<Rightarrow> string \<Rightarrow> string" where
  "opt_string v name = (case v name of JsString s \<Rightarrow> s | _ \<Rightarrow> [])"

definition web_port :: "js_object \<Rightarrow> port" where
  "web_port opts = (case opts ''port'' of JsNumber n \<Rightarrow> of_int n | _ \<Rightarrow> 1)"

section \<open>Listening in the browser\<close>

datatype web_error = NeedsOptions | NeedsOnConnection | NeedsMapUrl | BadKeyJson | WebExpand expand_error | WebRegionPanic
  | WebAddrPanic | KeyMarshal | WebStart server_error | WebStartPanic

datatype web_handler = ToPage port

record 'w web_env =
  we_json_key :: "string \<Rightarrow> (key32 \<times> conn_info) option"
  we_key_json :: "key32 \<times> conn_info \<Rightarrow> string option"
  we_new_node :: key32
  we_new_psk :: key32
  we_migrated_psk :: key32
  we_public :: "key32 \<Rightarrow> key32"
  we_disco :: "key32 \<Rightarrow> key32"
  we_expand :: "string \<Rightarrow> conn_info \<Rightarrow> 'w \<Rightarrow> 'w \<times> (expand_error + conn_info)"
  we_marshal :: "wire_conn_info \<Rightarrow> bytes option"
  we_start :: "'w start_env"

text \<open>The key: the given one or a fresh one with automatic region, with a secret in any case.\<close>

definition web_key :: "'w web_env \<Rightarrow> string \<Rightarrow> (key32 \<times> conn_info) option" where
  "web_key env key_json =
     map_option (\<lambda>(priv, ci). (priv, if psk_is_zero (ci_psk ci) then ci\<lparr>ci_psk := we_migrated_psk env\<rparr> else ci))
       (if key_json \<noteq> [] then we_json_key env key_json
        else
          (case new_private_key (we_public env) (we_disco env) (we_new_node env) (we_new_psk env) of
             (priv, ci) \<Rightarrow> Some (priv, ci\<lparr>ci_region_id := -1\<rparr>)))"

definition web_server :: "key32 \<Rightarrow> key32 \<Rightarrow> derp_region \<Rightarrow> web_handler server" where
  "web_server priv psk reg =
     \<lparr>sv_key = priv, sv_psk = psk, sv_disable_psk = False, sv_region = Some reg, sv_region_id = 0,
      sv_derp_map_url = [], sv_allowed_clients = [], sv_lb = None, sv_heap = [], sv_tcp_listeners = [],
      sv_udp_listeners = [], sv_on_tcp = Some (\<lambda>p. Some (ToPage p)), sv_on_tcp_forward = None, sv_on_udp = None,
      sv_on_udp_forward = None, sv_served_tcp = None, sv_served_udp = None, sv_udp_idle = 0, sv_filter = None\<rparr>"

record web_listener =
  wl_addr :: string
  wl_key_json :: string
  wl_server :: "web_handler server"

text \<open>\<open>tailcatListen\<close>; \<open>args_ok\<close> says that there is one argument and that it is an object. \<open>Expand\<close>
  works on a copy of the public half, but the regions of the key are shared with it and get their
  default ids there too.\<close>

definition tailcat_listen ::
  "'w web_env \<Rightarrow> bool \<Rightarrow> js_object \<Rightarrow> 'w \<Rightarrow> 'w \<times> (web_error + web_listener)" where
  "tailcat_listen env args_ok opts w =
     (if \<not> args_ok then (w, Inl NeedsOptions)
      else if opts ''onConnection'' \<noteq> JsFunction then (w, Inl NeedsOnConnection)
      else if opt_string opts ''derpMapURL'' = [] then (w, Inl NeedsMapUrl)
      else
        (case web_key env (opt_string opts ''privateKey'') of
           None \<Rightarrow> (w, Inl BadKeyJson)
         | Some (priv, pub) \<Rightarrow>
             (case we_expand env (opt_string opts ''derpMapURL'') pub w of
                (w, Inl e) \<Rightarrow> (w, Inl (WebExpand e))
              | (w, Inr ci) \<Rightarrow>
                  (case ci_region ci of
                     [] \<Rightarrow> (w, Inl WebRegionPanic)
                   | reg # _ \<Rightarrow>
                       let pub = pub\<lparr>ci_region := map default_ids (ci_region pub),
                             ci_region_id := if opt_string opts ''privateKey'' = [] then dr_id reg else ci_region_id pub\<rparr>
                       in (case conn_addr (we_marshal env) pub of
                             None \<Rightarrow> (w, Inl WebAddrPanic)
                           | Some addr \<Rightarrow>
                               (case we_key_json env (priv, pub) of
                                  None \<Rightarrow> (w, Inl KeyMarshal)
                                | Some out \<Rightarrow>
                                    (case start_locked (we_start env) (web_server priv (ci_psk pub) reg) w of
                                       None \<Rightarrow> (w, Inl WebStartPanic)
                                     | Some (s, w, closed, Some e) \<Rightarrow> (w, Inl (WebStart e))
                                     | Some (s, w, closed, None) \<Rightarrow>
                                         (w, Inr \<lparr>wl_addr = addr, wl_key_json = out, wl_server = s\<rparr>))))))))"

text \<open>What a successful call went through.\<close>

lemma tailcat_listen_Inr:
  assumes "tailcat_listen env args_ok opts w = (w', Inr l)"
  obtains priv pub w1 ci reg rs pub' closed where
    "args_ok" "opts ''onConnection'' = JsFunction" "opt_string opts ''derpMapURL'' \<noteq> []"
    "web_key env (opt_string opts ''privateKey'') = Some (priv, pub)"
    "we_expand env (opt_string opts ''derpMapURL'') pub w = (w1, Inr ci)" "ci_region ci = reg # rs"
    "pub' = pub\<lparr>ci_region := map default_ids (ci_region pub), ci_region_id := if opt_string opts ''privateKey'' = [] then dr_id reg else ci_region_id pub\<rparr>"
    "conn_addr (we_marshal env) pub' = Some (wl_addr l)" "we_key_json env (priv, pub') = Some (wl_key_json l)"
    "start_locked (we_start env) (web_server priv (ci_psk pub') reg) w1 = Some (wl_server l, w', closed, None)"
proof -
  obtain priv pub where k: "args_ok" "opts ''onConnection'' = JsFunction" "opt_string opts ''derpMapURL'' \<noteq> []"
    "web_key env (opt_string opts ''privateKey'') = Some (priv, pub)"
    using assms by (auto simp: tailcat_listen_def split: if_splits option.splits)
  obtain w1 x where e: "we_expand env (opt_string opts ''derpMapURL'') pub w = (w1, x)" by fastforce
  obtain ci where x: "x = Inr ci" using assms k e by (cases x) (simp_all add: tailcat_listen_def)
  obtain reg rs where r: "ci_region ci = reg # rs" using assms k e x by (cases "ci_region ci") (simp_all add: tailcat_listen_def)
  define pub' where "pub' = pub\<lparr>ci_region := map default_ids (ci_region pub),
      ci_region_id := if opt_string opts ''privateKey'' = [] then dr_id reg else ci_region_id pub\<rparr>"
  have t: "tailcat_listen env args_ok opts w =
     (case conn_addr (we_marshal env) pub' of
        None \<Rightarrow> (w1, Inl WebAddrPanic)
      | Some addr \<Rightarrow>
          (case we_key_json env (priv, pub') of
             None \<Rightarrow> (w1, Inl KeyMarshal)
           | Some out \<Rightarrow>
               (case start_locked (we_start env) (web_server priv (ci_psk pub') reg) w1 of
                  None \<Rightarrow> (w1, Inl WebStartPanic)
                | Some (s, w, closed, Some e) \<Rightarrow> (w, Inl (WebStart e))
                | Some (s, w, closed, None) \<Rightarrow> (w, Inr \<lparr>wl_addr = addr, wl_key_json = out, wl_server = s\<rparr>))))"
    by (simp add: tailcat_listen_def k e x r Let_def pub'_def [symmetric] split del: if_split)
  obtain addr out s closed where o: "conn_addr (we_marshal env) pub' = Some addr" "we_key_json env (priv, pub') = Some out"
    "start_locked (we_start env) (web_server priv (ci_psk pub') reg) w1 = Some (s, w', closed, None)"
    "l = \<lparr>wl_addr = addr, wl_key_json = out, wl_server = s\<rparr>"
    using assms unfolding t by (auto split: option.splits)
  show ?thesis by (rule that [OF k e [unfolded x] r pub'_def]) (use o in simp_all)
qed

lemma web_key_json:
  assumes "web_key env key_json = Some (priv, pub)" "we_new_psk env \<noteq> key_zero" "we_migrated_psk env \<noteq> key_zero"
  shows "ci_psk pub \<noteq> key_zero"
    "key_json = [] \<Longrightarrow> priv = we_new_node env \<and> ci_server_public pub = we_public env priv \<and> ci_disco pub = we_disco env priv
       \<and> ci_region pub = []"
    "key_json \<noteq> [] \<Longrightarrow> \<exists>pub0. we_json_key env key_json = Some (priv, pub0) \<and> (\<exists>psk. pub = pub0\<lparr>ci_psk := psk\<rparr>)
       \<and> (ci_psk pub0 \<noteq> key_zero \<longrightarrow> pub = pub0)"
proof -
  define raw where "raw = (if key_json \<noteq> [] then we_json_key env key_json
      else (case new_private_key (we_public env) (we_disco env) (we_new_node env) (we_new_psk env) of
             (priv, ci) \<Rightarrow> Some (priv, ci\<lparr>ci_region_id := -1\<rparr>)))"
  obtain ci where r: "raw = Some (priv, ci)"
    "pub = (if psk_is_zero (ci_psk ci) then ci\<lparr>ci_psk := we_migrated_psk env\<rparr> else ci)"
    using assms(1) by (auto simp: web_key_def raw_def [symmetric])
  show "ci_psk pub \<noteq> key_zero" using assms(3) by (simp add: r(2) psk_is_zero_iff)
  show "priv = we_new_node env \<and> ci_server_public pub = we_public env priv \<and> ci_disco pub = we_disco env priv \<and> ci_region pub = []"
    if "key_json = []" using that r(1) assms(2) by (simp add: r(2) raw_def new_private_key_def psk_is_zero_iff) auto
  have "\<exists>psk. pub = ci\<lparr>ci_psk := psk\<rparr>"
    by (rule exI [of _ "if psk_is_zero (ci_psk ci) then we_migrated_psk env else ci_psk ci"]) (simp add: r(2))
  moreover have "ci_psk ci \<noteq> key_zero \<longrightarrow> pub = ci" by (simp add: r(2) psk_is_zero_iff)
  ultimately show "\<exists>pub0. we_json_key env key_json = Some (priv, pub0) \<and> (\<exists>psk. pub = pub0\<lparr>ci_psk := psk\<rparr>) \<and> (ci_psk pub0 \<noteq> key_zero \<longrightarrow> pub = pub0)"
    if "key_json \<noteq> []" using that r(1) unfolding raw_def by auto
qed

text \<open>The printed address names the running server, for a key whose halves belong together.\<close>

definition key_pair :: "'w web_env \<Rightarrow> key32 \<Rightarrow> conn_info \<Rightarrow> bool" where
  "key_pair env priv pub \<longleftrightarrow> priv \<noteq> key_zero \<and> ci_server_public pub = we_public env priv \<and> ci_disco pub = we_disco env priv"

lemma web_listen_running:
  assumes "tailcat_listen env args_ok opts w = (w', Inr l)" "we_new_psk env \<noteq> key_zero" "we_migrated_psk env \<noteq> key_zero"
    "we_new_node env \<noteq> key_zero" "\<forall>j k c. we_json_key env j = Some (k, c) \<longrightarrow> key_pair env k c"
    "se_public (we_start env) = we_public env" "se_disco (we_start env) = we_disco env"
  shows "\<exists>priv pub b reg. we_key_json env (priv, pub) = Some (wl_key_json l) \<and> conn_addr (we_marshal env) pub = Some (wl_addr l)
     \<and> sv_lb (wl_server l) = Some b \<and> lb_inv b \<and> lb_dm b = Some [(dr_id reg, reg)] \<and> lb_pub b = ci_server_public pub
     \<and> lb_disco_public b = ci_disco pub \<and> lb_psk b = ci_psk pub \<and> ci_psk pub \<noteq> key_zero \<and> dr_id reg \<noteq> 0 \<and> key_pair env priv pub
     \<and> (opt_string opts ''privateKey'' = [] \<longrightarrow> ci_region pub = [] \<and> ci_region_id pub = dr_id reg)
     \<and> (\<forall>k c. opt_string opts ''privateKey'' \<noteq> [] \<longrightarrow> we_json_key env (opt_string opts ''privateKey'') = Some (k, c) \<longrightarrow>
          ci_region_id pub = ci_region_id c \<and> ci_region pub = map default_ids (ci_region c))"
proof -
  obtain priv pub w1 ci reg rs pub' closed where l: "web_key env (opt_string opts ''privateKey'') = Some (priv, pub)"
    "pub' = pub\<lparr>ci_region := map default_ids (ci_region pub), ci_region_id := if opt_string opts ''privateKey'' = [] then dr_id reg else ci_region_id pub\<rparr>"
    "conn_addr (we_marshal env) pub' = Some (wl_addr l)" "we_key_json env (priv, pub') = Some (wl_key_json l)"
    "start_locked (we_start env) (web_server priv (ci_psk pub') reg) w1 = Some (wl_server l, w', closed, None)"
    by (rule tailcat_listen_Inr [OF assms(1)])
  note wk = web_key_json [OF l(1) assms(2,3)]
  have kp: "key_pair env priv pub"
  proof (cases "opt_string opts ''privateKey'' = []")
    case True
    then show ?thesis using wk(2) assms(4) by (simp add: key_pair_def)
  next
    case False
    then obtain pub0 psk where p0: "we_json_key env (opt_string opts ''privateKey'') = Some (priv, pub0)" "pub = pub0\<lparr>ci_psk := psk\<rparr>"
      using wk(3) by blast
    have "ci_server_public pub = ci_server_public pub0" "ci_disco pub = ci_disco pub0" by (simp_all add: p0(2))
    then show ?thesis using assms(5) p0(1) by (auto simp: key_pair_def)
  qed
  obtain g where g: "start_region (we_start env) (web_server priv (ci_psk pub') reg) w1 = Some (w', Inr g)" "dr_id g \<noteq> 0"
    "wl_server l = (web_server priv (ci_psk pub') reg)\<lparr>sv_lb := Some (started_backend (we_start env) (web_server priv (ci_psk pub') reg) g),
      sv_filter := Some (build_filter (web_server priv (ci_psk pub') reg) (start_backend (we_start env) (web_server priv (ci_psk pub') reg) g))\<rparr>"
    by (rule start_locked_running [OF l(5)])
  have reg: "g = reg" using g(1) by (simp add: start_region_def web_server_def)
  have keys: "start_priv (we_start env) (web_server priv psk reg) = priv" "start_psk (we_start env) (web_server priv (ci_psk pub) reg) = ci_psk pub" for psk
    using kp wk(1) by (simp_all add: start_priv_def start_psk_def web_server_def key_pair_def key_is_zero_def psk_is_zero_iff)
  obtain b nm where b: "lb_inv b" "b = (start_backend (we_start env) (web_server priv (ci_psk pub') reg) g)\<lparr>lb_nm := Some nm\<rparr>"
    "sv_lb (wl_server l) = Some b"
  proof -
    have "sv_lb (wl_server l) = Some (started_backend (we_start env) (web_server priv (ci_psk pub') reg) g)" by (simp add: g(3))
    then show ?thesis using started_backend [of "we_start env" "web_server priv (ci_psk pub') reg" g] that by blast
  qed
  have f: "lb_dm b = Some [(dr_id reg, reg)]" "lb_pub b = ci_server_public pub'" "lb_disco_public b = ci_disco pub'"
    "lb_psk b = ci_psk pub'" "dr_id reg \<noteq> 0" "ci_psk pub' \<noteq> key_zero" "key_pair env priv pub'"
    using g(2) kp wk(1) by (simp_all add: b(2) reg keys assms(6,7) l(2) key_pair_def)
  have "ci_region_id pub' = ci_region_id c \<and> ci_region pub' = map default_ids (ci_region c)"
    if n: "opt_string opts ''privateKey'' \<noteq> []" and k: "we_json_key env (opt_string opts ''privateKey'') = Some (k, c)" for k c
  proof -
    obtain pub0 psk where "we_json_key env (opt_string opts ''privateKey'') = Some (priv, pub0)" "pub = pub0\<lparr>ci_psk := psk\<rparr>"
      using wk(3) [OF n] by blast
    then show ?thesis using n k by (simp add: l(2))
  qed
  moreover have "ci_region pub' = [] \<and> ci_region_id pub' = dr_id reg" if "opt_string opts ''privateKey'' = []"
    using wk(2) that by (simp add: l(2))
  ultimately show ?thesis using l(3,4) b(1,3) f by blast
qed


text \<open>Persistence: a page that listened with a fresh key, keeps the key it was given back and listens
  with it again, at any later time, gets the same address and the same key.\<close>

theorem web_key_persists:
  assumes "tailcat_listen env args_ok opts w = (w1, Inr l)" "opt_string opts ''privateKey'' = []"
    "tailcat_listen env' args_ok' opts' v = (v1, Inr l')" "opt_string opts' ''privateKey'' = wl_key_json l"
    "we_marshal env' = we_marshal env" "we_key_json env' = we_key_json env"
    "\<And>x j. we_key_json env x = Some j \<Longrightarrow> j \<noteq> [] \<and> we_json_key env' j = Some x" "we_new_psk env \<noteq> key_zero"
  shows "wl_addr l' = wl_addr l \<and> wl_key_json l' = wl_key_json l"
proof -
  obtain priv pub wa ci reg rs pub1 closed where a0: "args_ok" "opts ''onConnection'' = JsFunction" "opt_string opts ''derpMapURL'' \<noteq> []"
    and a1: "web_key env (opt_string opts ''privateKey'') = Some (priv, pub)"
    and a2: "we_expand env (opt_string opts ''derpMapURL'') pub w = (wa, Inr ci)" "ci_region ci = reg # rs"
    and a3: "pub1 = pub\<lparr>ci_region := map default_ids (ci_region pub), ci_region_id := if opt_string opts ''privateKey'' = [] then dr_id reg else ci_region_id pub\<rparr>"
    "conn_addr (we_marshal env) pub1 = Some (wl_addr l)" "we_key_json env (priv, pub1) = Some (wl_key_json l)"
    "start_locked (we_start env) (web_server priv (ci_psk pub1) reg) wa = Some (wl_server l, w1, closed, None)"
    by (rule tailcat_listen_Inr [OF assms(1)])
  note a = a1 [unfolded assms(2)] a3(1) [unfolded assms(2)] a3(2,3)
  have "ci_psk pub \<noteq> key_zero" "ci_region pub = []"
    using a(1) assms(8) by (auto simp: web_key_def new_private_key_def psk_is_zero_iff)
  then have p1: "ci_psk pub1 \<noteq> key_zero" "ci_region pub1 = []" by (simp_all add: a(2))
  have j: "wl_key_json l \<noteq> []" "we_json_key env' (wl_key_json l) = Some (priv, pub1)"
    using assms(7) [OF a(4)] by simp_all
  obtain priv' pub' wb ci' reg' rs' pub2 closed' where b0: "args_ok'" "opts' ''onConnection'' = JsFunction" "opt_string opts' ''derpMapURL'' \<noteq> []"
    and b1: "web_key env' (opt_string opts' ''privateKey'') = Some (priv', pub')"
    and b2: "we_expand env' (opt_string opts' ''derpMapURL'') pub' v = (wb, Inr ci')" "ci_region ci' = reg' # rs'"
    and b: "pub2 = pub'\<lparr>ci_region := map default_ids (ci_region pub'), ci_region_id := if opt_string opts' ''privateKey'' = [] then dr_id reg' else ci_region_id pub'\<rparr>"
    "conn_addr (we_marshal env') pub2 = Some (wl_addr l')" "we_key_json env' (priv', pub2) = Some (wl_key_json l')"
    "start_locked (we_start env') (web_server priv' (ci_psk pub2) reg') wb = Some (wl_server l', v1, closed', None)"
    by (rule tailcat_listen_Inr [OF assms(3)])
  have "priv' = priv" "pub' = pub1" using b1 j p1(1) by (simp_all add: assms(4) web_key_def psk_is_zero_iff)
  moreover have "pub2 = pub1" using p1(2) j(1) by (simp add: b(1) assms(4) \<open>pub' = pub1\<close>)
  ultimately show ?thesis using a(3,4) b(2,3) by (simp add: assms(5,6))
qed

definition sample_web :: "unit web_env" where
  "sample_web =
     \<lparr>we_json_key = (\<lambda>j. if j = ''k'' then Some (replicate 32 1, sample_conn) else None),
      we_key_json = (\<lambda>x. if x = (replicate 32 1, sample_conn) then Some ''k'' else None), we_new_node = replicate 32 1,
      we_new_psk = replicate 32 3, we_migrated_psk = replicate 32 4, we_public = sn_public sample_serve_env,
      we_disco = sn_disco sample_serve_env,
      we_expand = (\<lambda>url ci w. (w, Inr (ci\<lparr>ci_region_id := 0, ci_region := [sample_region]\<rparr>))),
      we_marshal = sn_marshal sample_serve_env, we_start = sample_senv\<rparr>"

definition sample_web_opts :: "string \<Rightarrow> js_object" where
  "sample_web_opts key =
     (\<lambda>k. if k = ''onConnection'' then JsFunction else if k = ''derpMapURL'' then JsString ''u''
          else if k = ''privateKey'' then JsString key else JsUndefined)"

lemma sample_web_opt: "opt_string (sample_web_opts key) ''privateKey'' = key" "opt_string (sample_web_opts key) ''derpMapURL'' = ''u''"
  "sample_web_opts key ''onConnection'' = JsFunction"
  by (simp_all add: opt_string_def sample_web_opts_def)

lemma sample_web_start:
  "\<exists>s'. start_locked sample_senv (web_server (replicate 32 1) (replicate 32 3) sample_region) () = Some (s', (), False, None)"
proof -
  have r: "start_region sample_senv (web_server (replicate 32 1) (replicate 32 3) sample_region) () = Some ((), Inr sample_region)"
    "dr_id sample_region \<noteq> 0" by (simp_all add: start_region_def web_server_def sample_region_def)
  have f: "se_netmon_ok sample_senv" "se_engine_ok sample_senv" "se_netstack_ok sample_senv" "se_ns_start_ok sample_senv"
    "se_reconfig_ok sample_senv" by (simp_all add: sample_senv_def)
  from start_locked_region [OF r] f show ?thesis by (simp add: web_server_def Let_def)
qed

lemma sample_web_listen:
  assumes "key = [] \<or> key = ''k''"
  shows "\<exists>l. tailcat_listen sample_web True (sample_web_opts key) () = ((), Inr l)
     \<and> wl_addr l = h3_address_prefix @ b64_encode [1] \<and> wl_key_json l = ''k''"
proof -
  have pin: "\<lparr>ci_server_public = replicate 32 2, ci_disco = replicate 32 5, ci_psk = replicate 32 3, ci_region = [], ci_region_id = 9\<rparr> = sample_conn"
    by (simp add: sample_conn_def)
  obtain s' where st: "start_locked sample_senv (web_server (replicate 32 1) (replicate 32 3) sample_region) () = Some (s', (), False, None)"
    using sample_web_start by blast
  have nz: "replicate 32 (3 :: byte) \<noteq> key_zero" by (simp add: key_zero_def)
  have m: "sn_marshal sample_serve_env (wire_of sample_conn) = Some [1]" by (simp add: sample_serve_env_def)
  have k: "sn_public sample_serve_env x = replicate 32 2" "sn_disco sample_serve_env x = replicate 32 5" "dr_id sample_region = 9"
    "ci_psk sample_conn = replicate 32 3" "ci_region sample_conn = []" "ci_region_id sample_conn = 9" for x
    by (simp_all add: sample_serve_env_def sample_region_def sample_conn_def)
  have upd: "sample_conn\<lparr>ci_region := [], ci_region_id := 9\<rparr> = sample_conn" "sample_conn\<lparr>ci_region := []\<rparr> = sample_conn"
    unfolding sample_conn_def by simp_all
  from assms show ?thesis
    by (elim disjE) (simp_all add: tailcat_listen_def sample_web_opt web_key_def new_private_key_def sample_web_def pin upd nz k m st conn_addr_def Let_def)
qed


theorem web_key_persists_witness:
  "\<exists>l l'. tailcat_listen sample_web True (sample_web_opts []) () = ((), Inr l)
     \<and> tailcat_listen sample_web True (sample_web_opts (wl_key_json l)) () = ((), Inr l') \<and> wl_addr l' = wl_addr l"
proof -
  obtain l where l: "tailcat_listen sample_web True (sample_web_opts []) () = ((), Inr l)" "wl_key_json l = ''k''"
    using sample_web_listen [of "[]"] by blast
  obtain l' where l': "tailcat_listen sample_web True (sample_web_opts (wl_key_json l)) () = ((), Inr l')"
    using sample_web_listen [of "''k''"] l(2) by auto
  have j: "j \<noteq> [] \<and> we_json_key sample_web j = Some x" if "we_key_json sample_web x = Some j" for x j
    using that by (simp add: sample_web_def split: if_splits)
  have "we_new_psk sample_web \<noteq> key_zero" by (simp add: sample_web_def key_zero_def)
  from web_key_persists [OF l(1) sample_web_opt(1) l' sample_web_opt(1) refl refl j this] l l' show ?thesis by blast
qed

section \<open>Dialling from the browser\<close>

datatype web_dial_error = DialNeedsOptions | DialNeedsAddr | DialBadKey | DialPing | DialFailed client_error

text \<open>\<open>pingUntil\<close>: each attempt has the outcome of its first send, what its loop selected, and whether the
  outer context was done after it; None is a loop that goes on, or a panic.\<close>

fun ping_until ::
  "'w client_env \<Rightarrow> (send_result \<times> ping_event list \<times> bool) list \<Rightarrow> client \<Rightarrow> 'w \<Rightarrow> (client \<times> 'w \<times> bool) option" where
  "ping_until env [] c w = None"
| "ping_until env ((first, events, over) # as) c w =
     (case client_ping env first events c w of
        None \<Rightarrow> None
      | Some (c, w, None) \<Rightarrow> Some (c, w, True)
      | Some (c, w, Some e) \<Rightarrow> if over then Some (c, w, False) else ping_until env as c w)"

text \<open>\<open>tailcatDial\<close>: the number of times the client was closed, and the target or the error. The
  JSON decoder and the fresh key are those of the options.\<close>

definition tailcat_dial ::
  "'w client_env \<Rightarrow> (string \<Rightarrow> (key32 \<times> conn_info) option) \<Rightarrow> key32 \<Rightarrow> bool \<Rightarrow> js_object
     \<Rightarrow> (send_result \<times> ping_event list \<times> bool) list \<Rightarrow> 'w \<Rightarrow> (nat \<times> (web_dial_error + dial_target)) option" where
  "tailcat_dial env json_key fresh args_ok opts attempts w =
     (if \<not> args_ok then Some (0, Inl DialNeedsOptions)
      else if opt_string opts ''addr'' = [] then Some (0, Inl DialNeedsAddr)
      else
        (case (if opt_string opts ''privateKey'' = [] then Some fresh else map_option fst (json_key (opt_string opts ''privateKey''))) of
           None \<Rightarrow> Some (0, Inl DialBadKey)
         | Some priv \<Rightarrow>
             (case ping_until env attempts (new_cli_client (opt_string opts ''derpMapURL'') (opt_string opts ''addr'') priv) w of
                None \<Rightarrow> None
              | Some (c, w, False) \<Rightarrow> Some (1, Inl DialPing)
              | Some (c, w, True) \<Rightarrow>
                  (case dial_tcp_port env Sent [] (web_port opts) c w of
                     None \<Rightarrow> None
                   | Some (c, w, Inl e) \<Rightarrow> Some (1, Inl (DialFailed e))
                   | Some (c, w, Inr t) \<Rightarrow> Some (0, Inr t)))))"

text \<open>A failed attempt leaves the client able to ping again, without changing where it will go.\<close>

definition fresh_or_up :: "'w client_env \<Rightarrow> string \<Rightarrow> client \<Rightarrow> bool" where
  "fresh_or_up env addr c =
     (cl_server c = addr
      \<and> (cl_lb c = None \<and> \<not> cl_started c
         \<or> (\<exists>ci. parse_conn_addr (ce_unmarshal env) addr = Inr ci \<and> cl_server_addr c = tc_addr_for_key (ci_server_public ci))))"

lemma init_locked_server: "init_locked env c = (c', e) \<Longrightarrow> cl_server c' = cl_server c"
  by (auto simp: init_locked_def node_key_locked_def Let_def split: if_splits sum.splits)

lemma init_locked_fails: "init_locked env c = (c', Some e) \<Longrightarrow> cl_lb c' = cl_lb c"
  by (auto simp: init_locked_def node_key_locked_def Let_def split: if_splits sum.splits)

lemma ensure_started_keeps:
  assumes "ensure_started env c w = Some (c', w', e)" "fresh_or_up env addr c"
  shows "fresh_or_up env addr c'"
proof (cases "cl_started c")
  case True
  then show ?thesis using assms by (simp add: ensure_started_def)
next
  case ns: False
  obtain c1 e1 where i: "init_locked env c = (c1, e1)" by (cases "init_locked env c")
  have s: "cl_server c1 = addr" "\<not> cl_started c1"
    using init_locked_server [OF i] init_locked_cases(1) [OF i] assms(2) ns by (simp_all add: fresh_or_up_def)
  show ?thesis
  proof (cases e1)
    case (Some x)
    then have "c' = c1" using assms(1) ns i by (simp add: ensure_started_def)
    moreover have "cl_lb c1 = cl_lb c" using init_locked_fails i Some by blast
    moreover have "cl_lb c = None" using i Some by (cases "cl_lb c") (auto simp: init_locked_def)
    ultimately show ?thesis using s by (simp add: fresh_or_up_def)
  next
    case None
    have up: "\<exists>ci. parse_conn_addr (ce_unmarshal env) addr = Inr ci \<and> cl_server_addr c1 = tc_addr_for_key (ci_server_public ci)"
    proof (cases "cl_lb c")
      case None
      then show ?thesis using init_locked_client_of [OF i [unfolded \<open>e1 = None\<close>]] assms(2) by (auto simp: fresh_or_up_def)
    next
      case (Some b)
      then show ?thesis using i assms(2) by (auto simp: init_locked_def fresh_or_up_def)
    qed
    have "cl_server c' = cl_server c1 \<and> cl_server_addr c' = cl_server_addr c1"
      using assms(1) ns i None by (auto simp: ensure_started_def Let_def split: prod.splits sum.splits if_splits option.splits)
    then show ?thesis using up s(1) by (simp add: fresh_or_up_def)
  qed
qed

lemma ensure_started_ok_started:
  "ensure_started env c w = Some (c', w', None) \<Longrightarrow> cl_started c'"
  by (auto simp: ensure_started_def Let_def split: prod.splits sum.splits if_splits option.splits)

lemma client_ping_keeps:
  assumes "client_ping env first events c w = Some (c', w', e)" "fresh_or_up env addr c"
  shows "fresh_or_up env addr c'" "e = None \<Longrightarrow> cl_up c' \<and> cl_started c'"
proof -
  obtain c1 w1 e1 where s: "ensure_started env c w = Some (c1, w1, e1)"
    using assms(1) by (auto simp: client_ping_def split: option.splits prod.splits)
  note k = ensure_started_keeps [OF s assms(2)]
  have "c' = c1 \<or> c' = c1\<lparr>cl_up := True\<rparr>" using assms(1) s by (auto simp: client_ping_def split: option.splits prod.splits)
  then show "fresh_or_up env addr c'" using k by (auto simp: fresh_or_up_def)
  show "cl_up c' \<and> cl_started c'" if "e = None"
    using assms(1) s that ensure_started_ok_started [of env c w c1 w1] by (auto simp: client_ping_def split: option.splits prod.splits)
qed

lemma ping_until_up:
  "ping_until env as c w = Some (c', w', ok) \<Longrightarrow> fresh_or_up env addr c \<Longrightarrow>
     fresh_or_up env addr c' \<and> (ok \<longrightarrow> cl_up c' \<and> cl_started c')"
proof (induction env as c w rule: ping_until.induct)
  case (2 env first events over as c w)
  obtain c1 w1 e1 where p: "client_ping env first events c w = Some (c1, w1, e1)"
    using 2(2) by (cases "client_ping env first events c w") auto
  note k = client_ping_keeps [OF p 2(3)]
  show ?case
  proof (cases e1)
    case None
    then show ?thesis using 2(2) p k by auto
  next
    case (Some e)
    show ?thesis
    proof (cases over)
      case True
      then show ?thesis using 2(2) p k(1) Some by auto
    next
      case False
      then have "ping_until env as c1 w1 = Some (c', w', ok)" using 2(2) p Some by simp
      then show ?thesis using 2(1) [OF p refl refl Some False] k(1) by blast
    qed
  qed
qed simp

lemma web_port_number: "opts ''port'' = JsNumber k \<Longrightarrow> uint (web_port opts) = k mod 65536"
  by (simp add: web_port_def uint_word_of_int)

text \<open>A page that dials gets a connection to the server of the address it named and to nothing else,
  however many attempts the handshake needed; when it gets none after the client was made, that
  client is closed, exactly once. The port is the number the page gave modulo 65536, or 1.\<close>

theorem web_dial_named:
  assumes "tailcat_dial env json_key fresh args_ok opts attempts w = Some (n, r)"
  shows "(\<forall>t. r = Inr t \<longrightarrow> n = 0 \<and> (\<exists>ci. parse_conn_addr (ce_unmarshal env) (opt_string opts ''addr'') = Inr ci
        \<and> t = named_dial (ci_server_public ci) (ServerPort (web_port opts))))
    \<and> (n = 1 \<longleftrightarrow> r = Inl DialPing) \<and> n \<le> 1 \<and> (\<forall>e. r \<noteq> Inl (DialFailed e))
    \<and> (\<forall>k. opts ''port'' = JsNumber k \<longrightarrow> uint (web_port opts) = k mod 65536)"
proof -
  let ?addr = "opt_string opts ''addr''"
  have stop: ?thesis if "n = 0" "r = Inl DialNeedsOptions \<or> r = Inl DialNeedsAddr \<or> r = Inl DialBadKey"
    using that web_port_number [of opts] by auto
  define key where "key = (if opt_string opts ''privateKey'' = [] then Some fresh else map_option fst (json_key (opt_string opts ''privateKey'')))"
  consider "\<not> args_ok \<or> ?addr = [] \<or> key = None" | priv where "args_ok" "?addr \<noteq> []" "key = Some priv"
    by (cases key) auto
  then show ?thesis
  proof cases
    case 1
    then have "n = 0 \<and> (r = Inl DialNeedsOptions \<or> r = Inl DialNeedsAddr \<or> r = Inl DialBadKey)"
      using assms by (auto simp: tailcat_dial_def key_def [symmetric] split: if_splits)
    then show ?thesis using stop by blast
  next
    case (2 priv)
    let ?c = "new_cli_client (opt_string opts ''derpMapURL'') ?addr priv"
    obtain c1 w1 ok where p: "ping_until env attempts ?c w = Some (c1, w1, ok)"
      using assms 2 by (cases "ping_until env attempts ?c w") (auto simp: tailcat_dial_def key_def [symmetric])
    have "fresh_or_up env ?addr ?c" by (simp add: fresh_or_up_def new_cli_client_def new_client_def)
    note up = ping_until_up [OF p this]
    show ?thesis
    proof (cases ok)
      case False
      then have "n = 1" "r = Inl DialPing" using assms 2 p by (simp_all add: tailcat_dial_def key_def [symmetric])
      then show ?thesis using web_port_number [of opts] by simp
    next
      case True
      obtain ci where ci: "parse_conn_addr (ce_unmarshal env) ?addr = Inr ci" "cl_server_addr c1 = tc_addr_for_key (ci_server_public ci)"
        "cl_up c1" using up True by (auto simp: fresh_or_up_def)
      then have "n = 0" "r = Inr (named_dial (ci_server_public ci) (ServerPort (web_port opts)))"
        using assms 2 p True
        by (simp_all add: tailcat_dial_def key_def [symmetric] dial_tcp_port_def client_up_def after_up_def named_dial_def)
      then show ?thesis using ci(1) web_port_number [of opts] by simp
    qed
  qed
qed

definition sample_dial_opts :: js_object where
  "sample_dial_opts = (\<lambda>k. if k = ''addr'' then JsString sample_join_addr else if k = ''port'' then JsNumber 65616 else JsUndefined)"

theorem web_dial_named_witness:
  "\<exists>t ci. tailcat_dial sample_join_env (\<lambda>_. None) (replicate 32 1) True sample_dial_opts
       [(NotSent, [CtxDone], False), (Sent, [Meowed], False)] () = Some (0, Inr t)
     \<and> parse_conn_addr (ce_unmarshal sample_join_env) sample_join_addr = Inr ci
     \<and> t = named_dial (ci_server_public ci) (ServerPort 80)"
proof -
  have o: "opt_string sample_dial_opts ''addr'' = sample_join_addr" "opt_string sample_dial_opts ''derpMapURL'' = []"
    "opt_string sample_dial_opts ''privateKey'' = []" "web_port sample_dial_opts = 80" "sample_join_addr \<noteq> []"
    by (simp_all add: opt_string_def sample_dial_opts_def web_port_def sample_join_addr_def h3_address_prefix_def)
  let ?c = "new_cli_client [] sample_join_addr (replicate 32 1)"
  have "cl_lb ?c = None" "\<not> cl_started ?c" "cl_server ?c = sample_join_addr"
    by (simp_all add: new_cli_client_def new_client_def)
  then obtain c' where e: "ensure_started sample_join_env ?c () = Some (c', (), None)"
    using sample_client_runs by blast
  then have "ensure_started sample_join_env c' () = Some (c', (), None)"
    using ensure_started_ok_started [OF e] by (simp add: ensure_started_def)
  with e have p: "ping_until sample_join_env [(NotSent, [CtxDone], False), (Sent, [Meowed], False)] ?c () = Some (c'\<lparr>cl_up := True\<rparr>, (), True)"
    by (simp add: client_ping_def ping_def)
  obtain t where "tailcat_dial sample_join_env (\<lambda>_. None) (replicate 32 1) True sample_dial_opts
       [(NotSent, [CtxDone], False), (Sent, [Meowed], False)] () = Some (0, Inr t)"
    using p by (simp add: tailcat_dial_def o dial_tcp_port_def client_up_def after_up_def del: ping_until.simps)
  from web_dial_named [OF this] this show ?thesis by (auto simp: o)
qed

end
