(* ===== verification/LocalDns.thy ===== *)
theory LocalDns
  imports GoNet
begin

text \<open>
  The in-process resolver for localhost names (\<open>internal/localhostdns\<close>): the recognition of a
  name, the answer to a query, and the loop that serves length-prefixed queries on a pipe. The DNS
  message codec is a package outside the repository and a parameter: how it parses a query and
  builds a response.
\<close>

section \<open>Names\<close>

text \<open>\<open>strings.ToLower\<close>; no character outside ASCII has a lower case form among the letters of
  \<open>localhost\<close>.\<close>

definition lower_char :: "char \<Rightarrow> char" where
  "lower_char c = (if is_upper c then char_of (of_char c + 32 :: nat) else c)"

definition is_localhost :: "string \<Rightarrow> bool" where
  "is_localhost name = (let n = map lower_char name in n = ''localhost.'' \<or> suffix ''.localhost.'' n)"

section \<open>Answers\<close>

datatype dns_type = TypeA | TypeAAAA | OtherType

datatype dns_rcode = NoError | NameError

datatype dns_data = DnsA bytes | DnsAAAA bytes

record 'q dns_codec =
  dc_parse :: "bytes \<Rightarrow> (16 word \<times> 'q) option"
  dc_name :: "'q \<Rightarrow> string"
  dc_type :: "'q \<Rightarrow> dns_type"
  dc_build :: "16 word \<Rightarrow> dns_rcode \<Rightarrow> 'q \<Rightarrow> dns_data option \<Rightarrow> bytes option"

definition put_uint16 :: "16 word \<Rightarrow> bytes" where
  "put_uint16 w = [ucast (drop_bit 8 w), ucast w]"

definition get_uint16 :: "byte \<Rightarrow> byte \<Rightarrow> nat" where
  "get_uint16 a b = unat a * 256 + unat b"

text \<open>The length prefix: a message of more than 65535 bytes would get the low bits of its length.\<close>

definition tcp_frame :: "bytes \<Rightarrow> bytes" where
  "tcp_frame m = put_uint16 (of_nat (length m)) @ m"

definition answer_data :: "dns_type \<Rightarrow> dns_data option" where
  "answer_data t =
     (case t of
        TypeA \<Rightarrow> Some (DnsA [127, 0, 0, 1])
      | TypeAAAA \<Rightarrow> Some (DnsAAAA (replicate 15 0 @ [1]))
      | OtherType \<Rightarrow> None)"

definition dns_answer :: "'q dns_codec \<Rightarrow> bytes \<Rightarrow> bytes option" where
  "dns_answer dc query =
     (case dc_parse dc query of
        None \<Rightarrow> None
      | Some (ident, q) \<Rightarrow>
          let code = (if is_localhost (dc_name dc q) then NoError else NameError);
              data = (if code = NoError then answer_data (dc_type dc q) else None)
          in map_option tcp_frame (dc_build dc ident code q data))"

text \<open>\<open>serve\<close>: what is written for the bytes that arrive, \<open>writes\<close> being the number of writes that succeed.\<close>

function dns_serve :: "(bytes \<Rightarrow> bytes option) \<Rightarrow> nat \<Rightarrow> bytes \<Rightarrow> bytes list" where
  "dns_serve ans writes (a # b # rest) =
     (if length rest < get_uint16 a b then []
      else
        (case ans (take (get_uint16 a b) rest) of
           None \<Rightarrow> []
         | Some resp \<Rightarrow> if writes = 0 then [] else resp # dns_serve ans (writes - 1) (drop (get_uint16 a b) rest)))"
| "dns_serve ans writes [] = []"
| "dns_serve ans writes [a] = []"
  by pat_completeness auto
termination by (relation "measure (\<lambda>(ans, writes, inp). length inp)") auto

section \<open>Correctness\<close>

lemma put_get_uint16:
  assumes "n < 65536"
  shows "\<exists>a b. put_uint16 (of_nat n) = [a, b] \<and> get_uint16 a b = n"
proof -
  have u: "unat (of_nat n :: 16 word) = n" using assms by (simp add: unat_of_nat)
  have "unat (ucast (drop_bit 8 (of_nat n :: 16 word)) :: byte) = n div 256"
    using assms u by (simp add: unsigned_ucast_eq unsigned_drop_bit_eq take_bit_eq_mod drop_bit_eq_div unat_div)
  moreover have "unat (ucast (of_nat n :: 16 word) :: byte) = n mod 256"
    using u by (simp add: unsigned_ucast_eq take_bit_eq_mod)
  ultimately show ?thesis by (simp add: put_uint16_def get_uint16_def)
qed

lemma dns_serve_frame:
  assumes "length q < 65536"
  shows "dns_serve ans writes (tcp_frame q @ rest) =
     (case ans q of None \<Rightarrow> [] | Some resp \<Rightarrow> if writes = 0 then [] else resp # dns_serve ans (writes - 1) rest)"
proof -
  obtain a b where ab: "put_uint16 (of_nat (length q)) = [a, b]" "get_uint16 a b = length q"
    using put_get_uint16 [OF assms] by blast
  have f: "tcp_frame q @ rest = a # b # q @ rest" by (simp add: tcp_frame_def ab(1))
  have d: "drop (get_uint16 a b) (q @ rest) = rest" by (simp add: ab(2))
  show ?thesis unfolding f by (simp add: d) (simp add: ab(2) split: option.split)
qed

lemma lower_localhost: "list_all (\<lambda>c. \<not> is_upper c) n \<Longrightarrow> map lower_char n = n"
  by (induction n) (auto simp: lower_char_def)


definition sample_codec_dns :: "string dns_codec" where
  "sample_codec_dns =
     \<lparr>dc_parse = (\<lambda>q. if q = [1] then Some (7, ''LocalHost.'') else if q = [2] then Some (8, ''localhost.lan.'') else None),
      dc_name = (\<lambda>q. q), dc_type = (\<lambda>q. TypeA),
      dc_build = (\<lambda>i c q d. Some [ucast i, if c = NoError then 0 else 3])\<rparr>"


end
