(* ===== verification/UnixPty.thy ===== *)
theory UnixPty
  imports Ssh
begin

text \<open>
  Terminal sessions on Linux and macOS (\<open>runWithPTY\<close> in \<open>tailcat_ssh_unix.go\<close>): the terminal modes
  and the size a client asks for, and the life of the descriptors of the terminal. The table of
  opcodes names constants of the SSH package, whose values are the parameter \<open>opc\<close>; the terminal
  attributes are those the termios package reads, a map of control characters and one of options.
\<close>

section \<open>Terminal modes\<close>

text \<open>\<open>opcodeShortName\<close>, from the constant to the name the termios package uses.\<close>

definition opcode_short_names :: "(string \<times> string) list" where
  "opcode_short_names =
     [(''VINTR'', ''intr''), (''VQUIT'', ''quit''), (''VERASE'', ''erase''), (''VKILL'', ''kill''),
      (''VEOF'', ''eof''), (''VEOL'', ''eol''), (''VEOL2'', ''eol2''), (''VSTART'', ''start''),
      (''VSTOP'', ''stop''), (''VSUSP'', ''susp''), (''VDSUSP'', ''dsusp''), (''VREPRINT'', ''rprnt''),
      (''VWERASE'', ''werase''), (''VLNEXT'', ''lnext''), (''VFLUSH'', ''flush''), (''VSWTCH'', ''swtch''),
      (''VSTATUS'', ''status''), (''VDISCARD'', ''discard''), (''IGNPAR'', ''ignpar''), (''PARMRK'', ''parmrk''),
      (''INPCK'', ''inpck''), (''ISTRIP'', ''istrip''), (''INLCR'', ''inlcr''), (''IGNCR'', ''igncr''),
      (''ICRNL'', ''icrnl''), (''IUCLC'', ''iuclc''), (''IXON'', ''ixon''), (''IXANY'', ''ixany''),
      (''IXOFF'', ''ixoff''), (''IMAXBEL'', ''imaxbel''), (''IUTF8'', ''iutf8''), (''ISIG'', ''isig''),
      (''ICANON'', ''icanon''), (''XCASE'', ''xcase''), (''ECHO'', ''echo''), (''ECHOE'', ''echoe''),
      (''ECHOK'', ''echok''), (''ECHONL'', ''echonl''), (''NOFLSH'', ''noflsh''), (''TOSTOP'', ''tostop''),
      (''IEXTEN'', ''iexten''), (''ECHOCTL'', ''echoctl''), (''ECHOKE'', ''echoke''), (''PENDIN'', ''pendin''),
      (''OPOST'', ''opost''), (''OLCUC'', ''olcuc''), (''ONLCR'', ''onlcr''), (''OCRNL'', ''ocrnl''),
      (''ONOCR'', ''onocr''), (''ONLRET'', ''onlret''), (''CS7'', ''cs7''), (''CS8'', ''cs8''),
      (''PARENB'', ''parenb''), (''PARODD'', ''parodd''), (''TTY_OP_ISPEED'', ''tty_op_ispeed''),
      (''TTY_OP_OSPEED'', ''tty_op_ospeed'')]"

definition opcode_short_name :: "(string \<Rightarrow> byte) \<Rightarrow> byte \<Rightarrow> string option" where
  "opcode_short_name opc = map_of (map (\<lambda>(c, n). (opc c, n)) opcode_short_names)"

record termios =
  tm_row :: nat
  tm_col :: nat
  tm_ispeed :: nat
  tm_ospeed :: nat
  tm_cc :: "string \<rightharpoonup> byte"
  tm_opts :: "string \<rightharpoonup> bool"

text \<open>The body of the loop over the modes, and the loop in the order in which the map is iterated.\<close>

definition apply_mode :: "(string \<Rightarrow> byte) \<Rightarrow> byte \<times> 32 word \<Rightarrow> termios \<Rightarrow> termios" where
  "apply_mode opc cv t =
     (case cv of (c, v) \<Rightarrow>
        if c = opc ''TTY_OP_ISPEED'' then t\<lparr>tm_ispeed := unat v\<rparr>
        else if c = opc ''TTY_OP_OSPEED'' then t\<lparr>tm_ospeed := unat v\<rparr>
        else
          (case opcode_short_name opc c of
             None \<Rightarrow> t
           | Some k \<Rightarrow>
               if tm_cc t k \<noteq> None then t\<lparr>tm_cc := (tm_cc t)(k \<mapsto> ucast v)\<rparr>
               else if tm_opts t k \<noteq> None then t\<lparr>tm_opts := (tm_opts t)(k \<mapsto> (0 < v))\<rparr>
               else t))"

fun apply_modes :: "(string \<Rightarrow> byte) \<Rightarrow> (byte \<times> 32 word) list \<Rightarrow> termios \<Rightarrow> termios" where
  "apply_modes opc [] t = t"
| "apply_modes opc (cv # modes) t = apply_modes opc modes (apply_mode opc cv t)"

text \<open>What the function passed to \<open>Control\<close> writes back: the size of the window, then the modes.\<close>

definition configure_tty :: "(string \<Rightarrow> byte) \<Rightarrow> nat \<Rightarrow> nat \<Rightarrow> (byte \<times> 32 word) list \<Rightarrow> termios \<Rightarrow> termios" where
  "configure_tty opc height width modes t = apply_modes opc modes (t\<lparr>tm_row := height, tm_col := width\<rparr>)"

text \<open>The reference: what a request, as a map from opcodes, says of the attribute with a given name.\<close>

definition opcode_of_name :: "(string \<Rightarrow> byte) \<Rightarrow> string \<Rightarrow> byte option" where
  "opcode_of_name opc k =
     (if k \<in> {''tty_op_ispeed'', ''tty_op_ospeed''} then None
      else map_of (map (\<lambda>(c, n). (n, opc c)) opcode_short_names) k)"

definition asked :: "(string \<Rightarrow> byte) \<Rightarrow> (byte \<rightharpoonup> 32 word) \<Rightarrow> string \<Rightarrow> 32 word option" where
  "asked opc req k = (case opcode_of_name opc k of None \<Rightarrow> None | Some c \<Rightarrow> req c)"

definition asked_or :: "nat \<Rightarrow> 32 word option \<Rightarrow> nat" where
  "asked_or old v = (case v of None \<Rightarrow> old | Some v \<Rightarrow> unat v)"

definition requested_termios :: "(string \<Rightarrow> byte) \<Rightarrow> (byte \<rightharpoonup> 32 word) \<Rightarrow> termios \<Rightarrow> termios" where
  "requested_termios opc req t =
     \<lparr>tm_row = tm_row t, tm_col = tm_col t,
      tm_ispeed = asked_or (tm_ispeed t) (req (opc ''TTY_OP_ISPEED'')),
      tm_ospeed = asked_or (tm_ospeed t) (req (opc ''TTY_OP_OSPEED'')),
      tm_cc = (\<lambda>k. map_option (\<lambda>old. case asked opc req k of None \<Rightarrow> old | Some v \<Rightarrow> ucast v) (tm_cc t k)),
      tm_opts = (\<lambda>k. map_option (\<lambda>old. if tm_cc t k \<noteq> None then old
                                       else (case asked opc req k of None \<Rightarrow> old | Some v \<Rightarrow> 0 < v)) (tm_opts t k))\<rparr>"

definition opcodes_distinct :: "(string \<Rightarrow> byte) \<Rightarrow> bool" where
  "opcodes_distinct opc = distinct (map (\<lambda>(c, n). opc c) opcode_short_names)"

lemma map_of_swap:
  "distinct (map fst xs) \<Longrightarrow> distinct (map snd xs) \<Longrightarrow> map_of xs a = Some b \<longleftrightarrow> map_of (map (\<lambda>(x, y). (y, x)) xs) b = Some a"
  by (simp add: map_of_eq_Some_iff image_iff comp_def case_prod_beta) force

lemma short_names_distinct: "distinct (map snd opcode_short_names)"
  by code_simp

lemma speed_names:
  "(''TTY_OP_ISPEED'', ''tty_op_ispeed'') \<in> set opcode_short_names"
  "(''TTY_OP_OSPEED'', ''tty_op_ospeed'') \<in> set opcode_short_names"
  by (simp_all add: opcode_short_names_def)

lemma short_name_iff:
  assumes "opcodes_distinct opc"
  shows "opcode_of_name opc k = Some c \<longleftrightarrow>
     opcode_short_name opc c = Some k \<and> c \<noteq> opc ''TTY_OP_ISPEED'' \<and> c \<noteq> opc ''TTY_OP_OSPEED''"
proof -
  let ?t = "map (\<lambda>(c, n). (opc c, n)) opcode_short_names"
  have d: "distinct (map fst ?t)" "distinct (map snd ?t)"
    using assms short_names_distinct by (simp_all add: opcodes_distinct_def comp_def case_prod_unfold)
  have i: "map_of (map (\<lambda>(c, n). (n, opc c)) opcode_short_names) k = Some c \<longleftrightarrow> map_of ?t c = Some k"
    using map_of_swap [OF d, of c k] by (simp add: comp_def case_prod_unfold)
  have "map_of ?t (opc ''TTY_OP_ISPEED'') = Some ''tty_op_ispeed''" "map_of ?t (opc ''TTY_OP_OSPEED'') = Some ''tty_op_ospeed''"
    using speed_names [THEN imageI, of "\<lambda>(c, n). (opc c, n)"] by (simp_all add: map_of_eq_Some_iff [OF d(1)])
  moreover have "c = c'" if "map_of ?t c = Some n" "map_of ?t c' = Some n" for c c' n
    using that map_of_swap [OF d] by simp
  ultimately show ?thesis unfolding opcode_of_name_def opcode_short_name_def by (auto simp: i)
qed

lemma speeds_differ: "opcodes_distinct opc \<Longrightarrow> opc ''TTY_OP_ISPEED'' \<noteq> opc ''TTY_OP_OSPEED''"
  using speed_names inj_onD [of "\<lambda>(c, n). opc c" "set opcode_short_names" "(''TTY_OP_ISPEED'', ''tty_op_ispeed'')"
      "(''TTY_OP_OSPEED'', ''tty_op_ospeed'')"]
  by (auto simp: opcodes_distinct_def distinct_map)

lemma asked_upd:
  assumes "opcodes_distinct opc"
  shows "asked opc (req(c \<mapsto> v)) =
     (if c = opc ''TTY_OP_ISPEED'' \<or> c = opc ''TTY_OP_OSPEED'' then asked opc req
      else (case opcode_short_name opc c of None \<Rightarrow> asked opc req | Some k \<Rightarrow> (asked opc req)(k \<mapsto> v)))"
proof
  fix k
  show "asked opc (req(c \<mapsto> v)) k =
     (if c = opc ''TTY_OP_ISPEED'' \<or> c = opc ''TTY_OP_OSPEED'' then asked opc req
      else (case opcode_short_name opc c of None \<Rightarrow> asked opc req | Some k \<Rightarrow> (asked opc req)(k \<mapsto> v))) k"
    using short_name_iff [OF assms, of k c] by (auto simp: asked_def split: option.splits)
qed

lemma asked_unset:
  assumes "opcodes_distinct opc" "req c = None" "opcode_short_name opc c = Some k"
    "c \<noteq> opc ''TTY_OP_ISPEED''" "c \<noteq> opc ''TTY_OP_OSPEED''"
  shows "asked opc req k = None"
proof -
  have "opcode_of_name opc k = Some c" using short_name_iff [OF assms(1)] assms(3-5) by blast
  then show ?thesis by (simp add: asked_def assms(2))
qed

lemma apply_mode_requested:
  assumes "opcodes_distinct opc" "req c = None"
  shows "requested_termios opc req (apply_mode opc (c, v) t) = requested_termios opc (req(c \<mapsto> v)) t"
proof (cases "c = opc ''TTY_OP_ISPEED'' \<or> c = opc ''TTY_OP_OSPEED''")
  case True
  then show ?thesis using assms(2) speeds_differ [OF assms(1)]
    by (auto simp: requested_termios_def apply_mode_def asked_upd [OF assms(1)] asked_or_def split: option.split)
next
  case False
  show ?thesis
  proof (cases "opcode_short_name opc c")
    case None
    then show ?thesis using False
      by (auto simp: requested_termios_def apply_mode_def asked_upd [OF assms(1)])
  next
    case (Some k)
    then have "asked opc req k = None" using asked_unset [of opc req c k] assms False by blast
    then show ?thesis using False Some
      by (auto simp: requested_termios_def apply_mode_def asked_upd [OF assms(1)] fun_eq_iff)
  qed
qed

lemma asked_nothing: "requested_termios opc Map.empty t = t"
proof -
  have n: "asked opc Map.empty k = None" for k by (simp add: asked_def split: option.split)
  have i: "(\<lambda>k. map_option (\<lambda>x. x) (m k)) = m" for m :: "string \<rightharpoonup> byte" by (simp add: option.map_ident)
  have j: "(\<lambda>k. map_option (\<lambda>x. if P k then x else x) (m k)) = m" for m :: "string \<rightharpoonup> bool" and P
    by (simp add: option.map_ident)
  have "requested_termios opc Map.empty t = \<lparr>tm_row = tm_row t, tm_col = tm_col t, tm_ispeed = tm_ispeed t,
      tm_ospeed = tm_ospeed t, tm_cc = tm_cc t, tm_opts = tm_opts t\<rparr>"
    unfolding requested_termios_def n option.case i j by (simp add: asked_or_def)
  then show ?thesis by simp
qed

text \<open>The terminal gets what the client asks for and nothing else, in whatever order the request is
  read: the size of the window and the two speeds; each control character and option that the
  terminal has and the table names, with the value of its own opcode (the low byte, and whether it
  is not zero); every other attribute, and the set of attributes, stays as it was.\<close>

theorem pty_modes_exact:
  assumes "opcodes_distinct opc" "distinct (map fst modes)"
  shows "configure_tty opc height width modes t =
     requested_termios opc (map_of modes) (t\<lparr>tm_row := height, tm_col := width\<rparr>)"
proof -
  have "apply_modes opc modes t = requested_termios opc (map_of modes) t" for t
    using assms(2)
  proof (induction modes arbitrary: t)
    case Nil
    then show ?case by (simp add: asked_nothing)
  next
    case (Cons cv modes)
    obtain c v where cv: "cv = (c, v)" by (cases cv)
    have "map_of modes c = None" using Cons.prems cv by (simp add: map_of_eq_None_iff)
    then show ?case using Cons by (simp add: cv apply_mode_requested [OF assms(1)] fun_upd_def)
  qed
  then show ?thesis by (simp add: configure_tty_def)
qed

text \<open>A numbering of the opcodes, by their position in the table.\<close>

fun position_of :: "string \<Rightarrow> (string \<times> string) list \<Rightarrow> nat \<Rightarrow> byte" where
  "position_of c [] i = 0"
| "position_of c ((d, n) # xs) i = (if c = d then of_nat i else position_of c xs (Suc i))"

definition sample_opc :: "string \<Rightarrow> byte" where
  "sample_opc c = position_of c opcode_short_names 1"

lemma position_of_map:
  "distinct (map fst xs) \<Longrightarrow> map (\<lambda>(c, n). position_of c xs i) xs = map of_nat [i..<i + length xs]"
proof (induction xs arbitrary: i)
  case (Cons x xs)
  obtain d n where x: "x = (d, n)" by (cases x)
  have u: "[i..<i + length (x # xs)] = i # [Suc i..<Suc i + length xs]" by (simp add: upt_conv_Cons del: upt_Suc)
  have r: "map (\<lambda>(c, n). position_of c (x # xs) i) xs = map (\<lambda>(c, n). position_of c xs (Suc i)) xs"
    using Cons.prems x by (auto simp: image_iff)
  have "distinct (map fst xs)" using Cons.prems by simp
  then have ih: "map (\<lambda>(c, n). position_of c xs (Suc i)) xs = map of_nat [Suc i..<Suc i + length xs]" by (rule Cons.IH)
  show ?case unfolding u list.map r ih by (simp add: x)
qed simp

lemma sample_opc_distinct: "opcodes_distinct sample_opc"
proof -
  have "distinct (map fst opcode_short_names)" by code_simp
  moreover have "distinct (map (of_nat :: nat \<Rightarrow> byte) [1..<57])" by code_simp
  moreover have "length opcode_short_names = 56" by (simp add: opcode_short_names_def)
  ultimately show ?thesis using position_of_map [of opcode_short_names 1] by (simp add: opcodes_distinct_def sample_opc_def)
qed

definition sample_termios :: termios where
  "sample_termios = \<lparr>tm_row = 0, tm_col = 0, tm_ispeed = 0, tm_ospeed = 0, tm_cc = [''intr'' \<mapsto> 3], tm_opts = [''echo'' \<mapsto> True, ''icanon'' \<mapsto> True]\<rparr>"

theorem pty_modes_exact_witness:
  "tm_opts (configure_tty sample_opc 24 80 [(sample_opc ''ECHO'', 0), (sample_opc ''VINTR'', 259)] sample_termios) ''echo'' = Some False
   \<and> tm_cc (configure_tty sample_opc 24 80 [(sample_opc ''ECHO'', 0), (sample_opc ''VINTR'', 259)] sample_termios) ''intr'' = Some 3"
proof -
  have v: "opcode_of_name sample_opc ''echo'' = Some (sample_opc ''ECHO'')" "opcode_of_name sample_opc ''intr'' = Some (sample_opc ''VINTR'')"
    by (simp_all add: opcode_of_name_def opcode_short_names_def)
  have c: "sample_opc ''ECHO'' \<noteq> sample_opc ''VINTR''" by code_simp
  then have n: "distinct (map fst [(sample_opc ''ECHO'', 0), (sample_opc ''VINTR'', 259 :: 32 word)])" by simp
  show ?thesis unfolding pty_modes_exact [OF sample_opc_distinct n]
    using c by (simp add: requested_termios_def asked_def v sample_termios_def)
qed

section \<open>Descriptors\<close>

datatype pty_fd = PtyMaster | PtySlave | PtyDup

datatype pty_op =
    OpenFd pty_fd
  | CloseFd pty_fd
  | UseFd pty_fd
  | SetWinsize pty_fd "16 word \<times> 16 word \<times> 16 word \<times> 16 word"
  | SessionExit int

record window =
  win_width :: int
  win_height :: int
  win_width_pixels :: int
  win_height_pixels :: int

definition winsize :: "window \<Rightarrow> 16 word \<times> 16 word \<times> 16 word \<times> 16 word" where
  "winsize w = (word_of_int (win_height w), word_of_int (win_width w),
                word_of_int (win_width_pixels w), word_of_int (win_height_pixels w))"

text \<open>The goroutine that follows the window of the session, until the channel of sizes is closed.\<close>

definition winch_loop :: "window list \<Rightarrow> pty_op list" where
  "winch_loop wins = map (\<lambda>w. SetWinsize PtyDup (winsize w)) wins @ [CloseFd PtyDup]"

text \<open>What \<open>runWithPTY\<close> does until it starts its goroutine, and after: whether the terminal could be
  opened, its descriptor controlled, the command started and the descriptor duplicated, and the
  error of \<open>Wait\<close>. The second close of the slave, by the deferred call, finds a closed file and
  does nothing.\<close>

definition run_with_pty ::
  "bool \<Rightarrow> bool \<Rightarrow> bool \<Rightarrow> bool \<Rightarrow> wait_error option \<Rightarrow> window list \<Rightarrow> pty_op list \<times> pty_op list \<times> pty_op list" where
  "run_with_pty open_ok control_ok start_ok dup_ok wait wins =
     (if \<not> open_ok then ([SessionExit 1], [], [])
      else
        (let setup = [OpenFd PtyMaster, OpenFd PtySlave] @ (if control_ok then [UseFd PtySlave] else [])
         in if \<not> start_ok then (setup @ [SessionExit 1, CloseFd PtySlave, CloseFd PtyMaster], [], [])
            else
              (setup @ [UseFd PtySlave, CloseFd PtySlave, UseFd PtyMaster] @ (if dup_ok then [OpenFd PtyDup] else []),
               [UseFd PtyMaster,
                SessionExit (case wait of Some e \<Rightarrow> exit_code e | None \<Rightarrow> 0),
                CloseFd PtyMaster],
               if dup_ok then winch_loop wins else [])))"

text \<open>The open descriptors after some operations; None once a descriptor is used that is not open, or
  opened while it is.\<close>

fun fd_step :: "pty_op \<Rightarrow> pty_fd set \<Rightarrow> pty_fd set option" where
  "fd_step (OpenFd f) S = (if f \<in> S then None else Some (insert f S))"
| "fd_step (CloseFd f) S = (if f \<in> S then Some (S - {f}) else None)"
| "fd_step (UseFd f) S = (if f \<in> S then Some S else None)"
| "fd_step (SetWinsize f w) S = (if f \<in> S then Some S else None)"
| "fd_step (SessionExit n) S = Some S"

fun fd_run :: "pty_op list \<Rightarrow> pty_fd set \<Rightarrow> pty_fd set option" where
  "fd_run [] S = Some S"
| "fd_run (p # ps) S = (case fd_step p S of None \<Rightarrow> None | Some S' \<Rightarrow> fd_run ps S')"

lemma fd_run_append: "fd_run (ps @ qs) S = (case fd_run ps S of None \<Rightarrow> None | Some S' \<Rightarrow> fd_run qs S')"
  by (induction ps arbitrary: S) (simp_all split: option.split)

fun op_fd :: "pty_op \<Rightarrow> pty_fd option" where
  "op_fd (OpenFd f) = Some f"
| "op_fd (CloseFd f) = Some f"
| "op_fd (UseFd f) = Some f"
| "op_fd (SetWinsize f w) = Some f"
| "op_fd (SessionExit n) = None"

text \<open>Two threads that touch different descriptors do not disturb each other, however they
  interleave.\<close>

lemma fd_step_other:
  assumes "op_fd p \<noteq> Some PtyDup" "fd_step p (S - {PtyDup}) = Some S1"
  shows "\<exists>S2. fd_step p S = Some S2 \<and> S2 - {PtyDup} = S1 \<and> S2 \<inter> {PtyDup} = S \<inter> {PtyDup}"
  using assms by (cases p) (auto split: if_splits)

lemma fd_step_dup:
  assumes "op_fd p \<in> {None, Some PtyDup}" "fd_step p (S \<inter> {PtyDup}) = Some S1"
  shows "\<exists>S2. fd_step p S = Some S2 \<and> S2 \<inter> {PtyDup} = S1 \<and> S2 - {PtyDup} = S - {PtyDup}"
  using assms by (cases p) (auto split: if_splits)

lemma fd_run_shuffle:
  assumes "tr \<in> shuffles ps qs" "\<forall>p \<in> set ps. op_fd p \<noteq> Some PtyDup" "\<forall>q \<in> set qs. op_fd q \<in> {None, Some PtyDup}"
    "fd_run ps (S - {PtyDup}) = Some {}" "fd_run qs (S \<inter> {PtyDup}) = Some {}"
  shows "fd_run tr S = Some {}"
  using assms
proof (induction ps qs arbitrary: tr S rule: shuffles.induct)
  case (1 ys)
  then have "S \<inter> {PtyDup} = S" by auto
  then show ?case using 1 by simp
next
  case (2 xs)
  then have "S - {PtyDup} = S" by auto
  then show ?case using 2 by simp
next
  case (3 x xs y ys)
  from "3.prems"(1) consider tr' where "tr = x # tr'" "tr' \<in> shuffles xs (y # ys)"
    | tr' where "tr = y # tr'" "tr' \<in> shuffles (x # xs) ys"
    by auto
  then show ?case
  proof cases
    case 1
    obtain S1 where s: "fd_step x (S - {PtyDup}) = Some S1" "fd_run xs S1 = Some {}"
      using "3.prems"(4) by (auto split: option.splits)
    obtain S2 where "fd_step x S = Some S2" "S2 - {PtyDup} = S1" "S2 \<inter> {PtyDup} = S \<inter> {PtyDup}"
      using fd_step_other [OF _ s(1)] "3.prems"(2) by auto
    then show ?thesis using "3.IH"(1) [OF 1(2), of S2] "3.prems" s(2) 1(1) by simp
  next
    case 2
    obtain S1 where s: "fd_step y (S \<inter> {PtyDup}) = Some S1" "fd_run ys S1 = Some {}"
      using "3.prems"(5) by (auto split: option.splits)
    obtain S2 where "fd_step y S = Some S2" "S2 \<inter> {PtyDup} = S1" "S2 - {PtyDup} = S - {PtyDup}"
      using fd_step_dup [OF _ s(1)] "3.prems"(3) by auto
    then show ?thesis using "3.IH"(2) [OF 2(2), of S2] "3.prems" s(2) 2(1) by simp
  qed
qed

fun is_exit :: "pty_op \<Rightarrow> bool" where
  "is_exit (SessionExit n) = True"
| "is_exit p = False"

fun is_resize :: "pty_op \<Rightarrow> bool" where
  "is_resize (SetWinsize f w) = True"
| "is_resize p = False"

lemma filter_winch_loop:
  "filter is_exit (winch_loop wins) = []"
  "filter is_resize (winch_loop wins) = map (\<lambda>w. SetWinsize PtyDup (winsize w)) wins"
  by (induction wins) (simp_all add: winch_loop_def)

lemma fd_run_winch_loop: "fd_run (winch_loop wins) {PtyDup} = Some {}"
  by (induction wins) (simp_all add: winch_loop_def)

lemma op_fd_winch_loop: "q \<in> set (winch_loop wins) \<Longrightarrow> op_fd q \<in> {None, Some PtyDup}"
  by (auto simp: winch_loop_def)


definition sample_window :: window where
  "sample_window = \<lparr>win_width = 80, win_height = 70000, win_width_pixels = 0, win_height_pixels = 0\<rparr>"


end
