(* ===== verification/Lifecycle.thy ===== *)
theory Lifecycle
  imports ClientSide
begin

text \<open>
  The end of a backend's life (\<open>locoBackend.Close\<close>, \<open>Client.Close\<close>): the resources of the engine are
  released once, in order, however often and by whomever the backend is closed.
\<close>

datatype resource = NetstackRes | EngineRes | NetMonRes | DialerRes | BusRes

text \<open>Which resources were set up before the backend was abandoned or started, whether \<open>closeOnce\<close> has
  run, and the resources closed so far.\<close>

record sys_state =
  sy_set :: "resource list"
  sy_once :: bool
  sy_closed :: "resource list"

definition close_order :: "resource list" where
  "close_order = [NetstackRes, EngineRes, NetMonRes, DialerRes, BusRes]"

lemma close_order_all: "distinct close_order" "set close_order = UNIV"
proof -
  have "r \<in> set close_order" for r by (cases r) (simp_all add: close_order_def)
  then show "set close_order = UNIV" by blast
qed (simp add: close_order_def)

definition loco_close :: "sys_state \<Rightarrow> sys_state" where
  "loco_close sy =
     (if sy_once sy then sy
      else sy\<lparr>sy_once := True,
             sy_closed := sy_closed sy @ filter (\<lambda>r. r \<in> set (sy_set sy)) close_order\<rparr>)"

text \<open>\<open>Client.Close\<close>: a client that was never used has nothing to close.\<close>

definition client_close :: "client \<Rightarrow> sys_state \<Rightarrow> sys_state" where
  "client_close c sy = (if cl_lb c = None then sy else loco_close sy)"

lemma loco_close_idem: "loco_close (loco_close sy) = loco_close sy"
  by (simp add: loco_close_def)

lemma loco_close_releases:
  assumes "\<not> sy_once sy" "sy_closed sy = []" "0 < n"
  shows "distinct (sy_closed ((loco_close ^^ n) sy)) \<and> set (sy_closed ((loco_close ^^ n) sy)) = set (sy_set sy)"
proof -
  have "(loco_close ^^ n) sy = loco_close sy" using assms(3)
  proof (induction n)
    case (Suc n)
    then show ?case by (cases n) (simp_all add: loco_close_idem)
  qed simp
  then show ?thesis using assms(1,2) by (simp add: loco_close_def close_order_all)
qed

lemma client_close_unused: "cl_lb c = None \<Longrightarrow> client_close c sy = sy"
  by (simp add: client_close_def)

end
