(* ===== verification/Platform.thy ===== *)
theory Platform
  imports Ssh "HOL-Library.List_Lexorder"
begin

text \<open>
  What differs between platforms and builds: the build tags (\<open>internal/buildtags\<close>), the argument that
  Termux's linker inserts (\<open>argvfix_termux.go\<close>), the browser command (\<open>browse.go\<close>) and the way
  Windows runs the SSH client (\<open>ssh_exec_windows.go\<close>). The feature registry, the environment, the file
  system and the child process are parameters.
\<close>

section \<open>Build tags\<close>

definition wasm_keep :: "string list" where
  "wasm_keep = [''netstack'']"

definition release_keep :: "string list" where
  "release_keep = [''netstack'', ''ssh'', ''gro'', ''bakedroots'', ''androidbin'']"

text \<open>The registry: the features with their omit tags, and what a feature requires (itself included).\<close>

record registry =
  rg_features :: "string list"
  rg_omittable :: "string \<Rightarrow> bool"
  rg_omit_tag :: "string \<Rightarrow> string"
  rg_requires :: "string \<Rightarrow> string list"

definition omitted :: "registry \<Rightarrow> string list \<Rightarrow> string list" where
  "omitted rg keep =
     (let keep_set = concat (map (rg_requires rg) keep)
      in filter (\<lambda>ft. ft \<noteq> [] \<and> rg_omittable rg ft \<and> ft \<notin> set keep_set) (rg_features rg))"

definition build_tags :: "registry \<Rightarrow> string list \<Rightarrow> string" where
  "build_tags rg keep = join '','' (sort (map (rg_omit_tag rg) (omitted rg keep)))"

text \<open>The tag list names exactly the features that nothing kept requires, each once and in order, so the
  same registry gives the same bytes, whatever order it lists its features in.\<close>

lemma build_tags_exact:
  assumes "distinct (rg_features rg)" "inj_on (rg_omit_tag rg) (set (rg_features rg))"
    "\<forall>ft \<in> set (rg_features rg). CHR '','' \<notin> set (rg_omit_tag rg ft)" "omitted rg keep \<noteq> []"
  shows "set (split_on CHR '','' (build_tags rg keep)) =
      rg_omit_tag rg ` {ft \<in> set (rg_features rg). ft \<noteq> [] \<and> rg_omittable rg ft \<and> (\<forall>k \<in> set keep. ft \<notin> set (rg_requires rg k))}"
    and "sorted_wrt (<) (split_on CHR '','' (build_tags rg keep))"
proof -
  let ?t = "sort (map (rg_omit_tag rg) (omitted rg keep))"
  have o: "set (omitted rg keep) = {ft \<in> set (rg_features rg). ft \<noteq> [] \<and> rg_omittable rg ft \<and> (\<forall>k \<in> set keep. ft \<notin> set (rg_requires rg k))}"
    by (auto simp: omitted_def)
  have "?t \<noteq> []" using assms(4) by (metis length_0_conv length_map length_sort)
  then have s: "split_on CHR '','' (build_tags rg keep) = ?t"
    unfolding build_tags_def using assms(3) o by (intro split_on_join) auto
  show "set (split_on CHR '','' (build_tags rg keep)) =
      rg_omit_tag rg ` {ft \<in> set (rg_features rg). ft \<noteq> [] \<and> rg_omittable rg ft \<and> (\<forall>k \<in> set keep. ft \<notin> set (rg_requires rg k))}"
    unfolding s by (simp add: o)
  have "distinct (omitted rg keep)" using assms(1) by (simp add: omitted_def Let_def)
  moreover have "inj_on (rg_omit_tag rg) (set (omitted rg keep))" using assms(2) o by (auto intro: inj_on_subset)
  ultimately show "sorted_wrt (<) (split_on CHR '','' (build_tags rg keep))"
    unfolding s by (simp add: strict_sorted_iff distinct_map)
qed

section \<open>Arguments under Termux\<close>

definition termux_prefix :: string where "termux_prefix = ''/data/data/com.termux/files/''"

definition under_termux :: "string \<Rightarrow> string option \<Rightarrow> bool" where
  "under_termux termux_version exe =
     (termux_version \<noteq> [] \<or> (case exe of None \<Rightarrow> False | Some e \<Rightarrow> prefix termux_prefix e))"

text \<open>The arguments after \<open>init\<close>; \<open>regular\<close> tells whether a path can be examined and is a regular file.\<close>

definition fix_argv :: "bool \<Rightarrow> (string \<Rightarrow> bool) \<Rightarrow> string list \<Rightarrow> string list" where
  "fix_argv termux regular args =
     (if \<not> termux then args
      else if length args < 2 \<or> \<not> prefix ''/'' (args ! 1) then args
      else if path_base (args ! 1) \<noteq> path_base (args ! 0) then args
      else if \<not> regular (args ! 1) then args
      else take 1 args @ drop 2 args)"

lemma fix_argv_outside: "fix_argv False regular args = args"
  by (simp add: fix_argv_def)

lemma fix_argv_linker:
  "prefix ''/'' exe \<Longrightarrow> regular exe \<Longrightarrow> path_base exe = path_base a0 \<Longrightarrow> fix_argv True regular (a0 # exe # rest) = a0 # rest"
  by (simp add: fix_argv_def)

lemma fix_argv_only_linker:
  "fix_argv termux regular (a0 # args) = a0 # args
   \<or> (\<exists>exe rest. args = exe # rest \<and> fix_argv termux regular (a0 # args) = a0 # rest
        \<and> termux \<and> prefix ''/'' exe \<and> regular exe \<and> path_base exe = path_base a0)"
  by (cases args) (auto simp: fix_argv_def)

section \<open>The browser command\<close>

definition browse_args :: "string list \<Rightarrow> string list option" where
  "browse_args args = (case args of [addr] \<Rightarrow> Some [addr, ''0:80''] | _ \<Rightarrow> None)"

text \<open>\<open>openBrowserToListener\<close>, given the text of the listener's address.\<close>

definition browser_url :: "string \<Rightarrow> string" where
  "browser_url addr =
     ''http://''
     @ (case parse_addr_port addr of
          Some (ip, p) \<Rightarrow> if is_unspecified ip then join_host_port ''127.0.0.1'' (itoa (unat p)) else addr
        | None \<Rightarrow> addr)
     @ ''/''"

section \<open>Running the SSH client on Windows\<close>

datatype exec_end = ProcessExits int | ReturnsError

definition exec_ssh :: "wait_error option \<Rightarrow> exec_end" where
  "exec_ssh run =
     (case run of
        Some (ExitError n) \<Rightarrow> ProcessExits n
      | Some OtherWaitError \<Rightarrow> ReturnsError
      | None \<Rightarrow> ProcessExits 0)"

end
