(* ===== verification/WebDist.thy ===== *)
theory WebDist
  imports GoPath "HOL-Library.Monad_Syntax"
begin

text \<open>
  The browser app as files: how its distribution directory is built (\<open>internal/wasmbuild\<close>) and how a
  web server serves it (\<open>webdemo\<close>), on Unix. The Go tool, the compressors and the file system are
  outcomes; the output directory is the map from its entries to their contents, and a step that
  fails ends the build, so no directory is returned then.
\<close>

section \<open>Building the directory\<close>

type_synonym dist_dir = "string \<rightharpoonup> bytes"

record dist_tools =
  dt_mkdir :: bool
  dt_build :: "string \<Rightarrow> bytes option"
  dt_zstd :: "bytes \<Rightarrow> bytes option"
  dt_gzip :: "bytes \<Rightarrow> bytes option"
  dt_goroot :: "string option"
  dt_read :: "string \<Rightarrow> bytes option"
  dt_create :: "string \<Rightarrow> bool"

definition go_root :: "dist_tools \<Rightarrow> string option" where
  "go_root t = map_option trim_space (dt_goroot t)"

definition wasm_exec_js :: "dist_tools \<Rightarrow> string option" where
  "wasm_exec_js t = map_option (\<lambda>r. path_join [r, ''lib'', ''wasm'', ''wasm_exec.js'']) (go_root t)"

definition create_entry :: "dist_tools \<Rightarrow> string \<Rightarrow> bytes \<Rightarrow> dist_dir \<Rightarrow> dist_dir option" where
  "create_entry t name content d = (if dt_create t name then Some (d(name \<mapsto> content)) else None)"

definition copy_file :: "dist_tools \<Rightarrow> string \<Rightarrow> string \<Rightarrow> dist_dir \<Rightarrow> dist_dir option" where
  "copy_file t src name d = do { b \<leftarrow> dt_read t src; create_entry t name b d }"

definition compress_wasm :: "dist_tools \<Rightarrow> string \<Rightarrow> dist_dir \<Rightarrow> dist_dir option" where
  "compress_wasm t name d =
     do { src \<leftarrow> d name;
          z \<leftarrow> dt_zstd t src;
          d \<leftarrow> create_entry t (name @ ''.zst'') z d;
          g \<leftarrow> dt_gzip t src;
          create_entry t (name @ ''.gz'') g d }"

fun copy_page :: "dist_tools \<Rightarrow> string \<Rightarrow> string list \<Rightarrow> dist_dir \<Rightarrow> dist_dir option" where
  "copy_page t web [] d = Some d"
| "copy_page t web (name # names) d = do { d \<leftarrow> copy_file t (path_join [web, name]) name d; copy_page t web names d }"

definition pkg_arg :: "string \<Rightarrow> string" where
  "pkg_arg web = (if prefix ''/'' web then web else ''./'' @ web)"

definition dist :: "dist_tools \<Rightarrow> string \<Rightarrow> dist_dir \<Rightarrow> dist_dir option" where
  "dist t web d =
     (if \<not> dt_mkdir t then None
      else
        do { wasm \<leftarrow> dt_build t (pkg_arg web);
             d \<leftarrow> compress_wasm t ''main.wasm'' (d(''main.wasm'' \<mapsto> wasm));
             js \<leftarrow> wasm_exec_js t;
             d \<leftarrow> copy_file t js ''wasm_exec.js'' d;
             copy_page t web [''index.html'', ''app.js''] d })"

section \<open>Serving it\<close>

definition dist_files :: "string list" where
  "dist_files = [''index.html'', ''app.js'', ''wasm_exec.js'', ''main.wasm'']"

fun stat_all :: "dist_dir \<Rightarrow> string list \<Rightarrow> (string, nat) gomap \<Rightarrow> (string, nat) gomap option" where
  "stat_all d [] sizes = Some sizes"
| "stat_all d (name # names) sizes =
     (case d name of None \<Rightarrow> None | Some b \<Rightarrow> stat_all d names (mset_key name (length b) sizes))"

fun stat_some :: "dist_dir \<Rightarrow> string list \<Rightarrow> (string, nat) gomap \<Rightarrow> (string, nat) gomap" where
  "stat_some d [] sizes = sizes"
| "stat_some d (name # names) sizes =
     stat_some d names (case d name of None \<Rightarrow> sizes | Some b \<Rightarrow> mset_key name (length b) sizes)"

text \<open>\<open>Handler\<close>: None if the directory is incomplete, otherwise the sizes its closures keep.\<close>

definition handler :: "dist_dir \<Rightarrow> (string, nat) gomap option" where
  "handler d = map_option (stat_some d [''main.wasm.zst'', ''main.wasm.gz'']) (stat_all d dist_files [])"

definition size_of :: "(string, nat) gomap \<Rightarrow> string \<Rightarrow> nat" where
  "size_of sizes name = (case mget sizes name of None \<Rightarrow> 0 | Some n \<Rightarrow> n)"

fun contains_str :: "string \<Rightarrow> string \<Rightarrow> bool" where
  "contains_str sub [] = (sub = [])"
| "contains_str sub (c # cs) = (prefix sub (c # cs) \<or> contains_str sub cs)"

datatype reply = NotFound | MethodNotAllowed | ServeFile string "(string, string) gomap"

definition wasm_reply :: "(string, nat) gomap \<Rightarrow> string \<Rightarrow> reply" where
  "wasm_reply sizes ae =
     (let h = [(''Content-Type'', ''application/wasm''), (''Vary'', ''Accept-Encoding''),
               (''X-Uncompressed-Size'', itoa (size_of sizes ''main.wasm''))];
          (name, h) =
            (if contains_str ''zstd'' ae \<and> size_of sizes ''main.wasm.zst'' > 0
             then (''main.wasm.zst'', mset_key ''Content-Encoding'' ''zstd'' h)
             else if contains_str ''gzip'' ae \<and> size_of sizes ''main.wasm.gz'' > 0
             then (''main.wasm.gz'', mset_key ''Content-Encoding'' ''gzip'' h)
             else (''main.wasm'', h))
      in ServeFile name (mset_key ''X-Compressed-Size'' (itoa (size_of sizes name)) h))"

text \<open>The routes of the multiplexer, whose patterns for \<open>GET\<close> also match \<open>HEAD\<close>.\<close>

definition serve_app :: "(string, nat) gomap \<Rightarrow> string \<Rightarrow> string \<Rightarrow> string \<Rightarrow> reply" where
  "serve_app sizes meth path ae =
     (if path \<notin> {''/'', ''/app.js'', ''/wasm_exec.js'', ''/main.wasm''} then NotFound
      else if meth \<notin> {''GET'', ''HEAD''} then MethodNotAllowed
      else if path = ''/'' then ServeFile ''index.html'' []
      else if path = ''/app.js'' then ServeFile ''app.js'' []
      else if path = ''/wasm_exec.js'' then ServeFile ''wasm_exec.js'' []
      else wasm_reply sizes ae)"

section \<open>Correctness\<close>

lemma create_entry_Some: "create_entry t name b d = Some d' \<Longrightarrow> d' = d(name \<mapsto> b)"
  by (simp add: create_entry_def split: if_splits)

lemma dist_Some:
  assumes "dist t web d = Some d'"
  obtains wasm z g js page app where
    "dt_build t (pkg_arg web) = Some wasm" "dt_zstd t wasm = Some z" "dt_gzip t wasm = Some g"
    "d' = d(''main.wasm'' \<mapsto> wasm, ''main.wasm.zst'' \<mapsto> z, ''main.wasm.gz'' \<mapsto> g, ''wasm_exec.js'' \<mapsto> js,
            ''index.html'' \<mapsto> page, ''app.js'' \<mapsto> app)"
  using assms
  by (auto simp: dist_def compress_wasm_def copy_file_def split: bind_splits if_splits dest!: create_entry_Some)

lemma handler_sizes:
  assumes "d ''index.html'' = Some page" "d ''app.js'' = Some app" "d ''wasm_exec.js'' = Some js" "d ''main.wasm'' = Some wasm"
    "d ''main.wasm.zst'' = Some z" "d ''main.wasm.gz'' = Some g"
  obtains sizes where "handler d = Some sizes" "size_of sizes ''main.wasm'' = length wasm"
    "size_of sizes ''main.wasm.zst'' = length z" "size_of sizes ''main.wasm.gz'' = length g"
  by (rule that, simp add: handler_def dist_files_def assms) (simp_all add: size_of_def)

text \<open>What the build writes is what the server serves: after a build the handler starts, every page
  request is answered from a file that exists, and the wasm binary is sent in an encoding that the
  client's header names, as the compressed form of the very binary that was built or as the binary itself, with
  both of its sizes right.\<close>

theorem built_app_is_served:
  assumes "dist t web d = Some d'"
  shows "\<exists>sizes wasm. handler d' = Some sizes \<and> dt_build t (pkg_arg web) = Some wasm
    \<and> (\<forall>path ae name h. serve_app sizes ''GET'' path ae = ServeFile name h \<longrightarrow> d' name \<noteq> None)
    \<and> (\<forall>ae. \<exists>name h body. serve_app sizes ''GET'' ''/main.wasm'' ae = ServeFile name h \<and> d' name = Some body
         \<and> mget h ''X-Uncompressed-Size'' = Some (itoa (length wasm)) \<and> mget h ''X-Compressed-Size'' = Some (itoa (length body))
         \<and> (case mget h ''Content-Encoding'' of
              None \<Rightarrow> body = wasm
            | Some e \<Rightarrow> contains_str e ae \<and> (e = ''zstd'' \<and> dt_zstd t wasm = Some body \<or> e = ''gzip'' \<and> dt_gzip t wasm = Some body)))"
proof -
  obtain wasm z g js page app where b: "dt_build t (pkg_arg web) = Some wasm" "dt_zstd t wasm = Some z" "dt_gzip t wasm = Some g"
    and d': "d' = d(''main.wasm'' \<mapsto> wasm, ''main.wasm.zst'' \<mapsto> z, ''main.wasm.gz'' \<mapsto> g, ''wasm_exec.js'' \<mapsto> js,
            ''index.html'' \<mapsto> page, ''app.js'' \<mapsto> app)"
    by (rule dist_Some [OF assms])
  have f: "d' ''index.html'' = Some page" "d' ''app.js'' = Some app" "d' ''wasm_exec.js'' = Some js" "d' ''main.wasm'' = Some wasm"
    "d' ''main.wasm.zst'' = Some z" "d' ''main.wasm.gz'' = Some g"
    by (simp_all add: d')
  obtain sizes where s: "handler d' = Some sizes" "size_of sizes ''main.wasm'' = length wasm"
    "size_of sizes ''main.wasm.zst'' = length z" "size_of sizes ''main.wasm.gz'' = length g"
    by (rule handler_sizes [OF f])
  have w: "\<exists>name h body. wasm_reply sizes ae = ServeFile name h \<and> d' name = Some body
         \<and> mget h ''X-Uncompressed-Size'' = Some (itoa (length wasm)) \<and> mget h ''X-Compressed-Size'' = Some (itoa (length body))
         \<and> (case mget h ''Content-Encoding'' of
              None \<Rightarrow> body = wasm
            | Some e \<Rightarrow> contains_str e ae \<and> (e = ''zstd'' \<and> dt_zstd t wasm = Some body \<or> e = ''gzip'' \<and> dt_gzip t wasm = Some body))" for ae
    by (cases "contains_str ''zstd'' ae \<and> z \<noteq> []"; cases "contains_str ''gzip'' ae \<and> g \<noteq> []")
       (auto simp: wasm_reply_def s f b)
  have "d' name \<noteq> None" if "serve_app sizes ''GET'' path ae = ServeFile name h" for path ae name h
    using that w [of ae] by (auto simp: serve_app_def f split: if_splits)
  moreover have "serve_app sizes ''GET'' ''/main.wasm'' ae = wasm_reply sizes ae" for ae by (simp add: serve_app_def)
  ultimately show ?thesis using s(1) b(1) w by auto
qed

text \<open>Naming is not accepting: a client that refuses gzip by a quality of zero gets it.\<close>

lemma refused_encoding_served:
  "0 < size_of sizes ''main.wasm.gz'' \<Longrightarrow> \<exists>h. wasm_reply sizes ''gzip;q=0'' = ServeFile ''main.wasm.gz'' h"
proof -
  have c: "\<not> contains_str ''zstd'' ''gzip;q=0''" "contains_str ''gzip'' ''gzip;q=0''" by code_simp+
  assume "0 < size_of sizes ''main.wasm.gz''"
  with c show ?thesis by (simp add: wasm_reply_def del: contains_str.simps)
qed

definition sample_tools :: dist_tools where
  "sample_tools =
     \<lparr>dt_mkdir = True, dt_build = (\<lambda>p. if p = ''./web'' then Some [0, 97, 115, 109] else None),
      dt_zstd = (\<lambda>b. Some (take 1 b)), dt_gzip = (\<lambda>b. Some (take 2 b)), dt_goroot = Some ''/go'', dt_read = (\<lambda>p. Some []),
      dt_create = (\<lambda>n. True)\<rparr>"

theorem built_app_is_served_witness:
  "\<exists>d' sizes. dist sample_tools ''web'' Map.empty = Some d' \<and> handler d' = Some sizes
     \<and> (\<exists>name h. serve_app sizes ''GET'' ''/main.wasm'' ''br, gzip'' = ServeFile name h \<and> d' name \<noteq> None)"
proof -
  obtain d' where d: "dist sample_tools ''web'' Map.empty = Some d'"
    by (simp add: dist_def sample_tools_def pkg_arg_def compress_wasm_def copy_file_def create_entry_def wasm_exec_js_def go_root_def)
  obtain sizes where h: "handler d' = Some sizes"
    "\<forall>ae. \<exists>name h body. serve_app sizes ''GET'' ''/main.wasm'' ae = ServeFile name h \<and> d' name = Some body"
    using built_app_is_served [OF d] by (elim exE conjE, intro that) (assumption, fast)
  then show ?thesis using d by blast
qed

end
