(* ===== verification/FlakeHashes.thy ===== *)
theory FlakeHashes
  imports GoNet
begin

text \<open>
  The tool that keeps \<open>flakehashes.json\<close> and the marker line of \<open>flake.nix\<close> up to date
  (\<open>tool/updateflakes\<close>): the fingerprint of the module files, the decision to hash the vendor tree
  again, and the rewriting of the marker. The hash of the vendor tree, SHA-256 with its base64 text, and
  JSON are parameters.
\<close>

section \<open>Files\<close>

datatype text_file = Missing | Unreadable | Content string

text \<open>The working tree, and whether its two outputs can be written.\<close>

record work_tree =
  wt_hashes :: text_file
  wt_mod :: text_file
  wt_sum :: text_file
  wt_flake :: text_file
  wt_can_write_hashes :: bool
  wt_can_write_flake :: bool

record flake_hashes =
  vh_sum :: string
  vh_sri :: string

datatype flake_error = CannotRead | BadJson | VendorFailed | CannotWrite | NoMarker

definition cache_bust_prefix :: string where
  "cache_bust_prefix = ''# nix-direnv cache busting line:''"

definition newline :: char where "newline = char_of (10 :: nat)"

section \<open>Operations\<close>

definition load_hashes :: "(string \<Rightarrow> flake_hashes option) \<Rightarrow> work_tree \<Rightarrow> flake_error + flake_hashes" where
  "load_hashes unmarshal w =
     (case wt_hashes w of
        Missing \<Rightarrow> Inr \<lparr>vh_sum = [], vh_sri = []\<rparr>
      | Unreadable \<Rightarrow> Inl CannotRead
      | Content s \<Rightarrow> (case unmarshal s of None \<Rightarrow> Inl BadJson | Some h \<Rightarrow> Inr h))"

definition write_hashes :: "(flake_hashes \<Rightarrow> string) \<Rightarrow> flake_hashes \<Rightarrow> work_tree \<Rightarrow> work_tree option" where
  "write_hashes marshal h w =
     (if wt_can_write_hashes w then Some (w\<lparr>wt_hashes := Content (marshal h @ [newline])\<rparr>) else None)"

text \<open>What the hash of a fingerprint is fed for one file: a line with its name and length, and its
  content.\<close>

definition sum_entry :: "string \<Rightarrow> string \<Rightarrow> string" where
  "sum_entry name content = name @ '' '' @ itoa (length content) @ [newline] @ content"

definition go_mod_fingerprint :: "(string \<Rightarrow> string) \<Rightarrow> work_tree \<Rightarrow> flake_error + string" where
  "go_mod_fingerprint sha w =
     (case wt_mod w of
        Content m \<Rightarrow>
          (case wt_sum w of
             Content s \<Rightarrow> Inr (''sha256-'' @ sha (sum_entry ''go.mod'' m @ sum_entry ''go.sum'' s))
           | _ \<Rightarrow> Inl CannotRead)
      | _ \<Rightarrow> Inl CannotRead)"

text \<open>The loop over the lines from the last to the first, on the reversed list: the line that was found
  and the lines with it replaced.\<close>

fun bust_lines :: "string \<Rightarrow> string list \<Rightarrow> (string \<times> string list) option" where
  "bust_lines want [] = None"
| "bust_lines want (l # ls) =
     (if prefix cache_bust_prefix l then Some (l, want # ls)
      else map_option (\<lambda>(old, ls'). (old, l # ls')) (bust_lines want ls))"

definition update_cache_bust :: "string \<Rightarrow> work_tree \<Rightarrow> work_tree \<times> flake_error option" where
  "update_cache_bust sri w =
     (case wt_flake w of
        Content b \<Rightarrow>
          (let want = cache_bust_prefix @ '' '' @ sri
           in case bust_lines want (rev (split_on newline b)) of
                None \<Rightarrow> (w, Some NoMarker)
              | Some (old, ls) \<Rightarrow>
                  if old = want then (w, None)
                  else if \<not> wt_can_write_flake w then (w, Some CannotWrite)
                  else (w\<lparr>wt_flake := Content (join [newline] (rev ls))\<rparr>, None))
      | _ \<Rightarrow> (w, Some CannotRead))"

definition flakes_run ::
  "(string \<Rightarrow> flake_hashes option) \<Rightarrow> (flake_hashes \<Rightarrow> string) \<Rightarrow> (string \<Rightarrow> string) \<Rightarrow> string option \<Rightarrow> work_tree
     \<Rightarrow> work_tree \<times> flake_error option" where
  "flakes_run unmarshal marshal sha vendor w =
     (case load_hashes unmarshal w of
        Inl e \<Rightarrow> (w, Some e)
      | Inr have_hashes \<Rightarrow>
          (case go_mod_fingerprint sha w of
             Inl e \<Rightarrow> (w, Some e)
           | Inr fp \<Rightarrow>
               (case (if vh_sum have_hashes \<noteq> fp \<or> vh_sri have_hashes = []
                      then map_option (\<lambda>sri. \<lparr>vh_sum = fp, vh_sri = sri\<rparr>) vendor else Some have_hashes) of
                  None \<Rightarrow> (w, Some VendorFailed)
                | Some want \<Rightarrow>
                    (case (if want \<noteq> have_hashes then write_hashes marshal want w else Some w) of
                       None \<Rightarrow> (w, Some CannotWrite)
                     | Some w \<Rightarrow> update_cache_bust (vh_sri want) w))))"

section \<open>Correctness\<close>

text \<open>The stream that is hashed determines both files, so the fingerprint changes with them as far as
  SHA-256 has no collisions.\<close>

lemma sum_entry_prefix_free:
  assumes "sum_entry n a @ x = sum_entry n b @ y"
  shows "a = b \<and> x = y"
proof -
  have e: "itoa (length a) @ newline # a @ x = itoa (length b) @ newline # b @ y" using assms by (simp add: sum_entry_def)
  have nl: "newline \<notin> set (itoa k)" for k
    by (rule itoa_no_char) code_simp
  have "cut newline (itoa (length a) @ newline # a @ x) = Some (itoa (length a), a @ x)"
    "cut newline (itoa (length b) @ newline # b @ y) = Some (itoa (length b), b @ y)"
    unfolding cut_Some_iff using nl by blast+
  with e have i: "itoa (length a) = itoa (length b)" by (metis option.inject prod.inject)
  then have "length a = length b" by (rule itoa_inj)
  moreover have "a @ x = b @ y" using e unfolding i by (simp only: same_append_eq list.inject)
  ultimately show ?thesis by (metis append_eq_append_conv)
qed

lemma fingerprint_changes:
  assumes "inj sha" "wt_mod w = Content m" "wt_sum w = Content s" "wt_mod w' = Content m'" "wt_sum w' = Content s'"
    "go_mod_fingerprint sha w = go_mod_fingerprint sha w'"
  shows "m = m' \<and> s = s'"
proof -
  have "sum_entry ''go.mod'' m @ sum_entry ''go.sum'' s = sum_entry ''go.mod'' m' @ sum_entry ''go.sum'' s'"
  proof (rule injD [OF assms(1)])
    show "sha (sum_entry ''go.mod'' m @ sum_entry ''go.sum'' s) = sha (sum_entry ''go.mod'' m' @ sum_entry ''go.sum'' s')"
      using assms(6) unfolding go_mod_fingerprint_def assms(2-5) text_file.case by simp
  qed
  from sum_entry_prefix_free [OF this] have "m = m'" "sum_entry ''go.sum'' s @ [] = sum_entry ''go.sum'' s' @ []"
    by (simp_all only: append_Nil2)
  with sum_entry_prefix_free show ?thesis by blast
qed

lemma bust_lines_Some:
  "bust_lines want ls = Some (old, ls') \<Longrightarrow>
     \<exists>us vs. ls = us @ old # vs \<and> ls' = us @ want # vs \<and> prefix cache_bust_prefix old \<and> (\<forall>u \<in> set us. \<not> prefix cache_bust_prefix u)"
proof (induction ls arbitrary: ls')
  case (Cons l ls)
  show ?case
  proof (cases "prefix cache_bust_prefix l")
    case True
    with Cons.prems show ?thesis by (intro exI [of _ "[]"] exI [of _ ls]) simp
  next
    case False
    then obtain ls'' where b: "bust_lines want ls = Some (old, ls'')" "ls' = l # ls''" using Cons.prems by auto
    from Cons.IH [OF b(1)] obtain us vs where "ls = us @ old # vs" "ls'' = us @ want # vs" "prefix cache_bust_prefix old"
      "\<forall>u \<in> set us. \<not> prefix cache_bust_prefix u" by blast
    with b(2) False show ?thesis by (intro exI [of _ "l # us"] exI [of _ vs]) simp
  qed
qed simp

lemma bust_lines_found:
  "\<forall>u \<in> set us. \<not> prefix cache_bust_prefix u \<Longrightarrow> prefix cache_bust_prefix old \<Longrightarrow> bust_lines want (us @ old # vs) = Some (old, us @ want # vs)"
  by (induction us) simp_all

text \<open>A file whose last marker line carries the hash.\<close>

definition busted :: "string \<Rightarrow> string \<Rightarrow> bool" where
  "busted sri b = (\<exists>us vs. split_on newline b = us @ (cache_bust_prefix @ '' '' @ sri) # vs \<and> (\<forall>v \<in> set vs. \<not> prefix cache_bust_prefix v))"

lemma update_busted: "wt_flake w = Content b \<Longrightarrow> busted sri b \<Longrightarrow> update_cache_bust sri w = (w, None)"
  by (auto simp: update_cache_bust_def busted_def bust_lines_found)

lemma update_cache_bust_ok:
  assumes "update_cache_bust sri w = (w', None)" "newline \<notin> set sri"
  shows "\<exists>b b' us old vs. wt_flake w = Content b \<and> split_on newline b = us @ old # vs \<and> prefix cache_bust_prefix old
    \<and> w' = w\<lparr>wt_flake := Content b'\<rparr> \<and> split_on newline b' = us @ (cache_bust_prefix @ '' '' @ sri) # vs \<and> busted sri b'"
proof -
  let ?want = "cache_bust_prefix @ '' '' @ sri"
  obtain b old ls where b: "wt_flake w = Content b" "bust_lines ?want (rev (split_on newline b)) = Some (old, ls)"
    and w: "w' = (if old = ?want then w else w\<lparr>wt_flake := Content (join [newline] (rev ls))\<rparr>)"
    using assms(1) by (auto simp: update_cache_bust_def Let_def split: text_file.splits option.splits if_splits)
  obtain us vs where u: "rev (split_on newline b) = us @ old # vs" "ls = us @ ?want # vs" "prefix cache_bust_prefix old"
    "\<forall>u \<in> set us. \<not> prefix cache_bust_prefix u"
    using bust_lines_Some [OF b(2)] by blast
  have s: "split_on newline b = rev vs @ old # rev us" using arg_cong [OF u(1), of rev] by simp
  have "newline \<notin> set (cache_bust_prefix @ '' '')" by code_simp
  then have nl: "newline \<notin> set ?want" using assms(2) by simp
  define b' where "b' = (if old = ?want then b else join [newline] (rev ls))"
  have "\<forall>l \<in> set (rev ls). newline \<notin> set l" using split_on_no_sep [of _ newline b] nl unfolding u(2) s by auto
  then have "split_on newline (join [newline] (rev ls)) = rev ls" by (intro split_on_join) (simp_all add: u(2))
  then have s': "split_on newline b' = rev vs @ ?want # rev us" using s u(2) by (simp add: b'_def)
  have "w' = w\<lparr>wt_flake := Content b'\<rparr>" using w b(1) by (cases w) (simp add: b'_def)
  moreover have "busted sri b'" using s' u(4) unfolding busted_def by (metis set_rev)
  ultimately show ?thesis using b(1) s s' u(3) by blast
qed

text \<open>A run that succeeds leaves the tree settled: the recorded hash is that of the present module files,
  the marker of \<open>flake.nix\<close> carries it and every other line is as it was, the module files are
  untouched, and running again, whatever the vendor tree would hash to, changes nothing. If the
  recorded hash was up to date, it is kept.\<close>

theorem flakes_settle:
  assumes "flakes_run unmarshal marshal sha vendor w = (w', None)"
    and json: "\<And>h. unmarshal (marshal h @ [newline]) = Some h"
    and sri: "\<And>v. vendor = Some v \<Longrightarrow> v \<noteq> [] \<and> newline \<notin> set v" "\<And>h. load_hashes unmarshal w = Inr h \<Longrightarrow> newline \<notin> set (vh_sri h)"
  shows "\<exists>h b us old vs b'. load_hashes unmarshal w' = Inr h \<and> go_mod_fingerprint sha w' = Inr (vh_sum h) \<and> vh_sri h \<noteq> []
    \<and> wt_mod w' = wt_mod w \<and> wt_sum w' = wt_sum w
    \<and> wt_flake w = Content b \<and> split_on newline b = us @ old # vs \<and> prefix cache_bust_prefix old
    \<and> wt_flake w' = Content b' \<and> split_on newline b' = us @ (cache_bust_prefix @ '' '' @ vh_sri h) # vs
    \<and> flakes_run unmarshal marshal sha vendor' w' = (w', None)
    \<and> (\<forall>h0. load_hashes unmarshal w = Inr h0 \<and> go_mod_fingerprint sha w = Inr (vh_sum h0) \<and> vh_sri h0 \<noteq> [] \<longrightarrow> h = h0)"
proof -
  obtain h0 fp h w1 where l: "load_hashes unmarshal w = Inr h0" "go_mod_fingerprint sha w = Inr fp"
    and h: "(if vh_sum h0 \<noteq> fp \<or> vh_sri h0 = [] then map_option (\<lambda>sri. \<lparr>vh_sum = fp, vh_sri = sri\<rparr>) vendor else Some h0) = Some h"
    and w1: "(if h \<noteq> h0 then write_hashes marshal h w else Some w) = Some w1"
    and u: "update_cache_bust (vh_sri h) w1 = (w', None)"
    using assms(1) unfolding flakes_run_def by (auto split: sum.splits option.splits)
  have f: "vh_sum h = fp" "vh_sri h \<noteq> []" "newline \<notin> set (vh_sri h)" using h sri l(1) by (auto split: if_splits)
  have k: "load_hashes unmarshal w1 = Inr h" "wt_mod w1 = wt_mod w" "wt_sum w1 = wt_sum w" "wt_flake w1 = wt_flake w"
    using w1 l(1) json by (auto simp: write_hashes_def load_hashes_def split: if_splits)
  obtain b b' us old vs where b: "wt_flake w1 = Content b" "split_on newline b = us @ old # vs" "prefix cache_bust_prefix old"
    "w' = w1\<lparr>wt_flake := Content b'\<rparr>" "split_on newline b' = us @ (cache_bust_prefix @ '' '' @ vh_sri h) # vs" "busted (vh_sri h) b'"
    using update_cache_bust_ok [OF u f(3)] by blast
  have l': "load_hashes unmarshal w' = Inr h" "go_mod_fingerprint sha w' = Inr fp"
    using k l(2) by (simp_all add: b(4) load_hashes_def go_mod_fingerprint_def split: text_file.splits)
  have "flakes_run unmarshal marshal sha vendor' w' = (w', None)"
    using l' f update_busted [of w' b' "vh_sri h"] b(4,6) by (simp add: flakes_run_def)
  moreover have "h = h0" if "fp = vh_sum h0" "vh_sri h0 \<noteq> []" using h that by simp
  ultimately show ?thesis using l l' f b k by auto
qed

definition sample_tree :: work_tree where
  "sample_tree =
     \<lparr>wt_hashes = Missing, wt_mod = Content ''module m'', wt_sum = Content [],
      wt_flake = Content (cache_bust_prefix @ '' old''), wt_can_write_hashes = True, wt_can_write_flake = True\<rparr>"

definition sample_marshal :: "flake_hashes \<Rightarrow> string" where
  "sample_marshal h = itoa (length (vh_sum h)) @ '' '' @ vh_sum h @ vh_sri h"

definition sample_unmarshal :: "string \<Rightarrow> flake_hashes option" where
  "sample_unmarshal s =
     (case cut CHR '' '' s of
        None \<Rightarrow> None
      | Some (n, rest) \<Rightarrow> Some \<lparr>vh_sum = take (digits_val n) rest, vh_sri = butlast (drop (digits_val n) rest)\<rparr>)"

lemma sample_json: "sample_unmarshal (sample_marshal h @ [newline]) = Some h"
proof -
  have "cut CHR '' '' (itoa (length (vh_sum h)) @ CHR '' '' # vh_sum h @ vh_sri h @ [newline])
      = Some (itoa (length (vh_sum h)), vh_sum h @ vh_sri h @ [newline])"
    unfolding cut_Some_iff by (rule conjI, simp, rule itoa_no_char, code_simp)
  then show ?thesis by (simp add: sample_unmarshal_def sample_marshal_def digits_val_itoa butlast_append)
qed

theorem flakes_settle_witness:
  "\<exists>w'. flakes_run sample_unmarshal sample_marshal id (Some ''sha256-x'') sample_tree = (w', None)
     \<and> flakes_run sample_unmarshal sample_marshal id None w' = (w', None)"
proof -
  have sp: "split_on newline (cache_bust_prefix @ '' old'') = [cache_bust_prefix @ '' old'']" by code_simp
  have "snd (flakes_run sample_unmarshal sample_marshal id (Some ''sha256-x'') sample_tree) = None"
    by (simp add: flakes_run_def load_hashes_def sample_tree_def go_mod_fingerprint_def write_hashes_def update_cache_bust_def sp Let_def)
  then obtain w' where w: "flakes_run sample_unmarshal sample_marshal id (Some ''sha256-x'') sample_tree = (w', None)"
    by (metis prod.collapse)
  have "newline \<notin> set ''sha256-x''" by code_simp
  then have v: "v \<noteq> [] \<and> newline \<notin> set v" if "Some ''sha256-x'' = Some v" for v using that by auto
  have l: "newline \<notin> set (vh_sri h)" if "load_hashes sample_unmarshal sample_tree = Inr h" for h
    using that by (auto simp: load_hashes_def sample_tree_def)
  from flakes_settle [OF w sample_json v l, of None] w show ?thesis by blast
qed

end
