(* ===== verification/Installer.thy ===== *)
theory Installer
  imports GoPath "HOL-Library.Monad_Syntax"
begin

text \<open>
  The source installer (\<open>install/main.go\<close>): where it installs, the copy of the verified source module
  with its size bounds, the build, the check of the built binary and its placement by a rename. The
  Go tool, the module cache and the file system are outcomes; path functions are those of the
  platform.
\<close>

section \<open>Environment\<close>

record os_paths =
  op_windows :: bool
  op_is_abs :: "string \<Rightarrow> bool"
  op_split_list :: "string \<Rightarrow> string list"
  op_join :: "string list \<Rightarrow> string"

definition unix_paths :: os_paths where
  "unix_paths = \<lparr>op_windows = False, op_is_abs = prefix ''/'',
     op_split_list = (\<lambda>s. if s = [] then [] else split_on CHR '':'' s), op_join = path_join\<rparr>"

datatype entry_kind = DirEntry | RegularEntry | OtherEntry

text \<open>An entry of the source tree in the order of the walk: whether the walk reached it, its kind if its
  information could be read, its size, its content if it could be read, and whether its copy could be
  written.\<close>

record source_entry =
  se_rel :: string
  se_walk_ok :: bool
  se_kind :: entry_kind
  se_info_ok :: bool
  se_size :: u64
  se_data :: "bytes option"
  se_write_ok :: bool

record module_info =
  mi_dir :: string
  mi_sum :: string
  mi_error :: string

record install_env =
  ie_paths :: os_paths
  ie_args :: nat
  ie_bin_dir :: string
  ie_gobin :: "string option"
  ie_gopath :: "string option"
  ie_module :: "module_info option"
  ie_mkdir_temp :: bool
  ie_entries :: "source_entry list"
  ie_build :: "string \<Rightarrow> (string \<rightharpoonup> bytes) \<Rightarrow> bytes option"
  ie_text :: "bytes \<Rightarrow> string"
  ie_version :: "bytes \<Rightarrow> string option"
  ie_mkdir_bin :: bool
  ie_stage :: "string option"
  ie_read_built :: bool
  ie_write_stage :: bool
  ie_chmod_stage :: bool
  ie_close_stage :: bool
  ie_rename :: bool

datatype install_error =
    UnexpectedArgs | GoEnvFailed | NoGopath | NotAbsolute | DownloadFailed | IntegrityMismatch | TempFailed
  | WalkFailed | NonRegular string | SourceTooLarge | CopyFailed | NoTags | BuildFailed | VersionMismatch
  | BinDirFailed | StageFailed | InstallFailed

definition version :: string where "version = ''v0.7.0-quic.4''"

definition source_sum :: string where "source_sum = ''h1:RYX6th9t+8fqkhUxO1UDlXokLnBlMTH9r7dr5zTpgRo=''"

section \<open>Steps\<close>

text \<open>\<open>goOutput\<close> trims what the Go tool prints.\<close>

definition install_dir :: "install_env \<Rightarrow> install_error + string" where
  "install_dir e =
     (case (if ie_bin_dir e \<noteq> [] then Inr (ie_bin_dir e)
            else
              (case map_option trim_space (ie_gobin e) of
                 None \<Rightarrow> Inl GoEnvFailed
               | Some gobin \<Rightarrow>
                   if gobin \<noteq> [] then Inr gobin
                   else
                     (case map_option trim_space (ie_gopath e) of
                        None \<Rightarrow> Inl GoEnvFailed
                      | Some gopath \<Rightarrow>
                          (case op_split_list (ie_paths e) gopath of
                             [] \<Rightarrow> Inl NoGopath
                           | p # ps \<Rightarrow> Inr (op_join (ie_paths e) [p, ''bin'']))))) of
        Inl err \<Rightarrow> Inl err
      | Inr dir \<Rightarrow> if op_is_abs (ie_paths e) dir then Inr dir else Inl NotAbsolute)"

definition verified_module :: "install_env \<Rightarrow> install_error option" where
  "verified_module e =
     (case ie_module e of
        None \<Rightarrow> Some DownloadFailed
      | Some m \<Rightarrow> if mi_error m \<noteq> [] \<or> mi_dir m = [] \<or> mi_sum m \<noteq> source_sum then Some IntegrityMismatch else None)"

text \<open>The walk: the sizes are \<open>int64\<close>, and their sum is kept in one.\<close>

definition max_file :: int where "max_file = 2 ^ 25"
definition max_source :: int where "max_source = 2 ^ 28"

fun copy_tree :: "source_entry list \<Rightarrow> u64 \<Rightarrow> (string \<rightharpoonup> bytes) \<Rightarrow> install_error + (string \<rightharpoonup> bytes)" where
  "copy_tree [] copied work = Inr work"
| "copy_tree (e # es) copied work =
     (if \<not> se_walk_ok e then Inl WalkFailed
      else if se_kind e = DirEntry then (if se_write_ok e then copy_tree es copied work else Inl CopyFailed)
      else if \<not> se_info_ok e then Inl WalkFailed
      else if se_kind e \<noteq> RegularEntry then Inl (NonRegular (se_rel e))
      else
        (let copied = copied + se_size e
         in if sint (se_size e) > max_file \<or> sint copied > max_source then Inl SourceTooLarge
            else
              (case se_data e of
                 None \<Rightarrow> Inl CopyFailed
               | Some b \<Rightarrow> if se_write_ok e then copy_tree es copied (work(se_rel e \<mapsto> b)) else Inl CopyFailed)))"

definition built_binary :: "install_env \<Rightarrow> (string \<rightharpoonup> bytes) \<Rightarrow> install_error + bytes" where
  "built_binary e work =
     (case work ''build-tags.txt'' of
        None \<Rightarrow> Inl NoTags
      | Some tags \<Rightarrow>
          (case ie_build e (trim_space (ie_text e tags)) work of
             None \<Rightarrow> Inl BuildFailed
           | Some bin \<Rightarrow>
               (case ie_version e bin of
                  None \<Rightarrow> Inl VersionMismatch
                | Some out \<Rightarrow> if trim_space out = version then Inr bin else Inl VersionMismatch)))"

text \<open>The staging file in the target directory, which is removed whatever happens, and the rename.\<close>

definition place_binary :: "install_env \<Rightarrow> string \<Rightarrow> bytes \<Rightarrow> (string \<rightharpoonup> bytes) \<Rightarrow> (string \<rightharpoonup> bytes) \<times> (install_error + string)" where
  "place_binary e dir bin files =
     (if \<not> ie_mkdir_bin e then (files, Inl BinDirFailed)
      else
        (case ie_stage e of
           None \<Rightarrow> (files, Inl StageFailed)
         | Some stage \<Rightarrow>
             (let staged = files(stage \<mapsto> (if ie_read_built e then bin else []));
                  dest = op_join (ie_paths e) [dir, if op_windows (ie_paths e) then ''tailcat.exe'' else ''tailcat'']
              in if \<not> (ie_read_built e \<and> ie_write_stage e \<and> ie_chmod_stage e) then (staged(stage := None), Inl StageFailed)
                 else if \<not> ie_close_stage e then (staged(stage := None), Inl StageFailed)
                 else if \<not> ie_rename e then (staged(stage := None), Inl InstallFailed)
                 else (staged(stage := None, dest := staged stage), Inr dest))))"

definition install_run :: "install_env \<Rightarrow> (string \<rightharpoonup> bytes) \<Rightarrow> (string \<rightharpoonup> bytes) \<times> (install_error + string)" where
  "install_run e files =
     (if ie_args e \<noteq> 0 then (files, Inl UnexpectedArgs)
      else
        (case install_dir e of
           Inl err \<Rightarrow> (files, Inl err)
         | Inr dir \<Rightarrow>
             (case verified_module e of
                Some err \<Rightarrow> (files, Inl err)
              | None \<Rightarrow>
                  if \<not> ie_mkdir_temp e then (files, Inl TempFailed)
                  else
                    (case copy_tree (ie_entries e) 0 Map.empty of
                       Inl err \<Rightarrow> (files, Inl err)
                     | Inr work \<Rightarrow>
                         (case built_binary e work of
                            Inl err \<Rightarrow> (files, Inl err)
                          | Inr bin \<Rightarrow> place_binary e dir bin files)))))"

section \<open>Correctness\<close>

definition copied_sizes :: "source_entry list \<Rightarrow> int list" where
  "copied_sizes es = map (\<lambda>e. sint (se_size e)) (filter (\<lambda>e. se_kind e \<noteq> DirEntry) es)"

text \<open>The bound holds of the true sum: since every size is checked too, the 64-bit sum cannot wrap.\<close>

lemma copy_tree_bounded:
  assumes "copy_tree es copied work = Inr work'" "\<forall>e \<in> set es. 0 \<le> sint (se_size e)" "0 \<le> sint copied" "sint copied \<le> max_source"
  shows "(\<forall>n \<in> set (copied_sizes es). n \<le> max_file) \<and> sint copied + sum_list (copied_sizes es) \<le> max_source
    \<and> (\<forall>e \<in> set es. se_kind e \<noteq> OtherEntry)"
  using assms
proof (induction es arbitrary: copied work)
  case Nil
  then show ?case by (simp add: copied_sizes_def)
next
  case (Cons e es)
  show ?case
  proof (cases "se_kind e = DirEntry")
    case True
    then show ?thesis using Cons by (auto simp: copied_sizes_def split: if_splits)
  next
    case False
    let ?c = "copied + se_size e"
    obtain b where r: "copy_tree es ?c (work(se_rel e \<mapsto> b)) = Inr work'" "se_kind e = RegularEntry"
      and m: "sint (se_size e) \<le> max_file" "sint ?c \<le> max_source"
      using Cons.prems(1) False by (auto simp: Let_def split: if_splits option.splits)
    have "sint ?c = sint copied + sint (se_size e)"
    proof -
      have "0 \<le> sint (se_size e)" using Cons.prems(2) by simp
      then have "signed_take_bit 63 (sint copied + sint (se_size e)) = sint copied + sint (se_size e)"
        using Cons.prems(3,4) m(1) by (intro signed_take_bit_int_eq_self) (auto simp: max_file_def max_source_def)
      then show ?thesis by (simp add: sint_word_ariths)
    qed
    then show ?thesis using Cons.IH [OF r(1)] Cons.prems(2-4) m r(2) by (auto simp: copied_sizes_def)
  qed
qed

text \<open>C25. Nothing is installed that was not verified, and nothing else is touched: a run that fails leaves
  every file as it was; a run that succeeds changes one file, the program in an absolute directory,
  and makes it the binary that was built, with the tags of the source, from a copy of the module whose
  checksum is the expected one, of regular files within the size bounds, and that reported the
  expected version.\<close>

theorem install_verified:
  assumes "install_run e files = (files', result)" "\<forall>s. ie_stage e = Some s \<longrightarrow> files s = None"
    "\<forall>x \<in> set (ie_entries e). 0 \<le> sint (se_size x)"
  shows "case result of
      Inl err \<Rightarrow> files' = files
    | Inr dest \<Rightarrow>
        \<exists>dir m work tags bin out.
          install_dir e = Inr dir \<and> op_is_abs (ie_paths e) dir
          \<and> dest = op_join (ie_paths e) [dir, if op_windows (ie_paths e) then ''tailcat.exe'' else ''tailcat'']
          \<and> ie_module e = Some m \<and> mi_sum m = source_sum \<and> mi_error m = []
          \<and> copy_tree (ie_entries e) 0 Map.empty = Inr work \<and> sum_list (copied_sizes (ie_entries e)) \<le> max_source
          \<and> (\<forall>n \<in> set (copied_sizes (ie_entries e)). n \<le> max_file) \<and> (\<forall>x \<in> set (ie_entries e). se_kind x \<noteq> OtherEntry)
          \<and> work ''build-tags.txt'' = Some tags \<and> ie_build e (trim_space (ie_text e tags)) work = Some bin
          \<and> ie_version e bin = Some out \<and> trim_space out = version
          \<and> files' = files(dest \<mapsto> bin)"
proof (cases result)
  case (Inl err)
  have "files(s := None) = files" if "ie_stage e = Some s" for s using assms(2) that by (simp add: fun_upd_idem)
  then show ?thesis using assms(1) Inl
    by (auto simp: install_run_def place_binary_def Let_def split: sum.splits option.splits if_splits)
next
  case (Inr dest)
  obtain dir work bin where d: "install_dir e = Inr dir" "verified_module e = None" "copy_tree (ie_entries e) 0 Map.empty = Inr work"
    "built_binary e work = Inr bin" "place_binary e dir bin files = (files', Inr dest)"
    using assms(1) Inr by (auto simp: install_run_def split: sum.splits option.splits if_splits)
  have a: "op_is_abs (ie_paths e) dir" using d(1) by (auto simp: install_dir_def split: sum.splits if_splits)
  obtain m where m: "ie_module e = Some m" "mi_sum m = source_sum" "mi_error m = []"
    using d(2) by (auto simp: verified_module_def split: option.splits if_splits)
  have c: "(\<forall>n \<in> set (copied_sizes (ie_entries e)). n \<le> max_file) \<and> sum_list (copied_sizes (ie_entries e)) \<le> max_source
      \<and> (\<forall>x \<in> set (ie_entries e). se_kind x \<noteq> OtherEntry)"
    using copy_tree_bounded [OF d(3) assms(3)] by (simp add: max_source_def)
  obtain tags out where b: "work ''build-tags.txt'' = Some tags" "ie_build e (trim_space (ie_text e tags)) work = Some bin"
    "ie_version e bin = Some out" "trim_space out = version"
    using d(4) by (auto simp: built_binary_def split: option.splits if_splits)
  obtain s where s: "ie_stage e = Some s" using d(5) by (auto simp: place_binary_def split: option.splits if_splits)
  then have "files(s := None) = files" using assms(2) by (simp add: fun_upd_idem)
  then have "dest = op_join (ie_paths e) [dir, if op_windows (ie_paths e) then ''tailcat.exe'' else ''tailcat''] \<and> files' = files(dest \<mapsto> bin)"
    using d(5) s by (auto simp: place_binary_def Let_def split: if_splits)
  then show ?thesis unfolding Inr sum.case using d(1,3) a m c b by blast
qed

definition sample_entry :: source_entry where
  "sample_entry = \<lparr>se_rel = ''build-tags.txt'', se_walk_ok = True, se_kind = RegularEntry, se_info_ok = True, se_size = 1,
     se_data = Some [65], se_write_ok = True\<rparr>"

definition sample_install :: install_env where
  "sample_install =
     \<lparr>ie_paths = unix_paths, ie_args = 0, ie_bin_dir = ''/usr/bin'', ie_gobin = None, ie_gopath = None,
      ie_module = Some \<lparr>mi_dir = ''/m'', mi_sum = source_sum, mi_error = []\<rparr>, ie_mkdir_temp = True, ie_entries = [sample_entry],
      ie_build = (\<lambda>tags work. Some [127, 69]), ie_text = map (\<lambda>b. char_of (unat b)), ie_version = (\<lambda>b. Some version),
      ie_mkdir_bin = True, ie_stage = Some ''/usr/bin/.tailcat-install-1'', ie_read_built = True, ie_write_stage = True,
      ie_chmod_stage = True, ie_close_stage = True, ie_rename = True\<rparr>"

theorem install_verified_witness:
  "fst (install_run sample_install [''/usr/bin/tailcat'' \<mapsto> [1]]) = [''/usr/bin/tailcat'' \<mapsto> [127, 69]]"
proof -
  have t: "trim_space version = version" by (rule trim_space_visible) code_simp
  have j: "path_join [''/usr/bin'', ''tailcat''] = ''/usr/bin/tailcat''" by code_simp
  have e: "install_run sample_install [''/usr/bin/tailcat'' \<mapsto> [1]] = (fst (install_run sample_install [''/usr/bin/tailcat'' \<mapsto> [1]]), Inr ''/usr/bin/tailcat'')"
    by (simp add: install_run_def install_dir_def verified_module_def built_binary_def place_binary_def sample_install_def sample_entry_def
        unix_paths_def max_file_def max_source_def t j Let_def)
  from install_verified [OF e] show ?thesis by (auto simp: sample_install_def sample_entry_def)
qed

end
