(* ===== verification/WanCheck.thy ===== *)
theory WanCheck
  imports GoNet
begin

text \<open>
  The driver that tests the UDP API over a wide-area path (\<open>internal/wancheck\<close>): the services its
  server offers, and the probe of its client, which sends numbered datagrams and counts the echoes.
  What the connection delivers, and when, is an outcome. Times are nanoseconds, which the report
  divides by a million.
\<close>

section \<open>Server\<close>

definition wan_port :: port where "wan_port = 32123"

definition wan_serves :: "port \<Rightarrow> bool" where
  "wan_serves p = (p = wan_port)"

datatype 'a io_result = IoOk 'a | IoError

text \<open>The UDP service: the datagrams written, given for each turn whether the deadline could be set,
  what is read into a buffer of 65535 bytes and whether the write succeeds.\<close>

fun udp_echo :: "(bool \<times> bytes io_result \<times> bool) list \<Rightarrow> bytes list" where
  "udp_echo [] = []"
| "udp_echo ((deadline_ok, r, write_ok) # turns) =
     (if \<not> deadline_ok then []
      else (case r of IoError \<Rightarrow> [] | IoOk b \<Rightarrow> if write_ok then b # udp_echo turns else []))"

section \<open>Client\<close>

definition be32 :: "u32 \<Rightarrow> bytes" where
  "be32 w = [ucast (drop_bit 24 w), ucast (drop_bit 16 w), ucast (drop_bit 8 w), ucast w]"

definition uint32_at :: "bytes \<Rightarrow> nat" where
  "uint32_at b = ((unat (b ! 0) * 256 + unat (b ! 1)) * 256 + unat (b ! 2)) * 256 + unat (b ! 3)"

definition probe_payload :: "u32 \<Rightarrow> nat \<Rightarrow> bytes" where
  "probe_payload s n = be32 s @ drop 4 (replicate n (ucast s))"

datatype udp_read = UdpPacket bytes | UdpTimeout | UdpFailed

datatype probe_error = BadMetadata | BadCredential | WarmupFailed | Integrity | DialFailed | ContextDone
  | DeadlineFailed | WriteFailed | ReadFailed | TruncatedEcho | Corruption | PathFailed | UnexpectedPath

datatype echo = Lost | Echoed nat

text \<open>The inner loop: the reads after one request, with the time since it was sent. None while it is still
  reading.\<close>

fun await_echo :: "u32 \<Rightarrow> bytes \<Rightarrow> (udp_read \<times> nat) list \<Rightarrow> (probe_error + echo) option" where
  "await_echo s payload [] = None"
| "await_echo s payload ((r, t) # reads) =
     (case r of
        UdpTimeout \<Rightarrow> Some (Inr Lost)
      | UdpFailed \<Rightarrow> Some (Inl ReadFailed)
      | UdpPacket b \<Rightarrow>
          if length b < 4 then Some (Inl TruncatedEcho)
          else if uint32_at b < unat s then await_echo s payload reads
          else if payload \<noteq> b then Some (Inl Corruption)
          else Some (Inr (Echoed t)))"

record request =
  rq_ctx_ok :: bool
  rq_deadline_ok :: bool
  rq_write_ok :: bool
  rq_reads :: "(udp_read \<times> nat) list"

record probe_result =
  pr_payload :: nat
  pr_sent :: nat
  pr_received :: nat
  pr_lost :: nat
  pr_median :: nat
  pr_p95 :: nat
  pr_max :: nat

definition probe_request :: "u32 \<Rightarrow> nat \<Rightarrow> request \<Rightarrow> (probe_error + echo) option" where
  "probe_request s n rq =
     (if \<not> rq_ctx_ok rq then Some (Inl ContextDone)
      else if \<not> rq_deadline_ok rq then Some (Inl DeadlineFailed)
      else if \<not> rq_write_ok rq then Some (Inl WriteFailed)
      else await_echo s (probe_payload s n) (rq_reads rq))"

text \<open>The requests of one size: the sequence number afterwards, the echoes and losses, the times.\<close>

fun probe_requests :: "u32 \<Rightarrow> nat \<Rightarrow> request list \<Rightarrow> nat \<Rightarrow> nat \<Rightarrow> nat list \<Rightarrow> (probe_error + u32 \<times> nat \<times> nat \<times> nat list) option" where
  "probe_requests s n [] received lost rtts = Some (Inr (s, received, lost, rtts))"
| "probe_requests s n (rq # rqs) received lost rtts =
     (case probe_request (s + 1) n rq of
        None \<Rightarrow> None
      | Some (Inl e) \<Rightarrow> Some (Inl e)
      | Some (Inr Lost) \<Rightarrow> probe_requests (s + 1) n rqs received (lost + 1) rtts
      | Some (Inr (Echoed t)) \<Rightarrow> probe_requests (s + 1) n rqs (received + 1) lost (rtts @ [t]))"

definition summarise :: "nat \<Rightarrow> nat \<Rightarrow> nat \<Rightarrow> nat \<Rightarrow> nat list \<Rightarrow> probe_result" where
  "summarise n sent received lost rtts =
     (let r = sort rtts
      in \<lparr>pr_payload = n, pr_sent = sent, pr_received = received, pr_lost = lost,
          pr_median = (if r = [] then 0 else r ! (length r div 2)),
          pr_p95 = (if r = [] then 0 else r ! min (length r - 1) (length r * 95 div 100)),
          pr_max = (if r = [] then 0 else r ! (length r - 1))\<rparr>)"

fun probe_sizes :: "u32 \<Rightarrow> (nat \<times> request list) list \<Rightarrow> (probe_error + probe_result list) option" where
  "probe_sizes s [] = Some (Inr [])"
| "probe_sizes s ((n, rqs) # rest) =
     (case probe_requests s n rqs 0 0 [] of
        None \<Rightarrow> None
      | Some (Inl e) \<Rightarrow> Some (Inl e)
      | Some (Inr (s, received, lost, rtts)) \<Rightarrow>
          (case probe_sizes s rest of
             None \<Rightarrow> None
           | Some (Inl e) \<Rightarrow> Some (Inl e)
           | Some (Inr rs) \<Rightarrow> Some (Inr (summarise n (length rqs) received lost rtts # rs))))"

definition warm_message :: string where "warm_message = ''authenticated H3 UDP readiness''"

text \<open>The sizes and the number of requests that the code fixes.\<close>

definition probe_spec :: "(nat \<times> request list) list \<Rightarrow> bool" where
  "probe_spec plan = (map fst plan = [64, 512, 1200] \<and> (\<forall>(n, rqs) \<in> set plan. length rqs = 20))"

text \<open>\<open>probe\<close>: the decoded metadata, whether its address parses, the echo of the warm-up stream (or the
  failure of its dial, write or read), whether the datagram flow could be dialled, the requests for each
  size, and the endpoint of the path.\<close>

definition probe ::
  "(string \<times> port) option \<Rightarrow> (string \<Rightarrow> bool) \<Rightarrow> string io_result \<Rightarrow> bool \<Rightarrow> (nat \<times> request list) list \<Rightarrow> string option \<Rightarrow> bool
     \<Rightarrow> (probe_error + bool \<times> nat \<times> probe_result list) option" where
  "probe info parses warm dial_ok plan endpoint expected_direct =
     (case info of
        None \<Rightarrow> Some (Inl BadMetadata)
      | Some (addr, p) \<Rightarrow>
          if \<not> parses addr \<or> p = 0 then Some (Inl BadCredential)
          else
            (case warm of
               IoError \<Rightarrow> Some (Inl WarmupFailed)
             | IoOk got \<Rightarrow>
                 if got \<noteq> warm_message then Some (Inl Integrity)
                 else if \<not> dial_ok then Some (Inl DialFailed)
                 else
                   (case probe_sizes 0 plan of
                      None \<Rightarrow> None
                    | Some (Inl e) \<Rightarrow> Some (Inl e)
                    | Some (Inr rs) \<Rightarrow>
                        (case endpoint of
                           None \<Rightarrow> Some (Inl PathFailed)
                         | Some ep \<Rightarrow>
                             if (ep \<noteq> []) \<noteq> expected_direct then Some (Inl UnexpectedPath)
                             else
                               (let lost = sum_list (map pr_lost rs)
                                in Some (Inr (lost = 0, 60 - lost, rs)))))))"

section \<open>Correctness\<close>

text \<open>Some read of the request returned exactly its payload, and every read before it a datagram with a
  smaller number.\<close>

definition echoed :: "u32 \<Rightarrow> nat \<Rightarrow> request \<Rightarrow> nat \<Rightarrow> bool" where
  "echoed s n rq t =
     (\<exists>before rest. rq_reads rq = before @ (UdpPacket (probe_payload s n), t) # rest
        \<and> (\<forall>(r, u) \<in> set before. \<exists>b. r = UdpPacket b \<and> 4 \<le> length b \<and> uint32_at b < unat s))"

lemma await_echo_Echoed:
  "await_echo s payload reads = Some (Inr (Echoed t)) \<Longrightarrow>
     \<exists>before rest. reads = before @ (UdpPacket payload, t) # rest
       \<and> (\<forall>(r, u) \<in> set before. \<exists>b. r = UdpPacket b \<and> 4 \<le> length b \<and> uint32_at b < unat s)"
proof (induction reads)
  case (Cons rt reads)
  obtain r u where rt: "rt = (r, u)" by (cases rt)
  obtain b where r: "r = UdpPacket b" "4 \<le> length b" using Cons.prems rt by (auto split: udp_read.splits if_splits)
  show ?case
  proof (cases "uint32_at b < unat s")
    case True
    then obtain before rest where "reads = before @ (UdpPacket payload, t) # rest"
      "\<forall>(r, u) \<in> set before. \<exists>b. r = UdpPacket b \<and> 4 \<le> length b \<and> uint32_at b < unat s"
      using Cons.IH Cons.prems rt r by auto
    then show ?thesis using True rt r by (intro exI [of _ "rt # before"] exI [of _ rest]) auto
  next
    case False
    then have "b = payload" "u = t" using Cons.prems rt r by (auto split: if_splits)
    then show ?thesis using rt r by (intro exI [of _ "[]"] exI [of _ reads]) simp
  qed
qed simp

lemma probe_request_Echoed: "probe_request s n rq = Some (Inr (Echoed t)) \<Longrightarrow> echoed s n rq t"
  using await_echo_Echoed by (auto simp: probe_request_def echoed_def split: if_splits)

lemma nat_bytes: "(((k :: nat) div 256 div 256 div 256 * 256 + k div 256 div 256 mod 256) * 256 + k div 256 mod 256) * 256 + k mod 256 = k"
  by (simp only: div_mult_mod_eq)

lemma uint32_at_be32: "uint32_at (be32 s @ x) = unat s"
proof -
  define k where "k = unat s"
  have "unat s < 2 ^ LENGTH(32)" by (rule unsigned_less)
  then have k: "k < 4294967296" by (simp add: k_def)
  have b: "unat (ucast (drop_bit m s) :: byte) = k div 2 ^ m mod 256" for m
    using k by (simp add: unsigned_ucast_eq unsigned_drop_bit_eq take_bit_eq_mod k_def [symmetric]) (simp add: drop_bit_eq_div)
  have "k div 2 ^ 8 = k div 256" "k div 2 ^ 16 = k div 256 div 256" "k div 2 ^ 24 = k div 256 div 256 div 256"
    "k div 256 div 256 div 256 mod 256 = k div 256 div 256 div 256"
    using k by (simp_all add: div_mult2_eq [symmetric])
  with b [of 0] b [of 8] b [of 16] b [of 24] nat_bytes [of k]
  show ?thesis unfolding k_def [symmetric] by (simp only: uint32_at_def be32_def drop_bit_0 id_apply append.simps nth_Cons_0
      nth_Cons_numeral One_nat_def nth_Cons_Suc numeral_2_eq_2 numeral_3_eq_3 power_0 div_by_1 div_by_Suc_0)
qed

text \<open>An echo of an earlier request, late or repeated, is never taken for a later one.\<close>

lemma stale_echo_skipped:
  "s < s' \<Longrightarrow> await_echo s' payload ((UdpPacket (probe_payload s n), t) # reads) = await_echo s' payload reads"
  by (simp add: probe_payload_def uint32_at_be32 word_less_nat_alt) (simp add: be32_def)

lemma probe_requests_count:
  "probe_requests s n rqs received lost rtts = Some (Inr (s', received', lost', rtts')) \<Longrightarrow>
     received' + lost' = received + lost + length rqs \<and> length rtts' - length rtts = received' - received
     \<and> received \<le> received' \<and> length rtts \<le> length rtts' \<and> s' = s + of_nat (length rqs)"
proof (induction rqs arbitrary: s received lost rtts)
  case (Cons rq rqs)
  then obtain e where e: "probe_request (s + 1) n rq = Some (Inr e)" by (auto split: option.splits sum.splits)
  show ?case
  proof (cases e)
    case Lost
    then show ?thesis using Cons.IH [of "s + 1" received "lost + 1" rtts] Cons.prems e by simp
  next
    case (Echoed t)
    then show ?thesis using Cons.IH [of "s + 1" "received + 1" lost "rtts @ [t]"] Cons.prems e by auto
  qed
qed simp

lemma probe_requests_times:
  assumes "probe_requests s n rqs received lost rtts = Some (Inr (s', received', lost', rtts'))"
    "\<forall>t \<in> set rtts. P t" "\<forall>i < length rqs. \<forall>t. echoed (s + 1 + of_nat i) n (rqs ! i) t \<longrightarrow> P t"
  shows "\<forall>t \<in> set rtts'. P t"
  using assms
proof (induction rqs arbitrary: s received lost rtts)
  case (Cons rq rqs)
  obtain e where e: "probe_request (s + 1) n rq = Some (Inr e)" using Cons.prems(1) by (auto split: option.splits sum.splits)
  have h: "\<forall>i < length rqs. \<forall>t. echoed (s + 1 + 1 + of_nat i) n (rqs ! i) t \<longrightarrow> P t"
  proof (intro allI impI)
    fix i t
    assume "i < length rqs" "echoed (s + 1 + 1 + of_nat i) n (rqs ! i) t"
    then show "P t" using Cons.prems(3) [rule_format, of "Suc i" t] by (simp add: algebra_simps)
  qed
  show ?case
  proof (cases e)
    case Lost
    then show ?thesis using Cons.IH [of "s + 1" received "lost + 1" rtts] Cons.prems(1,2) h e by simp
  next
    case (Echoed t)
    then have "P t" using probe_request_Echoed [of "s + 1" n rq t] e Cons.prems(3) [rule_format, of 0 t] by simp
    then show ?thesis using Echoed Cons.IH [of "s + 1" "received + 1" lost "rtts @ [t]"] Cons.prems(1,2) h e by simp
  qed
qed simp

lemma summarise_ordered:
  "pr_median (summarise n sent r l rtts) \<le> pr_p95 (summarise n sent r l rtts) \<and> pr_p95 (summarise n sent r l rtts) \<le> pr_max (summarise n sent r l rtts)
   \<and> (rtts \<noteq> [] \<longrightarrow> pr_max (summarise n sent r l rtts) = Max (set rtts))"
proof (cases "rtts = []")
  case True
  then show ?thesis by (simp add: summarise_def)
next
  case False
  let ?r = "sort rtts"
  let ?k = "length rtts"
  have "?k > 0" using False by simp
  then have i: "?k div 2 \<le> min (?k - 1) (?k * 95 div 100)" "min (?k - 1) (?k * 95 div 100) \<le> ?k - 1" "?k - 1 < ?k" by linarith+
  have m: "?r ! i \<le> ?r ! j" if "i \<le> j" "j < ?k" for i j using that by (intro sorted_nth_mono) simp_all
  have "?r ! (?k - 1) = Max (set rtts)"
  proof (rule Max_eqI [symmetric])
    show "y \<le> ?r ! (?k - 1)" if "y \<in> set rtts" for y
    proof -
      have "y \<in> set ?r" using that by simp
      then obtain i where "i < ?k" "y = ?r ! i" by (metis in_set_conv_nth length_sort)
      then show ?thesis using m [of i "?k - 1"] i(3) by simp
    qed
    show "?r ! (?k - 1) \<in> set rtts" using nth_mem [of "?k - 1" ?r] i(3) by simp
  qed simp
  moreover have "?r \<noteq> []" using False by (metis length_0_conv length_sort)
  ultimately show ?thesis using m [OF i(1)] m [OF i(2)] i by (simp add: summarise_def Let_def)
qed

lemma probe_sizes_sound:
  "probe_sizes s plan = Some (Inr rs) \<Longrightarrow>
     map pr_payload rs = map fst plan
     \<and> list_all2 (\<lambda>r (n, rqs). pr_sent r = length rqs \<and> pr_received r + pr_lost r = length rqs \<and> pr_median r \<le> pr_p95 r \<and> pr_p95 r \<le> pr_max r
           \<and> (0 < pr_received r \<longrightarrow> (\<exists>s'. \<exists>rq \<in> set rqs. echoed s' n rq (pr_max r)))) rs plan"
proof (induction plan arbitrary: s rs)
  case (Cons nr plan)
  obtain n rqs where nr: "nr = (n, rqs)" by (cases nr)
  obtain s' received lost rtts rs' where p: "probe_requests s n rqs 0 0 [] = Some (Inr (s', received, lost, rtts))"
    "probe_sizes s' plan = Some (Inr rs')" "rs = summarise n (length rqs) received lost rtts # rs'"
    using Cons.prems nr by (auto split: option.splits sum.splits)
  have c: "received + lost = length rqs" "length rtts = received" using probe_requests_count [OF p(1)] by simp_all
  have e: "\<forall>t \<in> set rtts. \<exists>s'. \<exists>rq \<in> set rqs. echoed s' n rq t"
  proof (rule probe_requests_times [OF p(1), where P = "\<lambda>t. \<exists>s'. \<exists>rq \<in> set rqs. echoed s' n rq t"])
    show "\<forall>i < length rqs. \<forall>t. echoed (s + 1 + of_nat i) n (rqs ! i) t \<longrightarrow> (\<exists>s'. \<exists>rq \<in> set rqs. echoed s' n rq t)"
      using nth_mem by blast
  qed simp
  have "\<exists>s'. \<exists>rq \<in> set rqs. echoed s' n rq (pr_max (summarise n (length rqs) received lost rtts))" if "0 < received"
  proof -
    have "rtts \<noteq> []" using that c(2) by auto
    then have "pr_max (summarise n (length rqs) received lost rtts) \<in> set rtts" using summarise_ordered by simp
    then show ?thesis using e by blast
  qed
  then show ?case using Cons.IH [OF p(2)] c summarise_ordered [of n "length rqs" received lost rtts] by (simp add: nr p(3) summarise_def Let_def)
qed simp

text \<open>A report is true of the run: every one of the sixty requests is counted once, as received or lost;
  received means that the very payload of the request came back; the report is good exactly if no
  request was lost; the percentiles are in order and the maximum is the time of a real echo; and the path is the
  expected one.\<close>

theorem probe_report_true:
  assumes "probe info parses warm dial_ok plan endpoint direct = Some (Inr (ok, received, rs))" "probe_spec plan"
  shows "(ok \<longleftrightarrow> sum_list (map pr_received rs) = 60) \<and> received = sum_list (map pr_received rs)
    \<and> (\<forall>r \<in> set rs. pr_sent r = 20 \<and> pr_received r + pr_lost r = 20 \<and> pr_median r \<le> pr_p95 r \<and> pr_p95 r \<le> pr_max r)
    \<and> list_all2 (\<lambda>r (n, rqs). pr_payload r = n \<and> (0 < pr_received r \<longrightarrow> (\<exists>s. \<exists>rq \<in> set rqs. echoed s n rq (pr_max r)))) rs plan
    \<and> warm = IoOk warm_message \<and> (\<exists>ep. endpoint = Some ep \<and> (ep \<noteq> [] \<longleftrightarrow> direct))"
proof -
  obtain ep where p: "probe_sizes 0 plan = Some (Inr rs)" "warm = IoOk warm_message" "endpoint = Some ep" "(ep \<noteq> []) = direct"
    and o: "ok = (sum_list (map pr_lost rs) = 0)" "received = 60 - sum_list (map pr_lost rs)"
    using assms(1) by (auto simp: probe_def Let_def split: option.splits io_result.splits sum.splits if_splits)
  note s = probe_sizes_sound [OF p(1)]
  obtain a b c where plan: "plan = [(64, a), (512, b), (1200, c)]" "length a = 20" "length b = 20" "length c = 20"
    using assms(2) by (auto simp: probe_spec_def map_eq_Cons_conv)
  from s obtain r1 r2 r3 where rs: "rs = [r1, r2, r3]" unfolding plan(1) by (auto simp: list_all2_Cons2)
  have t: "pr_received r1 + pr_lost r1 = 20" "pr_received r2 + pr_lost r2 = 20" "pr_received r3 + pr_lost r3 = 20"
    using s plan unfolding rs plan(1) by simp_all
  then have "ok \<longleftrightarrow> sum_list (map pr_received rs) = 60" "received = sum_list (map pr_received rs)" using o rs by auto
  then show ?thesis using s p plan rs by simp
qed

text \<open>A path that echoes every datagram at once.\<close>

definition sample_request :: "u32 \<Rightarrow> nat \<Rightarrow> request" where
  "sample_request s n = \<lparr>rq_ctx_ok = True, rq_deadline_ok = True, rq_write_ok = True, rq_reads = [(UdpPacket (probe_payload s n), unat s)]\<rparr>"

fun sample_requests :: "u32 \<Rightarrow> nat \<Rightarrow> nat \<Rightarrow> request list" where
  "sample_requests s n 0 = []"
| "sample_requests s n (Suc k) = sample_request (s + 1) n # sample_requests (s + 1) n k"

definition sample_plan :: "(nat \<times> request list) list" where
  "sample_plan = [(64, sample_requests 0 64 20), (512, sample_requests 20 512 20), (1200, sample_requests 40 1200 20)]"

lemma sample_requests_run:
  "length (sample_requests s n k) = k \<and>
   (\<exists>ts. probe_requests s n (sample_requests s n k) r 0 rtts = Some (Inr (s + of_nat k, r + k, 0, ts)))"
proof (induction k arbitrary: s r rtts)
  case (Suc k)
  have "probe_request (s + 1) n (sample_request (s + 1) n) = Some (Inr (Echoed (unat (s + 1))))"
    by (simp add: probe_request_def sample_request_def probe_payload_def uint32_at_be32) (simp add: be32_def)
  then show ?case using Suc.IH [of "s + 1" "Suc r" "rtts @ [unat (s + 1)]"] by (simp add: add.assoc)
qed simp

theorem probe_report_true_witness:
  "\<exists>rs. probe (Some (''tch3x'', 32123)) (\<lambda>a. True) (IoOk warm_message) True sample_plan (Some ''1.2.3.4:5'') True = Some (Inr (True, 60, rs))
     \<and> sum_list (map pr_received rs) = 60"
proof -
  obtain t1 t2 t3 where t: "probe_requests 0 64 (sample_requests 0 64 20) 0 0 [] = Some (Inr (20, 20, 0, t1))"
    "probe_requests 20 512 (sample_requests 20 512 20) 0 0 [] = Some (Inr (40, 20, 0, t2))"
    "probe_requests 40 1200 (sample_requests 40 1200 20) 0 0 [] = Some (Inr (60, 20, 0, t3))"
    using sample_requests_run [of 0 64 20 0 "[]"] sample_requests_run [of 20 512 20 0 "[]"] sample_requests_run [of 40 1200 20 0 "[]"] by auto
  have l: "length (sample_requests s n k) = k" for s n k using sample_requests_run by simp
  have "probe_sizes 0 sample_plan = Some (Inr [summarise 64 20 20 0 t1, summarise 512 20 20 0 t2, summarise 1200 20 20 0 t3])"
    unfolding sample_plan_def by (simp only: probe_sizes.simps t l option.case sum.case prod.case)
  then have p: "probe (Some (''tch3x'', 32123)) (\<lambda>a. True) (IoOk warm_message) True sample_plan (Some ''1.2.3.4:5'') True
      = Some (Inr (True, 60, [summarise 64 20 20 0 t1, summarise 512 20 20 0 t2, summarise 1200 20 20 0 t3]))"
    by (simp add: probe_def summarise_def Let_def)
  have "probe_spec sample_plan" by (simp add: probe_spec_def sample_plan_def l)
  from probe_report_true [OF p this] p show ?thesis by blast
qed

end
