(* ===== verification/Spec2Isabelle.thy ===== *)
theory Spec2Isabelle
  imports CliGenkey CliSsh CliForward Web LocalDns UnixPty Lifecycle Platform WebDist FlakeHashes Installer WanCheck
begin

text \<open>
  A verification library for tailcat-quic: a tool and Go package with which a server and its clients
  meet through a relay and then talk over authenticated HTTP/3, without accounts or a control
  plane. A server prints a connection code that holds its public key, a preshared key and its relay
  region; whoever has the code can announce itself, and the server admits it if its allow list
  does. Everything else (TCP and UDP services, SSH, files, forwarding, the browser build) runs over
  the tunnel that this admission opens. File names below are relative to \<open>src/\<close>.

  The theories and the code they model.

  \<^item> \<open>Prelude\<close>, \<open>GoNet\<close>, \<open>GoPath\<close>: Go's strings, maps, numbers, addresses, prefixes and paths, as far
    as the program uses them. A Go map is an association list in the order a loop meets it; an
    unsigned integer of fixed width is a word of that width; an \<open>ipaddr\<close> is ordered as
    \<open>netip.Addr.Compare\<close> orders it.
  \<^item> \<open>Keys\<close>, \<open>Wire\<close>, \<open>Meow\<close> (\<open>tailcat.go\<close>, \<open>wire.go\<close>, \<open>h3.go\<close>, \<open>disco.go\<close>): keys and the addresses made
    of them, the connection code with its base64 layer, the announcement packet with its
    authentication code.
  \<^item> \<open>Leases\<close> (\<open>h3_clients.go\<close>): the 64-bit word that records a client's last activity, and the session
    callback and the retirement that race on it, as a relation \<open>lease_step\<close> on any number of threads.
  \<^item> \<open>Admission\<close> (\<open>tailcat.go\<close>): the backend record, the admission of a client (\<open>on_meow\<close>), the
    retirement of old ones, the policies the transport asks, the receipt of a packet. \<open>server_step\<close> is
    everything that can happen to a running backend. An engine call is an effect in a list; a panic
    is None.
  \<^item> \<open>DerpMap\<close> (\<open>tailcat.go\<close>, \<open>pickregion.go\<close>, \<open>pickregion_js.go\<close>): relay maps, their caches, the choice of a
    region.
  \<^item> \<open>Serving\<close> (\<open>tailcat.go\<close>, \<open>listen.go\<close>, \<open>h3_streams.go\<close>): starting and closing a server, its packet
    filter, its listeners, the dispatch of flows on the packet path and on the stream path.
  \<^item> \<open>ClientSide\<close>, \<open>Lifecycle\<close> (\<open>tailcat.go\<close>): the client's lazy start, its ping loop and dials; the
    closing of a backend.
  \<^item> \<open>Joining\<close>: what carries facts from one of these parts to the next; the property it leads to is
    below.
  \<^item> \<open>Proxy\<close> (\<open>tailcat.go\<close>): idle UDP flows, the stream proxy with its half-closes, draining closes.
  \<^item> \<open>Files\<close> (\<open>tailcat_files.go\<close>, \<open>tailcat_sftp.go\<close>): the SFTP service over a rooted directory in its
    four modes.
  \<^item> \<open>Ssh\<close>, \<open>UnixPty\<close>, \<open>Windows\<close> (\<open>tailcat_ssh.go\<close>, \<open>tailcat_ssh_keys.go\<close>, \<open>tailcat_ssh_unix.go\<close>,
    \<open>tailcat_ssh_windows.go\<close>, \<open>tailcat_exec.go\<close>): who may log in, what a session runs and with which
    environment, terminals and their descriptors.
  \<^item> \<open>CliAddr\<close>, \<open>CliServe\<close>, \<open>CliServer\<close>, \<open>CliMain\<close>, \<open>CliGenkey\<close>, \<open>CliSsh\<close>, \<open>CliForward\<close>
    (\<open>cmd/tailcat\<close>): the command line, from flags and arguments to the server that is started, the
    address that is published, the command that is executed or the connection that is dialled. A
    \<open>log.Fatal\<close> is an error value.
  \<^item> \<open>Web\<close>, \<open>WebDist\<close> (\<open>web\<close>, \<open>internal/wasmbuild\<close>, \<open>webdemo\<close>): the browser build, its registry of
    callbacks (\<open>bridge_step\<close>), the functions a page calls, and how the app is built and served.
  \<^item> \<open>LocalDns\<close>, \<open>Platform\<close>, \<open>FlakeHashes\<close>, \<open>Installer\<close>, \<open>WanCheck\<close>: the resolver for localhost names,
    build variants and platform glue, and the tools of the repository.

  How they fit. \<open>CliServer\<close> turns flags into the \<open>server\<close> record of \<open>Serving\<close>; \<open>start_locked\<close> there makes
  the \<open>backend\<close> of \<open>Admission\<close>, whose \<open>tailcat_addr\<close> is printed through \<open>Wire\<close>. \<open>ClientSide\<close> parses that
  string with \<open>parse_conn_addr\<close> and makes a backend of its own. Packets pass through \<open>Meow\<close>, both in
  \<open>server_derp_recv\<close> and in \<open>client_derp_recv\<close>. Each admitted client holds a word of \<open>Leases\<close>, and the
  retirement in \<open>Admission\<close> decides by it. Flows of admitted clients go through the filter and the
  dispatch of \<open>Serving\<close> to the handlers: the proxies of \<open>Proxy\<close>, the sessions of \<open>Ssh\<close>, the files of
  \<open>Files\<close>.

  What the lemmas show. Well-formedness: an invariant of the client table that every step of a
  running server keeps (\<open>server_table_sound\<close>), of the listener tables, of the registry of the browser
  build, of the lease words, of the forwarder. Behaviour on every branch: admission, start, region
  resolution, the key command, the exit of the pipe client. Equivalence with a specification: the
  packet filter and the stream path against one statement of what is served, the announcement
  parser against the set of packets it should take, the SSH key check against the configured lines,
  terminal modes against the request read as a map. Refinement: the racing lease loops against
  atomic updates. Round trips: connection codes, preshared keys, command lines through the shells of
  Unix and Windows, pings. Termination and liveness: the ping loop, the forwarder's shutdown, the
  hand-over of accepted connections. The three interfaces are the locales \<open>peer_directory\<close> (what the
  policies need of the client table), \<open>derp_cache\<close> (implemented by the memory cache and the disk
  cache) and \<open>rooted_dir\<close> (what a drop box needs of a directory), each interpreted on the model.
  The theorem of this theory composes them, from a started server and a printed code to two ends that
  accept exactly each other.

  Parameters. The cryptographic functions, CBOR, JSON, the Go tool, the engine (magicsock, QUIC,
  netstack), DNS, HTTP, the operating system and the SSH, SFTP and flag libraries are not code of the
  repository; each appears as a function or an outcome, and where a result needs a fact about one
  (the length of an HMAC, that decoding undoes encoding) the fact is a hypothesis with an instance in
  the witness. Sequences of events a select statement or a read loop sees are lists in the order
  they are taken, and None means that the code still waits at the end of the list; no fuel is used.
  The loop that draws a preshared key is a partial function, since its source of randomness may
  return zeros forever. Concurrency is modelled where the code relies on it: as step relations whose
  steps are the atomic actions or critical sections, or as all shuffles of two threads.

  Bounds that matter are kept: 256 clients, 32 announcement workers, 16-bit ports, the 64-bit lease
  word with its three bits of state, the installer's sizes in 64 bits, datagram numbers in 32.

  Not modelled. The construction of the TLS certificate, the transport factory and the netstack
  (\<open>newH3Factory\<close>, \<open>createEngine\<close>, \<open>newNetstack\<close>, \<open>Status\<close>), which calls third-party packages with constants
  and with the policies modelled here; the accessors that reach into gVisor by reflection; the
  performance counters; help texts, flag declarations and log lines; the development relay; the
  commands \<open>tailcat-web\<close> and \<open>tailcat-webdist\<close>, which call the modelled build and handler; the JavaScript of the
  page. Times are exact and blocking calls return or not as their outcome says: no claim is made about
  how long anything takes.
\<close>

section \<open>From a printed address to an authorised connection\<close>

text \<open>C1. A client that is brought up from the string a running server prints reaches that server
  and nobody else. Whatever the server has been through since it started, the client's
  announcement is consumed and starts a worker; if the allow list admits the client and the table
  has room, the worker sends exactly one acknowledgement, the client takes it, a repeated
  announcement is acknowledged again and changes nothing, and from then on the server accepts
  from the client exactly the client's own address while the client accepts packets of the server
  and of no other peer. A client that the list does not admit gets no answer and leaves no trace.\<close>

theorem join_end_to_end:
  assumes hmac: "\<And>k m. length (hmac k m) = 32"
    and codec: "\<And>ci x. marshal (wire_of ci) = Some x \<Longrightarrow> ce_unmarshal env x = Some (wire_of ci)"
    and server: "start_locked senv s v = Some (s', v', closed, None)" "sv_lb s' = Some b0" "(server_step est hs)\<^sup>*\<^sup>* b0 b"
    and address: "tailcat_addr marshal b = Some (cl_server c)"
    and client: "cl_lb c = None" "ensure_started env c w = Some (c', w', None)" "cl_lb c' = Some cb"
    and identity: "key_ok (lb_pub cb)" "key_ok (lb_disco_public cb)" "length (lb_nonce cb) = 32"
      "client_announcement hmac cb \<noteq> []" "lb_pub cb \<noteq> lb_pub b"
    and room: "slots < meow_slots" "lb_pub cb \<notin> mkeys (lb_clients b)" "length (lb_clients b) < h3_max_clients"
    and job: "job = (region, lb_pub cb, lb_disco_public cb, lb_nonce cb)"
  shows "lb_server_pub cb = lb_pub b
    \<and> server_derp_recv hmac b slots region (lb_pub cb) (client_announcement hmac cb) = (True, Suc slots, Some job)
    \<and> (if allowed_in b (lb_pub cb) then
         \<exists>b' es ack.
           meow_worker hmac est hs now now2 race gap job b = Some (b', es, [(lb_pub cb, region, ack)])
           \<and> client_derp_recv hmac cb (lb_pub b) ack = (True, True)
           \<and> meow_worker hmac est hs later later2 race gap job b' = Some (b', [], [(lb_pub cb, region, ack)])
           \<and> (\<forall>a. ip_wf a \<longrightarrow> (source_policy b' (lb_pub b) (lb_pub cb) a \<longleftrightarrow> a = lb_addr cb))
           \<and> (\<forall>k a. tunnel_addr a \<longrightarrow> (source_policy cb (lb_pub cb) k a \<longleftrightarrow> k = lb_pub b))
       else meow_worker hmac est hs now now2 race gap job b = Some (b, [], []))"
proof -
  obtain g where "s' = s\<lparr>sv_lb := Some (started_backend senv s g), sv_filter := Some (build_filter s (start_backend senv s g))\<rparr>"
    by (rule start_locked_running [OF server(1)])
  then have "lb_inv b0" using server(2) started_backend by auto
  then have inv: "lb_inv b" by (rule server_directory.inv_steps [OF server(3)])
  have "\<not> cl_started c" using client by (auto simp: ensure_started_def)
  then obtain ci priv where ci: "parse_conn_addr (ce_unmarshal env) (cl_server c) = Inr ci" "client_of env ci priv cb"
    using ensure_started_client_of [OF client(2,1)] client(3) by (metis option.inject)
  have n: "ci_server_public ci = lb_pub b" "ci_psk ci = lb_psk b" "addressable ci" "derp_region_id b \<noteq> None"
    using tailcat_addr_names [OF address ci(1) codec] by blast+
  have i: "lb_server_pub cb = lb_pub b" "lb_psk cb = lb_psk b" "lb_addr cb = tc_addr_for_key (lb_pub cb)" "lb_pub b \<noteq> key_zero"
    using ci(2) n(1-3) by (auto simp: client_of_def addressable_def)
  have nz: "lb_pub cb \<noteq> key_zero" using identity(4) by (simp add: client_announcement_def encode_h3_meow_nonempty_iff)
  note recv = announcement_received [OF hmac identity(1-4) i(2,1) room(1)]
    and ack = acknowledgement_received [OF hmac identity(1-4) i(2,1)]
  show ?thesis
  proof (cases "allowed_in b (lb_pub cb)")
    case True
    obtain b' es where m: "on_meow est hs now now2 race gap (lb_pub cb) (lb_disco_public cb) b = Some (b', es, True)"
      "lb_pub b' = lb_pub b" "lb_psk b' = lb_psk b"
      "\<forall>a. ip_wf a \<longrightarrow> (source_policy b' (lb_pub b) (lb_pub cb) a \<longleftrightarrow> a = tc_addr_for_key (lb_pub cb))"
      "on_meow est hs later later2 race gap (lb_pub cb) (lb_disco_public cb) b' = Some (b', [], True)"
      using admit_fresh [OF inv room(2,3) identity(1) nz identity(5) True n(4)] by blast
    have "source_policy cb (lb_pub cb) k a \<longleftrightarrow> k = lb_pub b" if "tunnel_addr a" for k a
      using client_source_policy [of cb] i(1,4) identity(5) that by metis
    then show ?thesis using True recv ack m i(1,3) by (simp add: job meow_worker_def)
  next
    case False
    then show ?thesis using recv i(1) by (simp add: job meow_worker_def on_meow_fresh [OF room(2,3)])
  qed
qed

lemma sample_server_runs:
  "\<exists>s' b. start_locked sample_env sample_conf () = Some (s', (), False, None) \<and> sv_lb s' = Some b
     \<and> lb_pub b = replicate 32 2 \<and> lb_clients b = [] \<and> lb_allowed b = None
     \<and> tailcat_addr sample_codec b = Some sample_join_addr"
proof -
  have "start_region sample_env sample_conf () = Some ((), Inr sample_region)" "dr_id sample_region \<noteq> 0"
    by (simp_all add: start_region_def sample_conf_def sample_region_def)
  from start_locked_region [OF this]
  have st: "start_locked sample_env sample_conf () = Some (sample_conf\<lparr>sv_lb := Some (started_backend sample_env sample_conf sample_region),
      sv_filter := Some (build_filter sample_conf (start_backend sample_env sample_conf sample_region))\<rparr>, (), False, None)"
    by (simp add: sample_conf_def sample_env_def Let_def started_backend_def)
  obtain nm where nm: "started_backend sample_env sample_conf sample_region = (start_backend sample_env sample_conf sample_region)\<lparr>lb_nm := Some nm\<rparr>"
    using started_backend by blast
  have p: "se_public sample_env k = replicate 32 2" "se_disco sample_env k = replicate 32 5"
    "start_psk sample_env sample_conf = replicate 32 3" "sv_allowed_clients sample_conf = []" for k
    by (simp_all add: sample_env_def start_psk_def sample_conf_def psk_is_zero_iff)
  have c: "\<lparr>ci_server_public = replicate 32 2, ci_disco = replicate 32 5, ci_psk = replicate 32 3, ci_region = [sample_region],
      ci_region_id = 0\<rparr> = sample_join_conn" by (simp add: sample_join_conn_def)
  show ?thesis
    using st nm by (simp add: p tailcat_addr_def c conn_addr_def sample_codec_def sample_join_addr_def allowed_of_def)
qed

theorem join_end_to_end_witness:
  "\<exists>s' b c' cb b' es ack.
     start_locked sample_env sample_conf () = Some (s', (), False, None) \<and> sv_lb s' = Some b
     \<and> ensure_started sample_join_env (new_client sample_join_addr) () = Some (c', (), None) \<and> cl_lb c' = Some cb
     \<and> meow_worker toy_hmac 4 2 0 0 (\<lambda>l. l) (\<lambda>b. b) (9, lb_pub cb, lb_disco_public cb, lb_nonce cb) b
          = Some (b', es, [(lb_pub cb, 9, ack)])
     \<and> client_derp_recv toy_hmac cb (lb_pub b) ack = (True, True)"
proof -
  obtain s' b where s: "start_locked sample_env sample_conf () = Some (s', (), False, None)" "sv_lb s' = Some b"
    "lb_pub b = replicate 32 2" "lb_clients b = []" "lb_allowed b = None" "tailcat_addr sample_codec b = Some sample_join_addr"
    using sample_server_runs by blast
  obtain c' cb where c: "ensure_started sample_join_env (new_client sample_join_addr) () = Some (c', (), None)" "cl_lb c' = Some cb"
    using sample_client_runs [of "new_client sample_join_addr"] by (auto simp: new_client_def)
  have n: "cl_lb (new_client sample_join_addr) = None" "cl_server (new_client sample_join_addr) = sample_join_addr"
    "\<not> cl_started (new_client sample_join_addr)"
    by (simp_all add: new_client_def)
  have cd: "ce_unmarshal sample_join_env x = Some (wire_of ci)" if "sample_codec (wire_of ci) = Some x" for ci x
    using that by (simp add: sample_codec_def sample_join_env_def split: if_splits)
  obtain ci priv where ci: "parse_conn_addr (ce_unmarshal sample_join_env) sample_join_addr = Inr ci" "client_of sample_join_env ci priv cb"
    using ensure_started_client_of [OF c(1) n(1)] n(2,3) c(2) by (metis option.inject)
  have k: "lb_pub cb = replicate 32 7" "lb_disco_public cb = replicate 32 8" "lb_nonce cb = replicate 32 9"
    using ci(2) by (simp_all add: client_of_def sample_join_env_def sample_client_env_def)
  have nz: "client_announcement toy_hmac cb \<noteq> []"
    using tailcat_addr_names [OF s(6) ci(1) cd] ci(2) k
    by (auto simp: client_announcement_def encode_h3_meow_nonempty_iff client_of_def addressable_def) (simp_all add: key_zero_def)
  have al: "allowed_in b (lb_pub cb)" by (simp add: allowed_in_def s(5))
  have ad: "tailcat_addr sample_codec b = Some (cl_server (new_client sample_join_addr))" using s(6) n(2) by simp
  have ok: "key_ok (lb_pub cb)" "key_ok (lb_disco_public cb)" "length (lb_nonce cb) = 32" "lb_pub cb \<noteq> lb_pub b"
    "(0::nat) < meow_slots" "lb_pub cb \<notin> mkeys (lb_clients b)" "length (lb_clients b) < h3_max_clients"
    by (simp_all add: k s(3,4) key_ok_def meow_slots_def h3_max_clients_def)
  note j = join_end_to_end [where hmac = toy_hmac and marshal = sample_codec and env = sample_join_env and est = 4 and hs = 2
      and region = 9 and slots = 0 and now = 0 and ?now2.0 = 0 and later = 0 and ?later2.0 = 0 and race = "\<lambda>l. l" and gap = "\<lambda>b. b",
      OF toy_hmac_length cd s(1,2) rtranclp.rtrancl_refl ad n(1) c ok(1-3) nz ok(4-7) refl]
  then obtain b' es ack where "meow_worker toy_hmac 4 2 0 0 (\<lambda>l. l) (\<lambda>b. b) (9, lb_pub cb, lb_disco_public cb, lb_nonce cb) b
          = Some (b', es, [(lb_pub cb, 9, ack)])" "client_derp_recv toy_hmac cb (lb_pub b) ack = (True, True)"
    using al by auto
  then show ?thesis using s(1,2) c by blast
qed

end
